(* ===== verification/Bbque_Prelude.thy ===== *)
theory Bbque_Prelude
  imports Main "HOL-Library.Word"
begin

text \<open>
  Generic material shared by the component theories: the machine integer types of the
  daemon, the faults a call can end with, decimal printing and parsing as
  \<^verbatim>\<open>std::to_string\<close> and \<^verbatim>\<open>atoi\<close> do it, and the model of
  \<^verbatim>\<open>std::map\<close> over a totally ordered key as a key-sorted association list, behind the
  interface \<open>ordered_map\<close>.
\<close>

section \<open>Types and collections\<close>

text \<open>Unsigned machine integers keep their width, so that \<open>+\<close> and \<open>-\<close> wrap.\<close>

type_synonym u8 = "8 word"
type_synonym u16 = "16 word"
type_synonym u32 = "32 word"
type_synonym u64 = "64 word"

text \<open>\<open>BBQUE_RID_TYPE\<close> is an \<open>int16_t\<close>: an \<^typ>\<open>int\<close> here, narrowed by \<open>s16\<close>
  where the source converts a wider integer to it.\<close>

type_synonym rid = int

named_theorems om_simps \<open>lookup laws of the ordered maps\<close>
named_theorems fault_simps \<open>unfolding of the fault-propagating composition\<close>

text \<open>What ends a call other than by returning: an exception leaving the function, an
  undefined dereference or division, or a wait on another thread.\<close>

datatype fault = OutOfRange | NullDeref | Dangling | WouldBlock | DivByZero

fun seq_fault :: "fault + 'a \<Rightarrow> ('a \<Rightarrow> fault + 'b) \<Rightarrow> fault + 'b" where
  "seq_fault (Inl e) f = Inl e"
| "seq_fault (Inr x) f = f x"

declare seq_fault.simps [fault_simps]

lemma seq_fault_Inr_iff [fault_simps]:
  "seq_fault m f = Inr y \<longleftrightarrow> (\<exists>x. m = Inr x \<and> f x = Inr y)"
  by (cases m) auto

lemma seq_fault_cong [fundef_cong]:
  "m = m' \<Longrightarrow> (\<And>x. m' = Inr x \<Longrightarrow> f x = g x) \<Longrightarrow> seq_fault m f = seq_fault m' g"
  by (cases m') auto

lemma find_append:
  "List.find P (xs @ ys) = (case List.find P xs of None \<Rightarrow> List.find P ys | Some x \<Rightarrow> Some x)"
  by (induction xs) auto

definition s16 :: "int \<Rightarrow> int" where
  "s16 x = signed_take_bit 15 x"

lemma s16_id [simp]: "- 32768 \<le> x \<Longrightarrow> x < 32768 \<Longrightarrow> s16 x = x"
  by (simp add: s16_def signed_take_bit_int_eq_self)

text \<open>A store of shared objects is a total function from addresses; an object is updated in
  place by applying a method to what its address holds.\<close>

lemma seq_fault_InrE:
  assumes "seq_fault x f = Inr y"
  obtains z where "x = Inr z" "f z = Inr y"
  using assms by (cases x) auto

definition hupd :: "'p \<Rightarrow> ('r \<Rightarrow> 'r) \<Rightarrow> ('p \<Rightarrow> 'r) \<Rightarrow> 'p \<Rightarrow> 'r" where
  "hupd p f h = h(p := f (h p))"

lemma hupd_apply [simp]: "hupd p f h q = (if q = p then f (h p) else h q)"
  by (simp add: hupd_def)

primrec apply_plan :: "('a \<Rightarrow> 'r \<Rightarrow> 'r) \<Rightarrow> ('p \<times> 'a) list \<Rightarrow> ('p \<Rightarrow> 'r) \<Rightarrow> 'p \<Rightarrow> 'r" where
  "apply_plan f [] h = h"
| "apply_plan f (pa # ps) h = apply_plan f ps (hupd (fst pa) (f (snd pa)) h)"

primrec apply_all :: "('r \<Rightarrow> 'r) \<Rightarrow> 'p list \<Rightarrow> ('p \<Rightarrow> 'r) \<Rightarrow> 'p \<Rightarrow> 'r" where
  "apply_all f [] h = h"
| "apply_all f (p # ps) h = apply_all f ps (hupd p f h)"

lemma apply_plan_append [simp]: "apply_plan f (ps @ qs) h = apply_plan f qs (apply_plan f ps h)"
  by (induction ps arbitrary: h) simp_all

lemma apply_all_append [simp]: "apply_all f (ps @ qs) h = apply_all f qs (apply_all f ps h)"
  by (induction ps arbitrary: h) simp_all

lemma apply_all_other: "q \<notin> set ps \<Longrightarrow> apply_all f ps h q = h q"
  by (induction ps arbitrary: h) simp_all

section \<open>Decimal numbers as text\<close>

definition digit_char :: "nat \<Rightarrow> char" where
  "digit_char d = char_of (48 + d)"

definition is_digit :: "char \<Rightarrow> bool" where
  "is_digit c \<longleftrightarrow> 48 \<le> (of_char c :: nat) \<and> (of_char c :: nat) \<le> 57"

definition digit_val :: "char \<Rightarrow> nat" where
  "digit_val c = of_char c - 48"

fun nat_to_string :: "nat \<Rightarrow> string" where
  "nat_to_string n =
     (if n < 10 then [digit_char n] else nat_to_string (n div 10) @ [digit_char (n mod 10)])"

declare nat_to_string.simps [simp del]

definition to_string :: "int \<Rightarrow> string" where
  "to_string i = (if i < 0 then ''-'' @ nat_to_string (nat (- i)) else nat_to_string (nat i))"

definition dec_val :: "string \<Rightarrow> nat" where
  "dec_val ds = foldl (\<lambda>a c. 10 * a + digit_val c) 0 ds"

lemma of_char_digit_char [simp]: "d < 10 \<Longrightarrow> (of_char (digit_char d) :: nat) = 48 + d"
  by (simp add: digit_char_def)

lemma is_digit_digit_char [simp]: "d < 10 \<Longrightarrow> is_digit (digit_char d)"
  by (simp add: is_digit_def)

lemma digit_val_digit_char [simp]: "d < 10 \<Longrightarrow> digit_val (digit_char d) = d"
  by (simp add: digit_val_def)

lemma nat_to_string_digits: "c \<in> set (nat_to_string n) \<Longrightarrow> is_digit c"
proof (induction n rule: nat_to_string.induct)
  case (1 n)
  then show ?case
    by (subst (asm) (2) nat_to_string.simps) (auto split: if_splits)
qed

lemma nat_to_string_nonempty [simp]: "nat_to_string n \<noteq> []"
  by (subst nat_to_string.simps) simp

lemma dec_val_append1 [simp]: "dec_val (ds @ [c]) = 10 * dec_val ds + digit_val c"
  by (simp add: dec_val_def)

lemma dec_val_nat_to_string [simp]: "dec_val (nat_to_string n) = n"
proof (induction n rule: nat_to_string.induct)
  case (1 n)
  show ?case
  proof (cases "n < 10")
    case True
    then show ?thesis by (subst nat_to_string.simps) (simp add: dec_val_def)
  next
    case False
    then show ?thesis using 1 by (subst nat_to_string.simps) simp
  qed
qed

text \<open>\<open>atoi\<close> skips blanks, reads a sign and the longest run of digits. The C library reads
  through \<open>strtol\<close>, which saturates at 64 bits, and narrows the result to 32 bits.\<close>

definition is_blank :: "char \<Rightarrow> bool" where
  "is_blank c \<longleftrightarrow> (of_char c :: nat) = 32 \<or> (9 \<le> (of_char c :: nat) \<and> (of_char c :: nat) \<le> 13)"

definition strtol :: "string \<Rightarrow> int" where
  "strtol s =
     (let t = dropWhile is_blank s in
      case t of
        [] \<Rightarrow> 0
      | c # t' \<Rightarrow>
          if c = CHR ''-'' then max (- (2 ^ 63)) (- int (dec_val (takeWhile is_digit t')))
          else if c = CHR ''+'' then min (2 ^ 63 - 1) (int (dec_val (takeWhile is_digit t')))
          else min (2 ^ 63 - 1) (int (dec_val (takeWhile is_digit t))))"

definition atoi :: "string \<Rightarrow> int" where
  "atoi s = signed_take_bit 31 (strtol s)"

lemma is_digit_not_special:
  assumes "is_digit c"
  shows "\<not> is_blank c" "c \<noteq> CHR ''-''" "c \<noteq> CHR ''+''" "c \<noteq> CHR ''.''" "c \<noteq> CHR ''*''"
  using assms by (auto simp: is_digit_def is_blank_def)

lemma takeWhile_nat_to_string [simp]: "takeWhile is_digit (nat_to_string n) = nat_to_string n"
  using nat_to_string_digits by (auto simp: takeWhile_eq_all_conv)

lemma atoi_nat_to_string:
  assumes "n < 2 ^ 31"
  shows "atoi (nat_to_string n) = int n"
proof -
  obtain c t where ct: "nat_to_string n = c # t"
    by (cases "nat_to_string n") auto
  then have "is_digit c" using nat_to_string_digits by (metis list.set_intros(1))
  then have "strtol (nat_to_string n) = min (2 ^ 63 - 1) (int (dec_val (takeWhile is_digit (c # t))))"
    by (simp add: strtol_def ct is_digit_not_special)
  also have "takeWhile is_digit (c # t) = nat_to_string n"
    by (simp only: ct [symmetric] takeWhile_nat_to_string)
  also have "min (2 ^ 63 - 1) (int (dec_val (nat_to_string n))) = min (2 ^ 63 - 1) (int n)"
    by simp
  also have "\<dots> = int n" using assms by simp
  finally show ?thesis using assms by (simp add: atoi_def signed_take_bit_int_eq_self)
qed

section \<open>Ordered maps\<close>

text \<open>The interface of an ordered dictionary as the daemon uses \<open>std::map\<close>: \<open>find\<close>,
  \<open>insert or assign\<close>, \<open>erase\<close> and in-order iteration.\<close>

locale ordered_map =
  fixes emp :: "'m"
    and ins :: "'k::linorder \<Rightarrow> 'v \<Rightarrow> 'm \<Rightarrow> 'm"
    and era :: "'k \<Rightarrow> 'm \<Rightarrow> 'm"
    and look :: "'m \<Rightarrow> 'k \<Rightarrow> 'v option"
    and items :: "'m \<Rightarrow> ('k \<times> 'v) list"
    and invar :: "'m \<Rightarrow> bool"
  assumes look_emp: "look emp = Map.empty"
    and look_ins: "invar m \<Longrightarrow> look (ins k v m) = (look m)(k \<mapsto> v)"
    and look_era: "invar m \<Longrightarrow> look (era k m) = (look m)(k := None)"
    and items_look: "invar m \<Longrightarrow> map_of (items m) = look m"
    and items_sorted: "invar m \<Longrightarrow> sorted_wrt (<) (map fst (items m))"
    and invar_emp: "invar emp"
    and invar_ins: "invar m \<Longrightarrow> invar (ins k v m)"
    and invar_era: "invar m \<Longrightarrow> invar (era k m)"
begin

lemma items_distinct: "invar m \<Longrightarrow> distinct (map fst (items m))"
  using items_sorted strict_sorted_iff by blast

lemma items_iff: "invar m \<Longrightarrow> (k, v) \<in> set (items m) \<longleftrightarrow> look m k = Some v"
  using items_distinct items_look by (metis map_of_eq_Some_iff)

lemma items_rebuild:
  assumes "invar m"
  shows "items m = map (\<lambda>k. (k, the (look m k))) (map fst (items m))"
proof -
  have "p = (fst p, the (look m (fst p)))" if "p \<in> set (items m)" for p
    using items_iff [OF assms, of "fst p" "snd p"] that by simp
  then show ?thesis by (simp add: map_idI)
qed

lemma items_unique:
  assumes "invar m" "invar m'" "look m = look m'"
  shows "items m = items m'"
proof -
  have "fst ` set (items m) = fst ` set (items m')"
    using items_look [OF assms(1)] items_look [OF assms(2)] assms(3)
    by (metis dom_map_of_conv_image_fst)
  then have "map fst (items m) = map fst (items m')"
    using items_sorted assms(1,2) by (intro strict_sorted_equal) auto
  then show ?thesis
    using items_rebuild [OF assms(1)] items_rebuild [OF assms(2)] assms(3) by metis
qed

lemma ins_era_items:
  assumes "invar m" "look m k = None"
  shows "items (era k (ins k v m)) = items m"
  using assms by (intro items_unique) (auto simp: look_era look_ins invar_era invar_ins)

end

text \<open>Its model: a list of pairs with strictly increasing keys.\<close>

type_synonym ('k, 'v) omap = "('k \<times> 'v) list"

abbreviation om_find :: "('k, 'v) omap \<Rightarrow> 'k \<Rightarrow> 'v option" where
  "om_find m k \<equiv> map_of m k"

fun om_set :: "'k::linorder \<Rightarrow> 'v \<Rightarrow> ('k, 'v) omap \<Rightarrow> ('k, 'v) omap" where
  "om_set k v [] = [(k, v)]"
| "om_set k v ((k', v') # m) =
     (if k < k' then (k, v) # (k', v') # m
      else if k = k' then (k, v) # m
      else (k', v') # om_set k v m)"

definition om_erase :: "'k \<Rightarrow> ('k, 'v) omap \<Rightarrow> ('k, 'v) omap" where
  "om_erase k m = filter (\<lambda>p. fst p \<noteq> k) m"

definition om_ok :: "('k::linorder, 'v) omap \<Rightarrow> bool" where
  "om_ok m \<longleftrightarrow> sorted_wrt (<) (map fst m)"

lemma om_find_set [om_simps, simp]: "om_find (om_set k v m) = (om_find m)(k \<mapsto> v)"
  if "om_ok m"
  using that by (induction k v m rule: om_set.induct) (auto simp: om_ok_def fun_eq_iff)

lemma om_keys_set: "fst ` set (om_set k v m) = insert k (fst ` set m)"
  by (induction k v m rule: om_set.induct) auto

lemma om_ok_set [simp]: "om_ok m \<Longrightarrow> om_ok (om_set k v m)"
proof (induction k v m rule: om_set.induct)
  case (2 k v k' v' m)
  then show ?case
    using om_keys_set [of k v m] by (auto simp: om_ok_def)
qed (simp add: om_ok_def)

lemma om_ok_erase [simp]: "om_ok m \<Longrightarrow> om_ok (om_erase k m)"
  by (induction m) (auto simp: om_ok_def om_erase_def)

lemma om_find_erase [om_simps, simp]: "om_find (om_erase k m) = (om_find m)(k := None)"
  by (induction m) (auto simp: om_erase_def fun_eq_iff)

lemma om_ok_Nil [simp]: "om_ok []"
  by (simp add: om_ok_def)

interpretation om: ordered_map "[]" om_set om_erase om_find "\<lambda>m. m" om_ok
  by unfold_locales (auto simp: om_simps, simp add: om_ok_def)

end
