(* ===== verification/Resource_Type.thy ===== *)
theory Resource_Type
  imports Bbque_Prelude
begin

text \<open>
  Resource types and resource identifiers: \<^verbatim>\<open>include/bbque/res/resource_type.h\<close>,
  \<^verbatim>\<open>bbque/res/resource_type.cc\<close>, \<^verbatim>\<open>bbque/res/identifier.cc\<close>. The largest
  resource number \<open>BBQUE_MAX_R_ID_NUM\<close> is chosen when the daemon is configured, so it is an
  argument \<open>mx\<close> of the operations that test it.
\<close>

section \<open>ResourceType\<close>

datatype ResourceType =
    UNDEFINED | SYSTEM | GROUP | CPU | GPU | ACCELERATOR | PROC_ELEMENT | MEMORY
  | NETWORK_IF | INTERCONNECT | IO | CUSTOM

definition R_TYPE_COUNT :: nat where
  "R_TYPE_COUNT = 12"

definition R_ID_ANY :: rid where
  "R_ID_ANY = - 1"

definition R_ID_NONE :: rid where
  "R_ID_NONE = - 2"

fun r_type_idx :: "ResourceType \<Rightarrow> nat" where
  "r_type_idx UNDEFINED = 0"
| "r_type_idx SYSTEM = 1"
| "r_type_idx GROUP = 2"
| "r_type_idx CPU = 3"
| "r_type_idx GPU = 4"
| "r_type_idx ACCELERATOR = 5"
| "r_type_idx PROC_ELEMENT = 6"
| "r_type_idx MEMORY = 7"
| "r_type_idx NETWORK_IF = 8"
| "r_type_idx INTERCONNECT = 9"
| "r_type_idx IO = 10"
| "r_type_idx CUSTOM = 11"

definition r_type_list :: "ResourceType list" where
  "r_type_list = [UNDEFINED, SYSTEM, GROUP, CPU, GPU, ACCELERATOR, PROC_ELEMENT, MEMORY,
     NETWORK_IF, INTERCONNECT, IO, CUSTOM]"

definition r_type_str :: "string list" where
  "r_type_str = [''*'', ''sys'', ''grp'', ''cpu'', ''gpu'', ''acc'', ''pe'', ''mem'',
     ''net'', ''icn'', ''io'', ''cst'']"

definition GetResourceTypeString :: "ResourceType \<Rightarrow> string" where
  "GetResourceTypeString type = r_type_str ! r_type_idx type"

definition GetResourceTypeFromString :: "string \<Rightarrow> ResourceType" where
  "GetResourceTypeFromString str =
     (case List.find (\<lambda>i. str = r_type_str ! i) [0..<R_TYPE_COUNT] of
        Some i \<Rightarrow> r_type_list ! i
      | None \<Rightarrow> UNDEFINED)"

text \<open>The enumeration is compared by its numeric value.\<close>

instantiation ResourceType :: linorder
begin

definition less_eq_ResourceType :: "ResourceType \<Rightarrow> ResourceType \<Rightarrow> bool" where
  "less_eq_ResourceType a b \<longleftrightarrow> r_type_idx a \<le> r_type_idx b"

definition less_ResourceType :: "ResourceType \<Rightarrow> ResourceType \<Rightarrow> bool" where
  "less_ResourceType a b \<longleftrightarrow> r_type_idx a < r_type_idx b"

instance
proof
  fix a b :: ResourceType
  show "a \<le> b \<Longrightarrow> b \<le> a \<Longrightarrow> a = b"
    by (cases a; cases b) (simp_all add: less_eq_ResourceType_def)
qed (auto simp: less_eq_ResourceType_def less_ResourceType_def)

end

lemma r_type_idx_eq_iff [simp]: "r_type_idx a = r_type_idx b \<longleftrightarrow> a = b"
  by (cases a; cases b) simp_all

lemma r_type_idx_less: "r_type_idx t < R_TYPE_COUNT"
  by (cases t) (simp_all add: R_TYPE_COUNT_def)

lemmas r_type_str_simps = GetResourceTypeString_def r_type_str_def r_type_list_def

lemma type_from_string_type_string [simp]:
  "GetResourceTypeFromString (GetResourceTypeString t) = t"
  by (cases t) (simp_all add: GetResourceTypeFromString_def R_TYPE_COUNT_def upt_rec r_type_str_simps)

lemma type_string_chars:
  assumes "c \<in> set (GetResourceTypeString t)"
  shows "\<not> is_digit c" "c \<noteq> CHR ''.''"
  using assms by (cases t; auto simp: r_type_str_simps is_digit_def)+

lemma type_string_nonempty [simp]: "GetResourceTypeString t \<noteq> []"
  by (cases t) (simp_all add: r_type_str_simps)

section \<open>ResourceIdentifier\<close>

datatype CResult = EQUAL | EQUAL_TYPE | DONT_CARE | NOT_EQUAL

record ResourceIdentifier =
  ri_name :: string
  ri_type :: ResourceType
  ri_id :: rid

definition ResourceIdentifier_new :: "int \<Rightarrow> ResourceType \<Rightarrow> rid \<Rightarrow> ResourceIdentifier" where
  "ResourceIdentifier_new mx type i =
     (let i' = (if i < R_ID_NONE \<or> i > mx then R_ID_NONE else i);
          name = GetResourceTypeString type
      in \<lparr>ri_name = (if i' = R_ID_NONE then name else name @ to_string i'),
          ri_type = type, ri_id = i'\<rparr>)"

definition ResourceIdentifier_lt :: "ResourceIdentifier \<Rightarrow> ResourceIdentifier \<Rightarrow> bool" where
  "ResourceIdentifier_lt a b =
     (if ri_type a < ri_type b then True else if ri_id a < ri_id b then True else False)"

definition ResourceIdentifier_eq :: "ResourceIdentifier \<Rightarrow> ResourceIdentifier \<Rightarrow> bool" where
  "ResourceIdentifier_eq a b \<longleftrightarrow> ri_type a = ri_type b \<and> ri_id a = ri_id b"

definition ResourceIdentifier_ne :: "ResourceIdentifier \<Rightarrow> ResourceIdentifier \<Rightarrow> bool" where
  "ResourceIdentifier_ne a b \<longleftrightarrow> ri_type a \<noteq> ri_type b \<or> ri_id a \<noteq> ri_id b"

definition SetID :: "int \<Rightarrow> rid \<Rightarrow> ResourceIdentifier \<Rightarrow> ResourceIdentifier" where
  "SetID mx i ri =
     (let name = GetResourceTypeString (ri_type ri) in
      if i = R_ID_NONE \<or> i = R_ID_ANY \<or> i > mx
      then ri\<lparr>ri_id := R_ID_NONE, ri_name := name\<rparr>
      else ri\<lparr>ri_id := i, ri_name := name @ to_string i\<rparr>)"

definition SetType :: "ResourceType \<Rightarrow> ResourceIdentifier \<Rightarrow> ResourceIdentifier" where
  "SetType type ri = ri\<lparr>ri_type := type\<rparr>"

definition ResourceIdentifier_Compare ::
    "ResourceIdentifier \<Rightarrow> ResourceIdentifier \<Rightarrow> CResult" where
  "ResourceIdentifier_Compare a ri =
     (if ri_type ri = UNDEFINED \<or> ri_type a = UNDEFINED then DONT_CARE
      else if ri_type ri \<noteq> ri_type a then NOT_EQUAL
      else if ri_id ri \<noteq> ri_id a then EQUAL_TYPE
      else EQUAL)"

text \<open>An identifier is well formed when its number is in range and its name spells its type
  and number. The constructor establishes this, whatever it is given, and \<open>SetID\<close> keeps it for
  every number that is not below \<open>R_ID_NONE\<close> (which it does not test).\<close>

definition ident_name :: "ResourceType \<Rightarrow> rid \<Rightarrow> string" where
  "ident_name type i =
     GetResourceTypeString type @ (if i = R_ID_NONE then [] else to_string i)"

definition ident_ok :: "int \<Rightarrow> ResourceIdentifier \<Rightarrow> bool" where
  "ident_ok mx ri \<longleftrightarrow>
     R_ID_NONE \<le> ri_id ri \<and> ri_id ri \<le> max mx R_ID_NONE \<and>
     ri_name ri = ident_name (ri_type ri) (ri_id ri)"

lemma ident_ok_new [simp]: "ident_ok mx (ResourceIdentifier_new mx t i)"
  by (auto simp: ident_ok_def ResourceIdentifier_new_def ident_name_def Let_def)

lemma ident_ok_SetID:
  "ident_ok mx ri \<Longrightarrow> R_ID_NONE \<le> i \<Longrightarrow> ident_ok mx (SetID mx i ri)"
  by (auto simp: ident_ok_def SetID_def ident_name_def Let_def)

lemma ident_new_type [simp]: "ri_type (ResourceIdentifier_new mx t i) = t"
  by (simp add: ResourceIdentifier_new_def Let_def)

lemma ident_new_id:
  "ri_id (ResourceIdentifier_new mx t i) = (if i < R_ID_NONE \<or> i > mx then R_ID_NONE else i)"
  by (simp add: ResourceIdentifier_new_def Let_def)

lemma ident_new_of_ok:
  assumes "ident_ok mx ri"
  shows "ResourceIdentifier_new mx (ri_type ri) (ri_id ri) = ri"
  using assms
  by (cases ri) (auto simp: ident_ok_def ResourceIdentifier_new_def ident_name_def Let_def max_def
      split: if_splits)

lemma ident_ok_eqI:
  assumes "ident_ok mx a" "ident_ok mx b" "ResourceIdentifier_eq a b"
  shows "a = b"
  using assms by (cases a; cases b) (auto simp: ident_ok_def ResourceIdentifier_eq_def)

lemma Compare_EQUAL_iff:
  "ResourceIdentifier_Compare a b = EQUAL \<longleftrightarrow>
     ResourceIdentifier_eq a b \<and> ri_type a \<noteq> UNDEFINED"
  by (auto simp: ResourceIdentifier_Compare_def ResourceIdentifier_eq_def)

end
