(* ===== verification/Path_Utils.thy ===== *)
theory Path_Utils
  imports Resource_Type
begin

text \<open>
  \<^verbatim>\<open>include/bbque/res/resource_utils.h\<close>: the unit conversion and the string functions of
  \<open>ResourcePathUtils\<close>, over the \<open>std::string\<close> searches they use. A position is an
  optional number, \<open>None\<close> being \<open>npos\<close>. The lemmas show that splitting a dotted text gives
  back the segments it was joined from, for any way of printing segments that keeps to the
  interface \<open>segment_codec\<close>; resource names are such a way.
\<close>

section \<open>String searches\<close>

definition find_first_of :: "string \<Rightarrow> string \<Rightarrow> nat option" where
  "find_first_of s pat =
     (let k = length (takeWhile (\<lambda>c. c \<notin> set pat) s) in if k < length s then Some k else None)"

definition find_last_of :: "string \<Rightarrow> string \<Rightarrow> nat option" where
  "find_last_of s pat =
     (let k = length (takeWhile (\<lambda>c. c \<notin> set pat) (rev s)) in
      if k < length s then Some (length s - 1 - k) else None)"

definition find_str :: "string \<Rightarrow> string \<Rightarrow> nat \<Rightarrow> nat option" where
  "find_str s pat from =
     List.find (\<lambda>k. take (length pat) (drop k s) = pat) [from..<length s + 1]"

definition substr :: "string \<Rightarrow> nat \<Rightarrow> nat option \<Rightarrow> string" where
  "substr s pos cnt = (case cnt of None \<Rightarrow> drop pos s | Some n \<Rightarrow> take n (drop pos s))"

definition toupper :: "char \<Rightarrow> char" where
  "toupper c =
     (if 97 \<le> (of_char c :: nat) \<and> (of_char c :: nat) \<le> 122
      then char_of ((of_char c :: nat) - 32) else c)"

section \<open>Unit conversion and ResourcePathUtils\<close>

definition ConvertValue :: "u64 \<Rightarrow> string \<Rightarrow> u64" where
  "ConvertValue v units =
     (case units of
        [] \<Rightarrow> v
      | c # _ \<Rightarrow>
          if toupper c = CHR ''K'' then v * 0x400
          else if toupper c = CHR ''M'' then v * 0x100000
          else if toupper c = CHR ''G'' then v * 0x40000000
          else v)"

definition SplitAndPop :: "string \<Rightarrow> string \<Rightarrow> string \<times> string" where
  "SplitAndPop tail pat =
     (case find_first_of tail pat of
        Some dot_pos \<Rightarrow> (substr tail 0 (Some dot_pos), substr tail (dot_pos + 1) None)
      | None \<Rightarrow> (tail, []))"

lemma SplitAndPop_shorter:
  "SplitAndPop tail pat = (head, tail') \<Longrightarrow> tail' \<noteq> [] \<Longrightarrow> length tail' < length tail"
  by (auto simp: SplitAndPop_def find_first_of_def substr_def Let_def split: if_splits)

abbreviation digits :: string where
  "digits \<equiv> ''0123456789''"

function GetTemplate_loop :: "string \<Rightarrow> string \<Rightarrow> string" where
  "GetTemplate_loop templ tail =
     (let (head, tail') = SplitAndPop tail digits; templ' = templ @ head in
      if tail' \<noteq> [] then GetTemplate_loop templ' tail' else templ')"
  by pat_completeness auto
termination
  by (relation "measure (\<lambda>(templ, tail). length tail)")
    (auto dest: SplitAndPop_shorter [OF sym])

declare GetTemplate_loop.simps [simp del]

definition GetTemplate :: "string \<Rightarrow> string" where
  "GetTemplate path = GetTemplate_loop [] path"

definition IsTemplate_str :: "string \<Rightarrow> bool" where
  "IsTemplate_str path \<longleftrightarrow> find_first_of path digits = None"

definition AppendID :: "string \<Rightarrow> rid \<Rightarrow> string" where
  "AppendID orig_name rid = (if rid \<le> R_ID_ANY then orig_name else orig_name @ to_string rid)"

definition ReplaceID_str :: "string \<Rightarrow> string \<Rightarrow> rid \<Rightarrow> rid \<Rightarrow> string" where
  "ReplaceID_str curr_path rsrc_name source_id out_id =
     (case find_str curr_path (AppendID rsrc_name source_id) 0 of
        None \<Rightarrow> curr_path
      | Some start_pos \<Rightarrow>
          let rest = (case find_str curr_path ''.'' start_pos of
                        Some dot_pos \<Rightarrow> drop dot_pos curr_path
                      | None \<Rightarrow> [])
          in take start_pos curr_path @ AppendID rsrc_name out_id @ rest)"

definition GetID_str :: "string \<Rightarrow> string \<Rightarrow> rid" where
  "GetID_str rsrc_path rsrc_name =
     (case find_str rsrc_path rsrc_name 0 of
        None \<Rightarrow> R_ID_NONE
      | Some start_pos \<Rightarrow>
          let dot_pos = find_str rsrc_path ''.'' start_pos
          in s16 (atoi (substr rsrc_path (start_pos + length rsrc_name) dot_pos)))"

definition GetName :: "string \<Rightarrow> string" where
  "GetName rsrc_path =
     (case find_last_of rsrc_path ''.'' of
        Some dot_pos \<Rightarrow> substr rsrc_path (dot_pos + 1) None
      | None \<Rightarrow> substr rsrc_path 0 None)"

definition GetNameTemplate :: "string \<Rightarrow> string" where
  "GetNameTemplate rsrc_path =
     (let templ_name = GetName rsrc_path;
          id_pos = find_first_of templ_name ''0123456''
      in substr templ_name 0 id_pos)"

definition GetNameID :: "string \<Rightarrow> string \<times> rid" where
  "GetNameID rsrc_str =
     (let id_pos = find_first_of rsrc_str digits;
          dot_pos = find_first_of rsrc_str ''.''
      in case id_pos of
           None \<Rightarrow> (substr rsrc_str 0 dot_pos, R_ID_NONE)
         | Some k \<Rightarrow> (substr rsrc_str 0 id_pos, s16 (atoi (substr rsrc_str k dot_pos))))"

section \<open>Reading back what was printed\<close>

lemma is_digit_iff_digits: "is_digit c \<longleftrightarrow> c \<in> set digits"
proof -
  have "c \<in> set digits" if "is_digit c"
  proof -
    have "(of_char c :: nat) \<in> {48, 49, 50, 51, 52, 53, 54, 55, 56, 57}"
      using that unfolding is_digit_def insert_iff empty_iff by presburger
    also have "\<dots> = of_char ` set digits" by simp
    finally show ?thesis by (auto simp del: list.set)
  qed
  moreover have "is_digit c" if "c \<in> set digits" using that by (auto simp: is_digit_def)
  ultimately show ?thesis by blast
qed

lemma find_first_of_append:
  assumes "\<forall>c\<in>set s. c \<notin> set pat"
  shows "find_first_of (s @ t) pat =
           (case t of [] \<Rightarrow> None
            | c # _ \<Rightarrow> if c \<in> set pat then Some (length s)
                       else map_option (\<lambda>k. length s + k) (find_first_of t pat))"
proof -
  have tw: "takeWhile (\<lambda>c. c \<notin> set pat) s = s" using assms by (simp add: takeWhile_eq_all_conv)
  show ?thesis
    using assms by (cases t) (auto simp: find_first_of_def Let_def takeWhile_append tw)
qed

lemma find_first_of_None:
  "find_first_of s pat = None \<longleftrightarrow> (\<forall>c\<in>set s. c \<notin> set pat)"
proof -
  have "length (takeWhile P s) < length s \<longleftrightarrow> \<not> (\<forall>c\<in>set s. P c)" for P
    by (induction s) auto
  then show ?thesis by (auto simp: find_first_of_def Let_def)
qed

lemma GetNameID_AppendID:
  assumes name: "\<forall>c\<in>set s. \<not> is_digit c \<and> c \<noteq> CHR ''.''" and i: "0 \<le> i" "i < 32768"
  shows "GetNameID (s @ to_string i) = (s, i)"
proof -
  obtain c t where ct: "to_string i = c # t"
    using i by (cases "to_string i") (auto simp: to_string_def)
  have dig: "is_digit d" if "d \<in> set (to_string i)" for d
    using that i by (auto simp: to_string_def intro: nat_to_string_digits)
  then have c: "is_digit c" using ct by simp
  have "find_first_of (s @ to_string i) digits = Some (length s)"
    using name c ct by (subst find_first_of_append) (auto simp: is_digit_iff_digits)
  moreover have "find_first_of (s @ to_string i) ''.'' = None"
    using name dig by (auto simp: find_first_of_None dest: is_digit_not_special(4))
  moreover have "atoi (to_string i) = i"
    using i by (simp add: to_string_def atoi_nat_to_string)
  ultimately show ?thesis
    using i by (simp add: GetNameID_def substr_def)
qed

lemma GetNameID_no_id:
  assumes "\<forall>c\<in>set s. \<not> is_digit c \<and> c \<noteq> CHR ''.''"
  shows "GetNameID s = (s, R_ID_NONE)"
proof -
  have "find_first_of s digits = None" "find_first_of s ''.'' = None"
    using assms by (auto simp: find_first_of_None is_digit_iff_digits)
  then show ?thesis by (simp add: GetNameID_def substr_def)
qed

section \<open>Dotted texts\<close>

fun join_dots :: "string list \<Rightarrow> string" where
  "join_dots [] = []"
| "join_dots [s] = s"
| "join_dots (s # t # ts) = s @ CHR ''.'' # join_dots (t # ts)"

function split_dots :: "string \<Rightarrow> string list" where
  "split_dots s =
     (let (head, tail) = SplitAndPop s ''.'' in
      if tail \<noteq> [] then head # split_dots tail else [head])"
  by pat_completeness auto
termination
  by (relation "measure length") (auto dest: SplitAndPop_shorter [OF sym])

declare split_dots.simps [simp del]

lemma SplitAndPop_dot:
  assumes "CHR ''.'' \<notin> set s"
  shows "SplitAndPop (s @ CHR ''.'' # t) ''.'' = (s, t)"
proof -
  have "find_first_of (s @ CHR ''.'' # t) ''.'' = Some (length s)"
    using assms by (subst find_first_of_append) auto
  then show ?thesis by (simp add: SplitAndPop_def substr_def)
qed

lemma SplitAndPop_no_dot:
  assumes "CHR ''.'' \<notin> set s"
  shows "SplitAndPop s ''.'' = (s, [])"
proof -
  have "find_first_of s ''.'' = None" using assms by (auto simp: find_first_of_None)
  then show ?thesis by (simp add: SplitAndPop_def)
qed

text \<open>A way to print and read the segments of a dotted text.\<close>

locale segment_codec =
  fixes print_seg :: "'a \<Rightarrow> string"
    and parse :: "string \<Rightarrow> 'a"
    and printable :: "'a \<Rightarrow> bool"
  assumes print_no_dot: "printable x \<Longrightarrow> CHR ''.'' \<notin> set (print_seg x)"
    and print_nonempty: "printable x \<Longrightarrow> print_seg x \<noteq> []"
    and parse_print: "printable x \<Longrightarrow> parse (print_seg x) = x"
begin

lemma join_nonempty: "xs \<noteq> [] \<Longrightarrow> \<forall>x\<in>set xs. printable x \<Longrightarrow> join_dots (map print_seg xs) \<noteq> []"
  by (cases xs; cases "tl xs") (auto simp: print_nonempty)

lemma split_join:
  "xs \<noteq> [] \<Longrightarrow> \<forall>x\<in>set xs. printable x \<Longrightarrow> split_dots (join_dots (map print_seg xs)) = map print_seg xs"
proof (induction xs)
  case (Cons x xs)
  show ?case
  proof (cases xs)
    case Nil
    then show ?thesis
      using Cons.prems by (subst split_dots.simps) (simp add: SplitAndPop_no_dot print_no_dot)
  next
    case (Cons y ys)
    let ?tail = "join_dots (map print_seg xs)"
    have "SplitAndPop (join_dots (map print_seg (x # xs))) ''.'' = (print_seg x, ?tail)"
      using \<open>\<forall>x\<in>set (x # xs). printable x\<close> by (simp add: Cons SplitAndPop_dot print_no_dot)
    moreover have "?tail \<noteq> []"
      using join_nonempty [of xs] Cons.prems(2) \<open>xs = y # ys\<close> by simp
    moreover have "split_dots ?tail = map print_seg xs"
      using Cons.IH Cons.prems(2) \<open>xs = y # ys\<close> by simp
    ultimately show ?thesis by (subst split_dots.simps) simp
  qed
qed simp

lemma parse_join:
  assumes "xs \<noteq> []" "\<forall>x\<in>set xs. printable x"
  shows "map parse (split_dots (join_dots (map print_seg xs))) = xs"
  using assms by (simp add: split_join map_idI parse_print)

end

end
