(* ===== verification/Resource_Path.thy ===== *)
theory Resource_Path
  imports Path_Utils
begin

text \<open>
  \<open>ResourcePath\<close> (\<^verbatim>\<open>include/bbque/res/resource_path.h\<close>,
  \<^verbatim>\<open>bbque/res/resource_path.cc\<close>). A path is a vector of identifiers with an index from types
  to positions. Identifiers are held by value: the only caller that rewrites an identifier
  (\<open>ReplaceID\<close> in the binder) does so on a path it has just built from a string. The results
  are that every operation keeps the path well formed, that the index agrees with a linear
  search, and that a path is read back from its text.
\<close>

section \<open>Operations\<close>

datatype PathExitCode = PATH_OK | WRN_MISS_ID | ERR_MISS_TYPE | ERR_USED_TYPE

datatype PathCResult = PATH_EQUAL | PATH_EQUAL_TYPES | PATH_NOT_EQUAL

datatype PathClass = RP_UNDEFINED | RP_EXACT | RP_MIXED | RP_TEMPLATE

record ResourcePath =
  identifiers :: "ResourceIdentifier list"
  types_bits :: "bool list"
  types_idx :: "nat \<rightharpoonup> nat"
  global_type :: ResourceType
  level_count :: nat

definition Path_empty :: ResourcePath where
  "Path_empty = \<lparr>identifiers = [], types_bits = replicate R_TYPE_COUNT False,
     types_idx = Map.empty, global_type = UNDEFINED, level_count = 0\<rparr>"

definition Path_Clear :: "ResourcePath \<Rightarrow> ResourcePath" where
  "Path_Clear p = p\<lparr>identifiers := [], types_idx := Map.empty,
     types_bits := replicate R_TYPE_COUNT False, global_type := UNDEFINED, level_count := 0\<rparr>"

definition Path_Append :: "int \<Rightarrow> ResourceType \<Rightarrow> rid \<Rightarrow> ResourcePath \<Rightarrow> PathExitCode \<times> ResourcePath" where
  "Path_Append mx r_type r_id p =
     (let r_type_index = r_type_idx r_type in
      if types_bits p ! r_type_index then (ERR_USED_TYPE, p)
      else (PATH_OK,
        p\<lparr>types_bits := (types_bits p)[r_type_index := True],
          types_idx := (types_idx p)(r_type_index \<mapsto> level_count p),
          identifiers := identifiers p @ [ResourceIdentifier_new mx r_type r_id],
          global_type := r_type,
          level_count := level_count p + 1\<rparr>))"

definition Path_Append_name ::
    "int \<Rightarrow> string \<Rightarrow> rid \<Rightarrow> ResourcePath \<Rightarrow> PathExitCode \<times> ResourcePath" where
  "Path_Append_name mx r_name r_id p = Path_Append mx (GetResourceTypeFromString r_name) r_id p"

function AppendString ::
    "int \<Rightarrow> string \<Rightarrow> bool \<Rightarrow> ResourcePath \<Rightarrow> PathExitCode \<times> ResourcePath" where
  "AppendString mx tail smart_mode p =
     (let (head, tail') = SplitAndPop tail ''.'';
          (r_name, r_id) = GetNameID head;
          (result, p') = Path_Append_name mx r_name r_id p
      in if result \<noteq> PATH_OK \<and> \<not> smart_mode then (result, p')
         else if tail' \<noteq> [] then AppendString mx tail' smart_mode p'
         else (PATH_OK, p'))"
  by pat_completeness auto
termination
  by (relation "measure (\<lambda>(mx, tail, smart_mode, p). length tail)")
    (auto dest: SplitAndPop_shorter [OF sym])

declare AppendString.simps [simp del]

definition ResourcePath_new :: "int \<Rightarrow> string \<Rightarrow> ResourcePath" where
  "ResourcePath_new mx str_path =
     (let (result, p) = AppendString mx str_path False Path_empty
      in if result \<noteq> PATH_OK then Path_Clear p else p)"

definition Path_GetIdentifier_at :: "nat \<Rightarrow> ResourcePath \<Rightarrow> ResourceIdentifier option" where
  "Path_GetIdentifier_at depth_level p =
     (if depth_level \<ge> length (identifiers p) then None else Some (identifiers p ! depth_level))"

fun Path_Concat_loop :: "int \<Rightarrow> ResourcePath \<Rightarrow> bool \<Rightarrow> nat \<Rightarrow> nat \<Rightarrow> ResourcePath \<Rightarrow>
    fault + PathExitCode \<times> ResourcePath" where
  "Path_Concat_loop mx source_path smart_mode i 0 p = Inr (PATH_OK, p)"
| "Path_Concat_loop mx source_path smart_mode i (Suc left) p =
     (case Path_GetIdentifier_at (i mod 256) source_path of
        None \<Rightarrow> Inl NullDeref
      | Some ident \<Rightarrow>
          let (result, p') = Path_Append mx (ri_type ident) (ri_id ident) p
          in if result \<noteq> PATH_OK \<and> \<not> smart_mode then Inr (result, p')
             else Path_Concat_loop mx source_path smart_mode (i + 1) left p')"

definition Path_Concat :: "int \<Rightarrow> ResourcePath \<Rightarrow> int \<Rightarrow> bool \<Rightarrow> ResourcePath \<Rightarrow>
    fault + PathExitCode \<times> ResourcePath" where
  "Path_Concat mx source_path num_levels smart_mode p =
     (let n = (if num_levels = 0 then length (identifiers source_path) else nat num_levels)
      in Path_Concat_loop mx source_path smart_mode 0 n p)"

definition Path_Concat_str :: "int \<Rightarrow> string \<Rightarrow> ResourcePath \<Rightarrow> PathExitCode \<times> ResourcePath" where
  "Path_Concat_str mx str_path p = AppendString mx str_path True p"

definition Path_Copy :: "int \<Rightarrow> ResourcePath \<Rightarrow> int \<Rightarrow> ResourcePath \<Rightarrow>
    fault + PathExitCode \<times> ResourcePath" where
  "Path_Copy mx source_path num_levels p =
     seq_fault (Path_Concat mx source_path num_levels True (Path_Clear p)) (\<lambda>(result, p').
       Inr (PATH_OK, if result \<noteq> PATH_OK then Path_Clear p' else p'))"

fun Path_lt_loop :: "ResourceIdentifier list \<Rightarrow> ResourceIdentifier list \<Rightarrow> bool" where
  "Path_lt_loop (a # as) (b # bs) = (if ResourceIdentifier_lt a b then True else Path_lt_loop as bs)"
| "Path_lt_loop _ _ = False"

definition Path_lt :: "ResourcePath \<Rightarrow> ResourcePath \<Rightarrow> bool" where
  "Path_lt p comp_path =
     (if length (identifiers p) < length (identifiers comp_path) then True
      else if length (identifiers p) > length (identifiers comp_path) then False
      else Path_lt_loop (identifiers p) (identifiers comp_path))"

fun Path_eq_loop :: "ResourceIdentifier list \<Rightarrow> ResourceIdentifier list \<Rightarrow> bool" where
  "Path_eq_loop (a # as) (b # bs) = (if ResourceIdentifier_ne a b then False else Path_eq_loop as bs)"
| "Path_eq_loop _ _ = True"

definition Path_eq :: "ResourcePath \<Rightarrow> ResourcePath \<Rightarrow> bool" where
  "Path_eq p comp_path =
     (if length (identifiers p) \<noteq> length (identifiers comp_path) then False
      else Path_eq_loop (identifiers p) (identifiers comp_path))"

definition Path_IsTemplate :: "ResourcePath \<Rightarrow> bool" where
  "Path_IsTemplate p =
     list_all (\<lambda>ri. \<not> (ri_id ri \<noteq> R_ID_NONE \<and> ri_id ri \<noteq> R_ID_ANY)) (identifiers p)"

fun Path_Compare_loop ::
    "ResourceIdentifier list \<Rightarrow> ResourceIdentifier list \<Rightarrow> PathCResult \<Rightarrow> PathCResult" where
  "Path_Compare_loop (a # as) (b # bs) result =
     (if ResourceIdentifier_Compare a b = NOT_EQUAL then PATH_NOT_EQUAL
      else Path_Compare_loop as bs
        (if ResourceIdentifier_Compare a b = EQUAL_TYPE then PATH_EQUAL_TYPES else result))"
| "Path_Compare_loop _ _ result = result"

text \<open>After the loop the names of the last identifiers compared are read for the log, which
  no identifier has set when both paths are empty.\<close>

definition Path_Compare :: "ResourcePath \<Rightarrow> ResourcePath \<Rightarrow> fault + PathCResult" where
  "Path_Compare p comp_path =
     (if length (identifiers p) \<noteq> length (identifiers comp_path) then Inr PATH_NOT_EQUAL
      else if identifiers p = [] then Inl NullDeref
      else Inr (Path_Compare_loop (identifiers p) (identifiers comp_path) PATH_EQUAL))"

definition Path_IncludesType :: "ResourceType \<Rightarrow> ResourcePath \<Rightarrow> bool" where
  "Path_IncludesType r_type p = list_ex (\<lambda>ri. ri_type ri = r_type) (identifiers p)"

definition Path_GetLevel :: "ResourceType \<Rightarrow> ResourcePath \<Rightarrow> int" where
  "Path_GetLevel r_type p =
     (case types_idx p (r_type_idx r_type) of None \<Rightarrow> - 1 | Some k \<Rightarrow> int k)"

definition Path_GetIdentifier :: "ResourceType \<Rightarrow> ResourcePath \<Rightarrow> fault + ResourceIdentifier option" where
  "Path_GetIdentifier r_type p =
     (let level = Path_GetLevel r_type p in
      if level < 0 then Inr None
      else if nat level < length (identifiers p) then Inr (Some (identifiers p ! nat level))
      else Inl OutOfRange)"

definition Path_GetID :: "ResourceType \<Rightarrow> ResourcePath \<Rightarrow> fault + rid" where
  "Path_GetID r_type p =
     seq_fault (Path_GetIdentifier r_type p) (\<lambda>ident.
       case ident of None \<Rightarrow> Inr R_ID_NONE | Some ri \<Rightarrow> Inr (ri_id ri))"

definition Path_ReplaceID :: "int \<Rightarrow> ResourceType \<Rightarrow> rid \<Rightarrow> rid \<Rightarrow> ResourcePath \<Rightarrow>
    fault + PathExitCode \<times> ResourcePath" where
  "Path_ReplaceID mx r_type source_id out_id p =
     seq_fault (Path_GetIdentifier r_type p) (\<lambda>ident.
       case ident of
         None \<Rightarrow> Inr (ERR_MISS_TYPE, p)
       | Some ri \<Rightarrow>
           if source_id \<noteq> R_ID_ANY \<and> ri_id ri \<noteq> source_id then Inr (WRN_MISS_ID, p)
           else Inr (PATH_OK,
             p\<lparr>identifiers := (identifiers p)[nat (Path_GetLevel r_type p) := SetID mx out_id ri]\<rparr>))"

definition Path_ParentType :: "ResourceType \<Rightarrow> ResourcePath \<Rightarrow> fault + ResourceType" where
  "Path_ParentType r_type p =
     (let level = Path_GetLevel r_type p in
      if level < 0 then Inr UNDEFINED
      else let parent_index = level - 1 in
        if parent_index < 0 then Inr UNDEFINED
        else if nat parent_index < length (identifiers p)
          then Inr (ri_type (identifiers p ! nat parent_index))
        else Inl OutOfRange)"

text \<open>Two overloads share the name \<open>Type\<close>. A call without argument on a path that is not
  constant selects the second one, with \<open>rel_pos = 0\<close>.\<close>

definition Path_Type_const :: "ResourcePath \<Rightarrow> ResourceType" where
  "Path_Type_const p = global_type p"

definition Path_Type :: "int \<Rightarrow> ResourcePath \<Rightarrow> fault + ResourceType" where
  "Path_Type rel_pos p =
     (let pos = (if rel_pos < 0 then rel_pos + (int (length (identifiers p)) - 1) else rel_pos)
      in if 0 \<le> pos \<and> pos < int (length (identifiers p))
         then Inr (ri_type (identifiers p ! nat pos)) else Inl OutOfRange)"

fun Path_ToString_loop :: "bool \<Rightarrow> string \<Rightarrow> ResourceIdentifier list \<Rightarrow> string" where
  "Path_ToString_loop first str_path [] = str_path"
| "Path_ToString_loop first str_path (ri # ris) =
     Path_ToString_loop False
       ((if first then str_path else str_path @ ''.'') @ ri_name ri) ris"

definition Path_ToString :: "ResourcePath \<Rightarrow> string" where
  "Path_ToString p = Path_ToString_loop True [] (identifiers p)"

section \<open>Well-formed paths\<close>

abbreviation path_types :: "ResourcePath \<Rightarrow> ResourceType list" where
  "path_types p \<equiv> map ri_type (identifiers p)"

definition type_index :: "ResourceType list \<Rightarrow> nat \<Rightarrow> nat option" where
  "type_index ts n = List.find (\<lambda>k. r_type_idx (ts ! k) = n) [0..<length ts]"

definition index_ok ::
    "ResourceType list \<Rightarrow> bool list \<Rightarrow> (nat \<rightharpoonup> nat) \<Rightarrow> ResourceType \<Rightarrow> nat \<Rightarrow> bool" where
  "index_ok ts bits idx gt lc \<longleftrightarrow>
     distinct ts \<and>
     bits = map (\<lambda>n. n \<in> r_type_idx ` set ts) [0..<R_TYPE_COUNT] \<and>
     idx = type_index ts \<and>
     gt = (if ts = [] then UNDEFINED else last ts) \<and>
     lc = length ts"

definition path_ok :: "int \<Rightarrow> ResourcePath \<Rightarrow> bool" where
  "path_ok mx p \<longleftrightarrow>
     (\<forall>ri\<in>set (identifiers p). ident_ok mx ri) \<and>
     index_ok (path_types p) (types_bits p) (types_idx p) (global_type p) (level_count p)"

lemma path_ok_empty [simp]: "path_ok mx Path_empty"
  by (auto simp: path_ok_def index_ok_def Path_empty_def type_index_def map_replicate_const)

lemma identifiers_Path_empty [simp]: "identifiers Path_empty = []"
  by (simp add: Path_empty_def)

lemma Path_Clear_eq [simp]: "Path_Clear p = Path_empty"
  by (simp add: Path_Clear_def Path_empty_def)

lemma index_ok_bits: "index_ok ts bits idx gt lc \<Longrightarrow> bits ! r_type_idx t \<longleftrightarrow> t \<in> set ts"
  by (auto simp: index_ok_def r_type_idx_less inj_image_mem_iff [OF injI])

lemma type_index_snoc:
  "t \<notin> set ts \<Longrightarrow> type_index (ts @ [t]) = (type_index ts)(r_type_idx t \<mapsto> length ts)"
proof
  fix n assume fresh: "t \<notin> set ts"
  have "List.find (\<lambda>k. r_type_idx ((ts @ [t]) ! k) = n) [0..<length ts] = type_index ts n"
    unfolding type_index_def by (rule find_cong) (auto simp: nth_append)
  moreover have "type_index ts (r_type_idx t) = None"
    using fresh by (auto simp: type_index_def find_None_iff in_set_conv_nth)
  ultimately show "type_index (ts @ [t]) n = ((type_index ts)(r_type_idx t \<mapsto> length ts)) n"
    by (auto simp: type_index_def find_append nth_append split: option.splits)
qed

lemma index_ok_snoc:
  assumes "index_ok ts bits idx gt lc" "t \<notin> set ts"
  shows "index_ok (ts @ [t]) (bits[r_type_idx t := True]) (idx(r_type_idx t \<mapsto> lc)) t (lc + 1)"
proof -
  have "(map (\<lambda>n. n \<in> r_type_idx ` set ts) [0..<R_TYPE_COUNT])[r_type_idx t := True] =
      map (\<lambda>n. n \<in> r_type_idx ` set (ts @ [t])) [0..<R_TYPE_COUNT]"
    by (rule nth_equalityI) (auto simp: nth_list_update r_type_idx_less)
  with assms show ?thesis by (simp add: index_ok_def type_index_snoc)
qed

lemma Path_Append_cases:
  assumes "path_ok mx p"
  shows "Path_Append mx t i p =
    (if t \<in> set (path_types p) then (ERR_USED_TYPE, p)
     else (PATH_OK,
       p\<lparr>types_bits := (types_bits p)[r_type_idx t := True],
         types_idx := (types_idx p)(r_type_idx t \<mapsto> level_count p),
         identifiers := identifiers p @ [ResourceIdentifier_new mx t i],
         global_type := t, level_count := level_count p + 1\<rparr>))"
  using assms index_ok_bits
  unfolding path_ok_def Path_Append_def Let_def by metis

lemma path_ok_Append:
  assumes ok: "path_ok mx p" and app: "Path_Append mx t i p = (r, p')"
  shows "path_ok mx p'"
proof (cases "t \<in> set (path_types p)")
  case True
  then show ?thesis using app ok by (simp add: Path_Append_cases [OF ok])
next
  case False
  then show ?thesis
    using app ok index_ok_snoc [of "path_types p" _ _ _ _ t]
    by (auto simp: Path_Append_cases [OF ok] path_ok_def)
qed

lemma Path_Append_identifiers:
  assumes "path_ok mx p" "Path_Append mx t i p = (r, p')"
  shows "identifiers p' = (if t \<in> set (path_types p) then identifiers p
           else identifiers p @ [ResourceIdentifier_new mx t i])"
    and "r = (if t \<in> set (path_types p) then ERR_USED_TYPE else PATH_OK)"
  using assms by (auto simp: Path_Append_cases split: if_splits)

text \<open>A well-formed path is determined by its identifiers.\<close>

lemma path_ok_eqI:
  "path_ok mx p \<Longrightarrow> path_ok mx q \<Longrightarrow> identifiers p = identifiers q \<Longrightarrow> p = (q :: ResourcePath)"
  unfolding path_ok_def index_ok_def by (intro ResourcePath.equality) auto

lemma path_ok_AppendString:
  "path_ok mx p \<Longrightarrow> AppendString mx s smart p = (r, p') \<Longrightarrow> path_ok mx p'"
proof (induction mx s smart p rule: AppendString.induct)
  case (1 mx tail smart p)
  obtain head tail' where st: "SplitAndPop tail ''.'' = (head, tail')" by fastforce
  obtain nm i where ni: "GetNameID head = (nm, i)" by fastforce
  obtain q p1 where ap: "Path_Append_name mx nm i p = (q, p1)" by fastforce
  have "path_ok mx p1"
    using ap "1.prems"(1) path_ok_Append by (simp add: Path_Append_name_def)
  then show ?case
    using "1.IH" [OF st [symmetric] refl ni [symmetric] refl ap [symmetric] refl] "1.prems"(2) st ni ap
    by (subst (asm) AppendString.simps) (auto split: if_splits)
qed

lemma path_ok_new [simp]: "path_ok mx (ResourcePath_new mx s)"
  using path_ok_AppendString [of mx Path_empty s False]
  by (auto simp: ResourcePath_new_def split: prod.splits)

lemma path_ok_Concat_loop:
  "path_ok mx p \<Longrightarrow> Path_Concat_loop mx src smart i n p = Inr (r, p') \<Longrightarrow> path_ok mx p'"
proof (induction mx src smart i n p rule: Path_Concat_loop.induct)
  case (2 mx src smart i left p)
  then show ?case
    by (auto split: option.splits prod.splits if_splits dest: path_ok_Append)
qed simp

lemma path_ok_ReplaceID:
  assumes ok: "path_ok mx p" and rep: "Path_ReplaceID mx t a i p = Inr (r, p')" and i: "R_ID_NONE \<le> i"
  shows "path_ok mx p'"
proof -
  have types: "map ri_type ((identifiers p)[k := SetID mx i (identifiers p ! k)]) = path_types p"
    if "k < length (identifiers p)" for k
    using that by (intro nth_equalityI) (auto simp: nth_list_update SetID_def Let_def)
  have idents: "\<forall>ri\<in>set ((identifiers p)[k := SetID mx i (identifiers p ! k)]). ident_ok mx ri"
    if "k < length (identifiers p)" for k
    using ok i that by (auto simp: path_ok_def ident_ok_SetID dest!: set_update_subset_insert [THEN subsetD])
  show ?thesis
    using rep ok types idents
    by (auto simp: Path_ReplaceID_def Path_GetIdentifier_def path_ok_def Let_def
        fault_simps split: if_splits option.splits)
qed

section \<open>Lookups agree with a linear search\<close>

lemma type_index_Some:
  assumes "distinct ts" "k < length ts"
  shows "type_index ts (r_type_idx (ts ! k)) = Some k"
proof -
  obtain j where j: "type_index ts (r_type_idx (ts ! k)) = Some j"
    using assms(2) by (cases "type_index ts (r_type_idx (ts ! k))")
      (auto simp: type_index_def find_None_iff)
  then have "j < length ts" "ts ! j = ts ! k"
    by (auto simp: type_index_def find_Some_iff)
  with j assms show ?thesis by (simp add: nth_eq_iff_index_eq)
qed

lemma type_index_None:
  "t \<notin> set ts \<Longrightarrow> type_index ts (r_type_idx t) = None"
  by (auto simp: type_index_def find_None_iff in_set_conv_nth)

lemma Path_GetLevel_nth:
  "path_ok mx p \<Longrightarrow> k < length (identifiers p) \<Longrightarrow>
     Path_GetLevel (ri_type (identifiers p ! k)) p = int k"
  using type_index_Some [of "path_types p" k]
  by (simp add: Path_GetLevel_def path_ok_def index_ok_def)

lemma Path_GetLevel_absent:
  "path_ok mx p \<Longrightarrow> t \<notin> set (path_types p) \<Longrightarrow> Path_GetLevel t p = - 1"
  using type_index_None [of t "path_types p"]
  by (simp add: Path_GetLevel_def path_ok_def index_ok_def)

lemma find_type_nth:
  assumes "distinct (map ri_type ris)" "k < length ris"
  shows "List.find (\<lambda>ri. ri_type ri = ri_type (ris ! k)) ris = Some (ris ! k)"
  using assms
proof (induction ris arbitrary: k)
  case (Cons ri ris)
  show ?case
  proof (cases k)
    case (Suc j)
    then have "ri_type ri \<noteq> ri_type (ris ! j)"
      using Cons.prems nth_mem [of j ris] by force
    with Suc Cons show ?thesis by auto
  qed simp
qed simp

lemma Path_GetIdentifier_find:
  assumes ok: "path_ok mx p"
  shows "Path_GetIdentifier t p = Inr (List.find (\<lambda>ri. ri_type ri = t) (identifiers p))"
proof (cases "t \<in> set (path_types p)")
  case True
  then obtain k where k: "k < length (identifiers p)" "t = ri_type (identifiers p ! k)"
    by (auto simp: in_set_conv_nth)
  moreover have "distinct (map ri_type (identifiers p))"
    using ok by (simp add: path_ok_def index_ok_def)
  ultimately show ?thesis
    using Path_GetLevel_nth [OF ok k(1)] find_type_nth [of "identifiers p" k]
    by (simp add: Path_GetIdentifier_def)
next
  case False
  then have "List.find (\<lambda>ri. ri_type ri = t) (identifiers p) = None"
    by (auto simp: find_None_iff)
  with Path_GetLevel_absent [OF ok False] show ?thesis
    by (simp add: Path_GetIdentifier_def)
qed

section \<open>Reading a path back from its text\<close>

definition seg_print :: "ResourceType \<times> rid \<Rightarrow> string" where
  "seg_print seg = ident_name (fst seg) (snd seg)"

definition seg_parse :: "string \<Rightarrow> ResourceType \<times> rid" where
  "seg_parse s = (let (nm, i) = GetNameID s in (GetResourceTypeFromString nm, i))"

definition seg_printable :: "ResourceType \<times> rid \<Rightarrow> bool" where
  "seg_printable seg \<longleftrightarrow> snd seg = R_ID_NONE \<or> 0 \<le> snd seg \<and> snd seg < 32768"

interpretation seg: segment_codec seg_print seg_parse seg_printable
proof (unfold_locales, goal_cases)
  case (1 x)
  have "CHR ''.'' \<notin> set (GetResourceTypeString (fst x))"
    using type_string_chars(2) by blast
  moreover have "CHR ''.'' \<notin> set (nat_to_string n)" for n
    using nat_to_string_digits is_digit_not_special(4) by blast
  ultimately show ?case
    using 1 by (auto simp: seg_print_def seg_printable_def ident_name_def to_string_def)
next
  case (2 x)
  then show ?case by (simp add: seg_print_def ident_name_def)
next
  case (3 x)
  have name: "\<forall>c\<in>set (GetResourceTypeString (fst x)). \<not> is_digit c \<and> c \<noteq> CHR ''.''"
    using type_string_chars by blast
  show ?case
    using 3 GetNameID_AppendID [OF name, of "snd x"] GetNameID_no_id [OF name]
    by (cases x) (auto simp: seg_print_def seg_parse_def seg_printable_def ident_name_def R_ID_NONE_def)
qed

fun append_segs :: "int \<Rightarrow> bool \<Rightarrow> string list \<Rightarrow> ResourcePath \<Rightarrow> PathExitCode \<times> ResourcePath" where
  "append_segs mx smart [] p = (PATH_OK, p)"
| "append_segs mx smart (s # ss) p =
     (let (t, i) = seg_parse s; (r, p') = Path_Append mx t i p
      in if r \<noteq> PATH_OK \<and> \<not> smart then (r, p') else append_segs mx smart ss p')"

lemma AppendString_segs: "AppendString mx s smart p = append_segs mx smart (split_dots s) p"
proof (induction mx s smart p rule: AppendString.induct)
  case (1 mx tail smart p)
  obtain head tail' where st: "SplitAndPop tail ''.'' = (head, tail')" by fastforce
  obtain nm i where ni: "GetNameID head = (nm, i)" by fastforce
  obtain q p1 where ap: "Path_Append mx (GetResourceTypeFromString nm) i p = (q, p1)" by fastforce
  then have ap': "Path_Append_name mx nm i p = (q, p1)" by (simp add: Path_Append_name_def)
  show ?case
    using "1.IH" [OF st [symmetric] refl ni [symmetric] refl ap' [symmetric] refl]
    by (subst AppendString.simps, subst split_dots.simps)
      (cases smart; simp add: st ni ap ap' seg_parse_def)
qed

lemma append_segs_idents:
  assumes "path_ok mx p" "distinct (path_types p @ map ri_type ris)"
    "\<forall>ri\<in>set ris. ident_ok mx ri \<and> seg_printable (ri_type ri, ri_id ri)"
  shows "\<exists>p'. append_segs mx smart (map (\<lambda>ri. seg_print (ri_type ri, ri_id ri)) ris) p = (PATH_OK, p') \<and>
           path_ok mx p' \<and> identifiers p' = identifiers p @ ris"
  using assms
proof (induction ris arbitrary: p)
  case (Cons ri ris)
  obtain r p1 where p1: "Path_Append mx (ri_type ri) (ri_id ri) p = (r, p1)" by fastforce
  have "ri_type ri \<notin> set (path_types p)" using Cons.prems(2) by auto
  then have r: "r = PATH_OK" "identifiers p1 = identifiers p @ [ri]"
    using Path_Append_identifiers [OF Cons.prems(1) p1] ident_new_of_ok [of mx ri] Cons.prems(3)
    by simp_all
  moreover have "path_ok mx p1" using path_ok_Append [OF Cons.prems(1) p1] .
  ultimately show ?case
    using Cons.IH [of p1] Cons.prems p1 seg.parse_print [of "(ri_type ri, ri_id ri)"] by simp
qed simp

lemma ToString_loop_join:
  "Path_ToString_loop first acc ris =
     (if ris = [] then acc else acc @ (if first then [] else ''.'') @ join_dots (map ri_name ris))"
  by (induction first acc ris rule: Path_ToString_loop.induct) (auto simp: neq_Nil_conv)

lemma Path_ToString_join: "Path_ToString p = join_dots (map ri_name (identifiers p))"
  by (simp add: Path_ToString_def ToString_loop_join)

definition path_printable :: "ResourcePath \<Rightarrow> bool" where
  "path_printable p \<longleftrightarrow> identifiers p \<noteq> [] \<and> (\<forall>ri\<in>set (identifiers p). ri_id ri \<noteq> R_ID_ANY)"

lemma ident_ok_printable:
  "ident_ok mx ri \<Longrightarrow> mx < 32768 \<Longrightarrow> ri_id ri \<noteq> R_ID_ANY \<Longrightarrow> seg_printable (ri_type ri, ri_id ri)"
  by (auto simp: ident_ok_def seg_printable_def R_ID_NONE_def R_ID_ANY_def max_def split: if_splits)

lemma path_read_back:
  assumes ok: "path_ok mx p" and mx: "mx < 32768" and pr: "path_printable p"
  shows "ResourcePath_new mx (Path_ToString p) = p"
proof -
  let ?seg = "\<lambda>ri. (ri_type ri, ri_id ri)"
  have idents: "\<forall>ri\<in>set (identifiers p). ident_ok mx ri \<and> seg_printable (?seg ri)"
    using ok mx pr ident_ok_printable by (auto simp: path_ok_def path_printable_def)
  then have "Path_ToString p = join_dots (map seg_print (map ?seg (identifiers p)))"
    unfolding Path_ToString_join map_map
    by (intro arg_cong [of _ _ join_dots] map_cong) (auto simp: seg_print_def ident_ok_def)
  then have split: "split_dots (Path_ToString p) = map (\<lambda>ri. seg_print (?seg ri)) (identifiers p)"
    using seg.split_join [of "map ?seg (identifiers p)"] pr idents by (simp add: path_printable_def o_def)
  have "distinct (path_types Path_empty @ map ri_type (identifiers p))"
    using ok by (simp add: path_ok_def index_ok_def)
  then obtain q where q: "AppendString mx (Path_ToString p) False Path_empty = (PATH_OK, q)"
      "path_ok mx q" "identifiers q = identifiers p"
    using append_segs_idents [OF path_ok_empty _ idents, of False]
    unfolding AppendString_segs split identifiers_Path_empty append_Nil by blast
  then show ?thesis
    using path_ok_eqI [OF q(2) ok q(3)] by (simp add: ResourcePath_new_def)
qed

section \<open>Properties\<close>

text \<open>C23: a non-empty well-formed path whose identifiers do not carry the number
  \<open>R_ID_ANY\<close> is read back, with its whole type index, from the text it prints to.\<close>

theorem path_text_roundtrip:
  assumes "path_ok mx p" "mx < 32768" "path_printable p"
  shows "ResourcePath_new mx (Path_ToString p) = p"
  using assms by (rule path_read_back)

theorem path_text_roundtrip_witness:
  "path_printable (ResourcePath_new 31 ''sys0.cpu1.pe'') \<and>
   ResourcePath_new 31 (Path_ToString (ResourcePath_new 31 ''sys0.cpu1.pe'')) =
     ResourcePath_new 31 ''sys0.cpu1.pe''"
proof -
  have "path_printable (ResourcePath_new 31 ''sys0.cpu1.pe'')" by code_simp
  then show ?thesis using path_text_roundtrip [OF path_ok_new] by simp
qed

text \<open>C30: every path built from a string, and every path obtained from a well-formed one by
  appending, concatenating, copying or replacing a number, is well formed: its types are
  pairwise distinct, its names spell its identifiers, and the bit vector, the position index,
  the level count and the global type agree with the identifiers.\<close>

theorem path_operations_invariant:
  assumes "path_ok mx p"
  shows "path_ok mx (ResourcePath_new mx s) \<and>
    path_ok mx (snd (Path_Append mx t i p)) \<and>
    path_ok mx (snd (AppendString mx s smart p)) \<and>
    (\<forall>r p'. Path_Concat mx src n smart p = Inr (r, p') \<longrightarrow> path_ok mx p') \<and>
    (\<forall>r p'. Path_Copy mx src n p = Inr (r, p') \<longrightarrow> path_ok mx p') \<and>
    (\<forall>r p'. R_ID_NONE \<le> i \<longrightarrow> Path_ReplaceID mx t a i p = Inr (r, p') \<longrightarrow> path_ok mx p')"
proof (intro conjI)
  show "path_ok mx (snd (Path_Append mx t i p))"
    by (rule path_ok_Append [OF assms surjective_pairing])
  show "path_ok mx (snd (AppendString mx s smart p))"
    by (rule path_ok_AppendString [OF assms surjective_pairing])
  show "\<forall>r p'. Path_Concat mx src n smart p = Inr (r, p') \<longrightarrow> path_ok mx p'"
    using assms path_ok_Concat_loop by (auto simp: Path_Concat_def Let_def)
  show "\<forall>r p'. Path_Copy mx src n p = Inr (r, p') \<longrightarrow> path_ok mx p'"
    using path_ok_Concat_loop [OF path_ok_empty]
    by (auto simp: Path_Copy_def Path_Concat_def Let_def fault_simps)
  show "\<forall>r p'. R_ID_NONE \<le> i \<longrightarrow> Path_ReplaceID mx t a i p = Inr (r, p') \<longrightarrow> path_ok mx p'"
    using path_ok_ReplaceID [OF assms] by blast
qed simp

theorem path_operations_invariant_witness:
  "path_ok 31 (snd (Path_Append 31 PROC_ELEMENT 3 (ResourcePath_new 31 ''sys0.cpu1'')))"
  using path_operations_invariant [OF path_ok_new, where t = PROC_ELEMENT and i = 3] by blast

text \<open>C31: on a well-formed path the lookup through the type index returns, without fault, what
  a search through the identifiers returns, and \<open>GetID\<close> its number, or \<open>R_ID_NONE\<close> when the
  path has no resource of that type.\<close>

theorem path_lookup_is_search:
  assumes "path_ok mx p"
  shows "Path_GetIdentifier t p = Inr (List.find (\<lambda>ri. ri_type ri = t) (identifiers p)) \<and>
    Path_GetID t p = Inr (case List.find (\<lambda>ri. ri_type ri = t) (identifiers p) of
                            None \<Rightarrow> R_ID_NONE | Some ri \<Rightarrow> ri_id ri)"
  using Path_GetIdentifier_find [OF assms, of t]
  by (auto simp: Path_GetID_def split: option.splits)

theorem path_lookup_is_search_witness:
  "Path_GetID CPU (ResourcePath_new 31 ''sys0.cpu1.pe'') = Inr 1"
proof -
  have "(case List.find (\<lambda>ri. ri_type ri = CPU) (identifiers (ResourcePath_new 31 ''sys0.cpu1.pe'')) of
           None \<Rightarrow> R_ID_NONE | Some ri \<Rightarrow> ri_id ri) = 1"
    by code_simp
  then show ?thesis
    using path_lookup_is_search [OF path_ok_new, of CPU 31 "''sys0.cpu1.pe''"] by simp
qed

text \<open>\<open>operator<\<close> on paths is not a strict order, although assignment maps are keyed by it:
  of the paths \<open>sys0.cpu1.pe0\<close> and \<open>sys0.cpu0.pe1\<close> each is less than the other.\<close>

theorem path_order_not_asymmetric:
  "\<exists>p q. path_ok 31 p \<and> path_ok 31 q \<and> Path_lt p q \<and> Path_lt q p"
proof (intro exI conjI)
  show "Path_lt (ResourcePath_new 31 ''sys0.cpu1.pe0'') (ResourcePath_new 31 ''sys0.cpu0.pe1'')"
    by code_simp
  show "Path_lt (ResourcePath_new 31 ''sys0.cpu0.pe1'') (ResourcePath_new 31 ''sys0.cpu1.pe0'')"
    by code_simp
qed simp_all

text \<open>The call \<open>Type()\<close> on a path that is not constant is the type of its first level, not
  the type of the resource the path refers to; the two differ for every well-formed path
  of more than one level.\<close>

theorem path_type_is_first_level:
  assumes "path_ok mx p" "1 < length (identifiers p)"
  shows "Path_Type 0 p = Inr (hd (path_types p)) \<and> Path_Type_const p = last (path_types p) \<and>
    Path_Type 0 p \<noteq> Inr (Path_Type_const p)"
proof -
  obtain t ts where ts: "path_types p = t # ts" "ts \<noteq> []"
    using assms(2) by (cases "path_types p"; cases "tl (path_types p)") auto
  have d: "distinct (path_types p)" and gt: "global_type p = last (path_types p)"
    using assms ts by (auto simp: path_ok_def index_ok_def)
  have "hd (path_types p) \<noteq> last (path_types p)"
    unfolding ts(1) using d [unfolded ts(1)] ts(2) last_in_set [of ts] by auto
  moreover have "Path_Type 0 p = Inr (hd (path_types p))"
    using assms(2) by (cases "identifiers p") (auto simp: Path_Type_def)
  ultimately show ?thesis using gt by (simp add: Path_Type_const_def)
qed

theorem path_type_is_first_level_witness:
  "Path_Type 0 (ResourcePath_new 31 ''sys0.cpu1.pe2'') = Inr SYSTEM \<and>
   Path_Type_const (ResourcePath_new 31 ''sys0.cpu1.pe2'') = PROC_ELEMENT"
proof -
  have "1 < length (identifiers (ResourcePath_new 31 ''sys0.cpu1.pe2''))"
    "path_types (ResourcePath_new 31 ''sys0.cpu1.pe2'') = [SYSTEM, CPU, PROC_ELEMENT]"
    by code_simp+
  then show ?thesis using path_type_is_first_level [OF path_ok_new] by force
qed

end
