(* ===== verification/Resource_Desc.thy ===== *)
theory Resource_Desc
  imports Resource_Path
begin

text \<open>
  Resource descriptors (\<^verbatim>\<open>include/bbque/res/resources.h\<close>, \<^verbatim>\<open>bbque/res/resources.cc\<close>):
  the amount of a resource, what is reserved, and one \<open>ResourceState\<close> per view with the usage of
  each application. A view is named by a token; token 0 stands for the system view, whose token
  \<open>sysv\<close> the accounter holds. Amounts are 64-bit and their sums wrap. Timers, power and
  reliability profiles are not part of the model.

  The interface \<open>ledger\<close> states what the accounter relies on: what acquiring and releasing do to
  the usage of one application in one view, and that nothing else moves.
\<close>

section \<open>Data\<close>

datatype RSExitCode = RS_SUCCESS | RS_FAILED | RS_NO_APPS | RS_PWR_INFO_DISABLED

type_synonym AppUid = u32
type_synonym RViewToken = u64

record ResourceState =
  used :: u64
  apps :: "(AppUid, u64) omap"

definition ResourceState_new :: ResourceState where
  "ResourceState_new = \<lparr>used = 0, apps = []\<rparr>"

record Resource =
  rs_ident :: ResourceIdentifier
  total :: u64
  reserved :: u64
  rs_path :: string
  rs_model :: string
  offline :: bool
  state_views :: "RViewToken \<rightharpoonup> ResourceState"

definition Resource_new :: "int \<Rightarrow> ResourceType \<Rightarrow> rid \<Rightarrow> u64 \<Rightarrow> Resource" where
  "Resource_new mx type i tot =
     \<lparr>rs_ident = ResourceIdentifier_new mx type i, total = tot, reserved = 0, rs_path = [],
      rs_model = [], offline = False, state_views = Map.empty\<rparr>"

definition Resource_new_path :: "int \<Rightarrow> string \<Rightarrow> u64 \<Rightarrow> Resource" where
  "Resource_new_path mx res_path tot =
     (let name = (case find_last_of res_path ''.'' of
                    Some pos \<Rightarrow> substr res_path (pos + 1) None
                  | None \<Rightarrow> res_path)
      in \<lparr>rs_ident = (ResourceIdentifier_new mx UNDEFINED 0)\<lparr>ri_name := name\<rparr>, total = tot,
          reserved = 0, rs_path = res_path, rs_model = [], offline = False,
          state_views = Map.empty\<rparr>)"

section \<open>Operations\<close>

definition SetTotal :: "u64 \<Rightarrow> Resource \<Rightarrow> Resource" where
  "SetTotal tot r = r\<lparr>total := tot\<rparr>"

definition SetPath :: "string \<Rightarrow> Resource \<Rightarrow> Resource" where
  "SetPath r_path r = r\<lparr>rs_path := r_path\<rparr>"

definition SetModel :: "string \<Rightarrow> Resource \<Rightarrow> Resource" where
  "SetModel name r = r\<lparr>rs_model := name\<rparr>"

definition Unreserved :: "Resource \<Rightarrow> u64" where
  "Unreserved r = total r - reserved r"

definition Reserve :: "u64 \<Rightarrow> Resource \<Rightarrow> RSExitCode \<times> Resource" where
  "Reserve amount r =
     (if amount > total r then (RS_FAILED, r) else (RS_SUCCESS, r\<lparr>reserved := amount\<rparr>))"

definition SetOffline :: "Resource \<Rightarrow> Resource" where
  "SetOffline r = (if offline r then r else r\<lparr>offline := True\<rparr>)"

definition SetOnline :: "Resource \<Rightarrow> Resource" where
  "SetOnline r = (if \<not> offline r then r else r\<lparr>offline := False\<rparr>)"

definition view_key :: "RViewToken \<Rightarrow> RViewToken \<Rightarrow> RViewToken" where
  "view_key sysv view_id = (if view_id = 0 then sysv else view_id)"

definition GetStateView :: "RViewToken \<Rightarrow> RViewToken \<Rightarrow> Resource \<Rightarrow> ResourceState option" where
  "GetStateView sysv view_id r = state_views r (view_key sysv view_id)"

definition Used :: "RViewToken \<Rightarrow> RViewToken \<Rightarrow> Resource \<Rightarrow> u64" where
  "Used sysv view_id r =
     (case GetStateView sysv view_id r of None \<Rightarrow> 0 | Some view \<Rightarrow> used view)"

definition ApplicationUsage_map :: "AppUid option \<Rightarrow> (AppUid, u64) omap \<Rightarrow> u64" where
  "ApplicationUsage_map papp apps_map =
     (case papp of
        None \<Rightarrow> 0
      | Some uid \<Rightarrow> (case om_find apps_map uid of None \<Rightarrow> 0 | Some amount \<Rightarrow> amount))"

definition ApplicationUsage :: "RViewToken \<Rightarrow> AppUid option \<Rightarrow> RViewToken \<Rightarrow> Resource \<Rightarrow> u64" where
  "ApplicationUsage sysv papp view_id r =
     (case GetStateView sysv view_id r of
        None \<Rightarrow> 0
      | Some view \<Rightarrow> ApplicationUsage_map papp (apps view))"

definition Available :: "RViewToken \<Rightarrow> AppUid option \<Rightarrow> RViewToken \<Rightarrow> Resource \<Rightarrow> u64" where
  "Available sysv papp view_id r =
     (let total_available = Unreserved r in
      if offline r then 0
      else case GetStateView sysv view_id r of
        None \<Rightarrow> total_available
      | Some view \<Rightarrow>
          let total_available = total_available - used view in
          case papp of
            None \<Rightarrow> total_available
          | Some _ \<Rightarrow> total_available + ApplicationUsage_map papp (apps view))"

definition ApplicationsCount :: "RViewToken \<Rightarrow> RViewToken \<Rightarrow> Resource \<Rightarrow> u16 \<times> (AppUid, u64) omap" where
  "ApplicationsCount sysv view_id r =
     (case GetStateView sysv view_id r of
        None \<Rightarrow> (0, [])
      | Some view \<Rightarrow> (of_nat (length (apps view)), apps view))"

fun UsedBy_loop :: "nat \<Rightarrow> nat \<Rightarrow> (AppUid, u64) omap \<Rightarrow> RSExitCode \<times> AppUid \<times> u64" where
  "UsedBy_loop n count [] = (RS_NO_APPS, 0, 0)"
| "UsedBy_loop n count ((uid, amount) # m) =
     (if count < n then UsedBy_loop n count m else (RS_SUCCESS, uid, amount))"

definition UsedBy :: "RViewToken \<Rightarrow> nat \<Rightarrow> RViewToken \<Rightarrow> Resource \<Rightarrow> RSExitCode \<times> AppUid \<times> u64" where
  "UsedBy sysv n view_id r =
     (let (mapsize, apps_map) = ApplicationsCount sysv view_id r in
      if n \<ge> unat mapsize then (RS_NO_APPS, 0, 0) else UsedBy_loop n 0 apps_map)"

definition acquire_in ::
    "AppUid \<Rightarrow> u64 \<Rightarrow> RViewToken \<Rightarrow> ResourceState \<Rightarrow> Resource \<Rightarrow> u64 \<times> Resource" where
  "acquire_in uid amount key view r =
     (let fut_used = used view + amount in
      if fut_used > total r then (0, r)
      else (amount,
        r\<lparr>state_views := (state_views r)(key \<mapsto>
            view\<lparr>used := fut_used, apps := om_set uid amount (apps view)\<rparr>)\<rparr>))"

definition Acquire ::
    "RViewToken \<Rightarrow> AppUid \<Rightarrow> u64 \<Rightarrow> RViewToken \<Rightarrow> Resource \<Rightarrow> u64 \<times> Resource" where
  "Acquire sysv uid amount view_id r =
     (case GetStateView sysv view_id r of
        Some view \<Rightarrow> acquire_in uid amount (view_key sysv view_id) view r
      | None \<Rightarrow>
          acquire_in uid amount view_id ResourceState_new
            (r\<lparr>state_views := (state_views r)(view_id \<mapsto> ResourceState_new)\<rparr>))"

definition release_in ::
    "AppUid \<Rightarrow> RViewToken \<Rightarrow> ResourceState \<Rightarrow> Resource \<Rightarrow> u64 \<times> Resource" where
  "release_in app_uid key view r =
     (case om_find (apps view) app_uid of
        None \<Rightarrow> (0, r)
      | Some used_by_app \<Rightarrow>
          (used_by_app,
           r\<lparr>state_views := (state_views r)(key \<mapsto>
               view\<lparr>used := used view - used_by_app, apps := om_erase app_uid (apps view)\<rparr>)\<rparr>))"

definition Release :: "RViewToken \<Rightarrow> AppUid \<Rightarrow> RViewToken \<Rightarrow> Resource \<Rightarrow> u64 \<times> Resource" where
  "Release sysv app_uid view_id r =
     (case GetStateView sysv view_id r of
        None \<Rightarrow> (0, r)
      | Some view \<Rightarrow> release_in app_uid (view_key sysv view_id) view r)"

definition DeleteView :: "RViewToken \<Rightarrow> RViewToken \<Rightarrow> Resource \<Rightarrow> Resource" where
  "DeleteView sysv view_id r =
     (if view_id = sysv then r else r\<lparr>state_views := (state_views r)(view_id := None)\<rparr>)"

section \<open>The accounting invariant\<close>

definition apps_total :: "(AppUid, u64) omap \<Rightarrow> nat" where
  "apps_total m = (\<Sum>p\<leftarrow>m. unat (snd p))"

definition state_ok :: "u64 \<Rightarrow> ResourceState \<Rightarrow> bool" where
  "state_ok tot s \<longleftrightarrow> om_ok (apps s) \<and> unat (used s) = apps_total (apps s) \<and> used s \<le> tot"

definition resource_ok :: "Resource \<Rightarrow> bool" where
  "resource_ok r \<longleftrightarrow>
     reserved r \<le> total r \<and> (\<forall>v s. state_views r v = Some s \<longrightarrow> state_ok (total r) s)"

definition usage_of :: "Resource \<Rightarrow> RViewToken \<Rightarrow> AppUid \<Rightarrow> u64 option" where
  "usage_of r v = (case state_views r v of None \<Rightarrow> Map.empty | Some s \<Rightarrow> om_find (apps s))"

definition load_of :: "Resource \<Rightarrow> RViewToken \<Rightarrow> nat" where
  "load_of r v = (case state_views r v of None \<Rightarrow> 0 | Some s \<Rightarrow> unat (used s))"

lemma apps_total_Nil [simp]: "apps_total [] = 0"
  by (simp add: apps_total_def)

lemma apps_total_set:
  "om_find m k = None \<Longrightarrow> apps_total (om_set k a m) = apps_total m + unat a"
  by (induction k a m rule: om_set.induct) (auto simp: apps_total_def split: if_splits)

lemma om_erase_absent: "om_find m k = None \<Longrightarrow> om_erase k m = m"
  by (auto simp: om_erase_def map_of_eq_None_iff intro!: filter_True)

lemma apps_total_erase:
  "om_ok m \<Longrightarrow> om_find m k = Some a \<Longrightarrow> apps_total m = apps_total (om_erase k m) + unat a"
proof (induction m)
  case (Cons p m)
  show ?case
  proof (cases "fst p = k")
    case True
    then have "om_find m k = None"
      using Cons.prems(1) by (auto simp: om_ok_def map_of_eq_None_iff)
    then have "om_erase k m = m" by (rule om_erase_absent)
    with True Cons.prems(2) show ?thesis by (cases p) (simp add: om_erase_def apps_total_def)
  next
    case False
    then show ?thesis
      using Cons by (cases p) (simp add: om_erase_def apps_total_def om_ok_def)
  qed
qed simp

lemma state_ok_new [simp]: "state_ok tot ResourceState_new"
  by (simp add: state_ok_def ResourceState_new_def)

lemma apps_total_dom:
  assumes "om_ok m"
  shows "apps_total m = (\<Sum>k\<in>dom (om_find m). unat (the (om_find m k)))"
proof -
  have d: "distinct (map fst m)" using om.items_distinct assms by blast
  have "(\<Sum>k\<in>dom (om_find m). unat (the (om_find m k))) = (\<Sum>k\<leftarrow>map fst m. unat (the (om_find m k)))"
    using sum_list_distinct_conv_sum_set [OF d, of "\<lambda>k. unat (the (om_find m k))"]
    by (simp add: dom_map_of_conv_image_fst)
  also have "\<dots> = apps_total m"
    using d by (auto simp: apps_total_def intro!: arg_cong [of _ _ sum_list] map_cong)
  finally show ?thesis by simp
qed

lemma unat_less_word: "unat (w :: u64) < 2 ^ 64"
  using unsigned_less [of w] by simp

lemma plus_word_fits:
  fixes a b c :: u64
  assumes "unat a + unat b \<le> unat c"
  shows "a + b \<le> c" "unat (a + b) = unat a + unat b"
proof -
  have "unat a + unat b < 2 ^ 64" using assms unat_less_word [of c] by simp
  then show "unat (a + b) = unat a + unat b" by (simp add: unat_word_ariths)
  with assms show "a + b \<le> c" by (simp add: word_le_nat_alt)
qed

text \<open>Acquiring: the three outcomes of \<open>Acquire\<close> on a named view.\<close>

lemma view_key_named [simp]: "v \<noteq> 0 \<Longrightarrow> view_key sysv v = v"
  by (simp add: view_key_def)

lemma Acquire_fits:
  assumes "resource_ok r" "v \<noteq> 0" "usage_of r v u = None" "load_of r v + unat a \<le> unat (total r)"
  shows "fst (Acquire sysv u a v r) = a"
    and "resource_ok (snd (Acquire sysv u a v r))"
    and "usage_of (snd (Acquire sysv u a v r)) = (usage_of r)(v := (usage_of r v)(u \<mapsto> a))"
proof -
  define s where "s = (case state_views r v of None \<Rightarrow> ResourceState_new | Some s \<Rightarrow> s)"
  have s: "state_ok (total r) s" "om_find (apps s) u = None" "unat (used s) + unat a \<le> unat (total r)"
    using assms
    by (cases "state_views r v"; simp add: s_def resource_ok_def usage_of_def load_of_def;
        simp add: ResourceState_new_def)+
  note fits = plus_word_fits [OF s(3)]
  have eq: "Acquire sysv u a v r = (a, r\<lparr>state_views := (state_views r)(v \<mapsto>
      s\<lparr>used := used s + a, apps := om_set u a (apps s)\<rparr>)\<rparr>)"
    using assms(2) fits(1)
    by (auto simp: Acquire_def GetStateView_def acquire_in_def s_def Let_def split: option.splits)
  have "state_ok (total r) (s\<lparr>used := used s + a, apps := om_set u a (apps s)\<rparr>)"
    using s fits by (simp add: state_ok_def apps_total_set)
  then show "resource_ok (snd (Acquire sysv u a v r))"
    using assms(1) by (simp add: eq resource_ok_def)
  show "fst (Acquire sysv u a v r) = a" by (simp add: eq)
  show "usage_of (snd (Acquire sysv u a v r)) = (usage_of r)(v := (usage_of r v)(u \<mapsto> a))"
    using s(1) by (auto simp: eq usage_of_def s_def state_ok_def ResourceState_new_def fun_eq_iff
        split: option.splits)
qed

lemma Release_named:
  assumes "resource_ok r" "v \<noteq> 0"
  shows "fst (Release sysv u v r) = (case usage_of r v u of None \<Rightarrow> 0 | Some a \<Rightarrow> a)"
    and "resource_ok (snd (Release sysv u v r))"
    and "usage_of (snd (Release sysv u v r)) = (usage_of r)(v := (usage_of r v)(u := None))"
proof -
  show "fst (Release sysv u v r) = (case usage_of r v u of None \<Rightarrow> 0 | Some a \<Rightarrow> a)"
    using assms(2) by (auto simp: Release_def GetStateView_def release_in_def usage_of_def
        split: option.splits)
  show "usage_of (snd (Release sysv u v r)) = (usage_of r)(v := (usage_of r v)(u := None))"
    using assms(2) by (auto simp: Release_def GetStateView_def release_in_def usage_of_def fun_eq_iff
        split: option.splits)
  have "state_ok (total r) (s\<lparr>used := used s - a, apps := om_erase u (apps s)\<rparr>)"
    if "state_ok (total r) s" "om_find (apps s) u = Some a" for s a
  proof -
    have tot: "unat (used s) = apps_total (om_erase u (apps s)) + unat a"
      using that apps_total_erase by (auto simp: state_ok_def)
    then have "unat (used s - a) = unat (used s) - unat a"
      by (simp add: unat_sub word_le_nat_alt)
    with tot that show ?thesis by (auto simp: state_ok_def word_le_nat_alt)
  qed
  then show "resource_ok (snd (Release sysv u v r))"
    using assms by (auto simp: Release_def GetStateView_def release_in_def resource_ok_def
        split: option.splits)
qed

section \<open>The interface the accounter relies on\<close>

locale ledger =
  fixes ok :: "'r \<Rightarrow> bool"
    and usage :: "'r \<Rightarrow> 'v \<Rightarrow> 'u \<Rightarrow> u64 option"
    and load :: "'r \<Rightarrow> 'v \<Rightarrow> nat"
    and cap :: "'r \<Rightarrow> nat"
    and acq :: "'u \<Rightarrow> u64 \<Rightarrow> 'v \<Rightarrow> 'r \<Rightarrow> 'r"
    and rel :: "'u \<Rightarrow> 'v \<Rightarrow> 'r \<Rightarrow> 'r"
    and named :: "'v \<Rightarrow> bool"
  assumes users_finite: "ok r \<Longrightarrow> finite (dom (usage r v))"
    and load_usage: "ok r \<Longrightarrow> load r v = (\<Sum>u\<in>dom (usage r v). unat (the (usage r v u)))"
    and load_cap: "ok r \<Longrightarrow> load r v \<le> cap r"
    and acq_ok: "ok r \<Longrightarrow> named v \<Longrightarrow> usage r v u = None \<Longrightarrow> load r v + unat a \<le> cap r \<Longrightarrow>
      ok (acq u a v r)"
    and acq_usage: "ok r \<Longrightarrow> named v \<Longrightarrow> usage r v u = None \<Longrightarrow> load r v + unat a \<le> cap r \<Longrightarrow>
      usage (acq u a v r) = (usage r)(v := (usage r v)(u \<mapsto> a))"
    and rel_ok: "ok r \<Longrightarrow> named v \<Longrightarrow> ok (rel u v r)"
    and rel_usage: "ok r \<Longrightarrow> named v \<Longrightarrow> usage (rel u v r) = (usage r)(v := (usage r v)(u := None))"
begin

lemma acq_load:
  assumes "ok r" "named v" "usage r v u = None" "load r v + unat a \<le> cap r"
  shows "load (acq u a v r) v = load r v + unat a"
proof -
  have "(\<Sum>w\<in>dom (usage r v). unat (the (((usage r v)(u \<mapsto> a)) w))) =
      (\<Sum>w\<in>dom (usage r v). unat (the (usage r v w)))"
    by (rule sum.cong) (use assms(3) in auto)
  then show ?thesis
    using assms users_finite [OF assms(1), of v]
    by (simp add: load_usage acq_ok acq_usage domIff)
qed

lemma load_other_view:
  assumes "ok r" "ok r'" "usage r' w = usage r w"
  shows "load r' w = load r w"
  using assms by (simp add: load_usage)

lemma rel_load:
  assumes "ok r" "named v" "usage r v u = Some a"
  shows "load (rel u v r) v + unat a = load r v"
proof -
  have "(\<Sum>w\<in>dom (usage r v) - {u}. unat (the (((usage r v)(u := None)) w))) =
      (\<Sum>w\<in>dom (usage r v) - {u}. unat (the (usage r v w)))"
    by (rule sum.cong) auto
  then show ?thesis
    using assms users_finite [OF assms(1), of v]
    by (simp add: load_usage rel_ok rel_usage domI sum.remove [of "dom (usage r v)" u])
qed

lemma rel_acq_usage:
  assumes "ok r" "named v" "usage r v u = None" "load r v + unat a \<le> cap r"
  shows "usage (rel u v (acq u a v r)) = usage r"
  using assms by (auto simp: acq_ok acq_usage rel_usage fun_eq_iff)

text \<open>A plan is a list of resources with the amount to take from each. Carrying it out on a
  store of resources, and releasing a list of resources.\<close>

lemma acq_plan:
  assumes "\<And>p. ok (h p)" "named v" "distinct (map fst ps)"
    "\<And>p a. (p, a) \<in> set ps \<Longrightarrow> usage (h p) v u = None \<and> load (h p) v + unat a \<le> cap (h p)"
  shows "ok (apply_plan (\<lambda>a. acq u a v) ps h q) \<and>
     usage (apply_plan (\<lambda>a. acq u a v) ps h q) =
       (case map_of ps q of
          None \<Rightarrow> usage (h q)
        | Some a \<Rightarrow> (usage (h q))(v := (usage (h q) v)(u \<mapsto> a)))"
  using assms
proof (induction ps arbitrary: h)
  case (Cons pa ps)
  obtain p a where pa: "pa = (p, a)" by fastforce
  let ?h = "hupd p (acq u a v) h"
  have fits: "usage (h p) v u = None" "load (h p) v + unat a \<le> cap (h p)"
    using Cons.prems(4) [of p a] pa by auto
  have "ok (?h q)" for q using Cons.prems(1,2) fits by (simp add: acq_ok)
  moreover have "usage (?h q) v u = None \<and> load (?h q) v + unat b \<le> cap (?h q)"
    if "(q, b) \<in> set ps" for q b
    using that Cons.prems(3,4) pa by (auto simp: rev_image_eqI)
  moreover have "distinct (map fst ps)" using Cons.prems(3) by simp
  ultimately have "ok (apply_plan (\<lambda>a. acq u a v) ps ?h q) \<and>
     usage (apply_plan (\<lambda>a. acq u a v) ps ?h q) =
       (case map_of ps q of
          None \<Rightarrow> usage (?h q)
        | Some a \<Rightarrow> (usage (?h q))(v := (usage (?h q) v)(u \<mapsto> a)))"
    using Cons.IH [of ?h] Cons.prems(2) by blast
  moreover have "map_of ps p = None" using Cons.prems(3) pa by (simp add: map_of_eq_None_iff)
  ultimately show ?case
    using fits Cons.prems(1,2) pa
    by (cases "q = p"; cases "map_of ps q") (simp_all add: acq_usage)
qed simp

lemma rel_all:
  assumes "\<And>p. ok (h p)" "named v"
  shows "ok (apply_all (rel u v) ps h q) \<and>
     usage (apply_all (rel u v) ps h q) =
       (if q \<in> set ps then (usage (h q))(v := (usage (h q) v)(u := None)) else usage (h q))"
  using assms
proof (induction ps arbitrary: h)
  case (Cons p ps)
  let ?h = "hupd p (rel u v) h"
  have "ok (?h q)" for q using Cons.prems by (simp add: rel_ok)
  then have "ok (apply_all (rel u v) ps ?h q) \<and> usage (apply_all (rel u v) ps ?h q) =
       (if q \<in> set ps then (usage (?h q))(v := (usage (?h q) v)(u := None)) else usage (?h q))"
    using Cons.IH [of ?h] Cons.prems(2) by blast
  then show ?case
    using Cons.prems by (cases "q = p"; cases "q \<in> set ps") (simp_all add: rel_usage)
qed simp

lemma rel_all_acq_plan:
  assumes "\<And>p. ok (h p)" "named v" "distinct (map fst ps)" "fst ` set ps \<subseteq> set qs"
    "\<And>p a. (p, a) \<in> set ps \<Longrightarrow> load (h p) v + unat a \<le> cap (h p)"
    "\<And>q. q \<in> set qs \<Longrightarrow> usage (h q) v u = None"
  shows "usage (apply_all (rel u v) qs
           (apply_plan (\<lambda>a. acq u a v) ps h) q) = usage (h q)"
proof -
  let ?h = "apply_plan (\<lambda>a. acq u a v) ps h"
  have fit: "usage (h p) v u = None \<and> load (h p) v + unat a \<le> cap (h p)" if "(p, a) \<in> set ps" for p a
    using assms(4,5,6) that by (metis fst_conv image_eqI subsetD)
  have acq: "ok (?h q) \<and> usage (?h q) =
       (case map_of ps q of None \<Rightarrow> usage (h q) | Some a \<Rightarrow> (usage (h q))(v := (usage (h q) v)(u \<mapsto> a)))" for q
    by (rule acq_plan [OF assms(1-3)]) (use fit in auto)
  have "q \<in> set qs" if "map_of ps q = Some a" for a
    using that assms(4) by (metis map_of_SomeD fst_conv image_eqI subsetD)
  moreover have "usage (apply_all (rel u v) qs ?h q) =
      (if q \<in> set qs then (usage (?h q))(v := (usage (?h q) v)(u := None)) else usage (?h q))"
    using rel_all [of ?h v u qs q] acq assms(2) by blast
  ultimately show ?thesis
    using acq [of q] assms(6) [of q] by (cases "map_of ps q") (auto simp: fun_upd_idem)
qed

end

interpretation led: ledger resource_ok usage_of load_of "\<lambda>r. unat (total r)"
    "\<lambda>u a v r. snd (Acquire sysv u a v r)" "\<lambda>u v r. snd (Release sysv u v r)" "\<lambda>v. v \<noteq> 0" for sysv
proof (unfold_locales, goal_cases)
  case (1 r v)
  then show ?case by (auto simp: usage_of_def finite_dom_map_of split: option.splits)
next
  case (2 r v)
  then show ?case
    by (auto simp: usage_of_def load_of_def resource_ok_def state_ok_def apps_total_dom
        split: option.splits)
next
  case (3 r v)
  then have "state_ok (total r) s" if "state_views r v = Some s" for s
    using that by (simp add: resource_ok_def)
  then show ?case
    by (cases "state_views r v") (simp_all add: load_of_def state_ok_def word_le_nat_alt)
qed (simp_all add: Acquire_fits Release_named)

section \<open>Properties\<close>

text \<open>C24: \<open>Release\<close> undoes \<open>Acquire\<close>. For a descriptor whose books balance, an application that
  holds nothing in a named view and an amount that fits, acquiring returns the amount and
  releasing returns it again; the usage of every application in every view and the amount
  used in every view are then what they were, and the books balance throughout.\<close>

theorem acquire_release_inverse:
  assumes "resource_ok r" "v \<noteq> 0" "usage_of r v u = None" "load_of r v + unat a \<le> unat (total r)"
    and acq: "Acquire sysv u a v r = (got, r1)" and rel: "Release sysv u v r1 = (freed, r2)"
  shows "got = a \<and> freed = a \<and> resource_ok r1 \<and> resource_ok r2 \<and>
    load_of r1 v = load_of r v + unat a \<and> usage_of r2 = usage_of r \<and> load_of r2 = load_of r"
proof -
  have r1: "got = a" "resource_ok r1" "usage_of r1 = (usage_of r)(v := (usage_of r v)(u \<mapsto> a))"
    using Acquire_fits [OF assms(1-4), of sysv] acq by simp_all
  have r2: "freed = a" "resource_ok r2" "usage_of r2 = usage_of r"
    using Release_named [OF r1(2) assms(2), of sysv u] rel r1(3) assms(3) by (auto simp: fun_eq_iff)
  have "load_of r2 w = load_of r w" for w
    using led.load_other_view [OF assms(1) r2(2)] r2(3) by simp
  moreover have "load_of r1 v = load_of r v + unat a"
    using led.acq_load [OF assms(1-4), of sysv] acq by simp
  ultimately show ?thesis using r1 r2 by auto
qed

lemma resource_ok_new [simp]: "resource_ok (Resource_new mx t i tot)"
  by (simp add: resource_ok_def Resource_new_def)

theorem acquire_release_inverse_witness:
  "\<exists>r1 r2. Acquire 0 7 30 5 (Resource_new 31 PROC_ELEMENT 0 100) = (30, r1) \<and>
     Release 0 7 5 r1 = (30, r2) \<and> load_of r1 5 = 30 \<and> load_of r2 5 = 0"
proof -
  let ?r = "Resource_new 31 PROC_ELEMENT 0 100"
  obtain got r1 where r1: "Acquire 0 7 30 5 ?r = (got, r1)" by fastforce
  obtain freed r2 where r2: "Release 0 7 5 r1 = (freed, r2)" by fastforce
  have "usage_of ?r 5 7 = None" "load_of ?r 5 = 0" "unat (total ?r) = 100"
    by (simp_all add: usage_of_def load_of_def Resource_new_def)
  then show ?thesis
    using acquire_release_inverse [OF resource_ok_new _ _ _ r1 r2] r1 r2 by auto
qed

text \<open>C34: what an application is told it can have. When the amount used in a view does not
  exceed the unreserved amount, an on-line resource reports to an application the unreserved
  amount minus what the others use; an off-line resource reports nothing.\<close>

theorem available_excludes_others:
  assumes "resource_ok r" "v \<noteq> 0" "load_of r v \<le> unat (Unreserved r)"
  shows "unat (Available sysv (Some u) v r) =
    (if offline r then 0
     else unat (Unreserved r) - (\<Sum>w\<in>dom (usage_of r v) - {u}. unat (the (usage_of r v w))))"
proof (cases "state_views r v")
  case None
  then show ?thesis
    using assms(2) by (simp add: Available_def GetStateView_def usage_of_def Let_def)
next
  case (Some s)
  have ok: "state_ok (total r) s" using Some assms(1) by (simp add: resource_ok_def)
  let ?own = "ApplicationUsage_map (Some u) (apps s)"
  let ?others = "\<Sum>w\<in>dom (usage_of r v) - {u}. unat (the (usage_of r v w))"
  have load: "unat (used s) = ?others + unat ?own"
  proof (cases "usage_of r v u")
    case None
    then have "dom (usage_of r v) - {u} = dom (usage_of r v)" by auto
    with None ok Some show ?thesis
      by (simp add: usage_of_def state_ok_def apps_total_dom ApplicationUsage_map_def)
  next
    case (Some a)
    then have "(\<Sum>w\<in>dom (usage_of r v). unat (the (usage_of r v w))) = unat a + ?others"
      using led.users_finite [OF assms(1)] by (subst sum.remove [of _ u]) auto
    with Some ok \<open>state_views r v = Some s\<close> show ?thesis
      by (simp add: usage_of_def state_ok_def apps_total_dom ApplicationUsage_map_def)
  qed
  have le: "unat (used s) \<le> unat (Unreserved r)" using assms(3) Some by (simp add: load_of_def)
  have "unat (Unreserved r - used s) = unat (Unreserved r) - unat (used s)"
    using le by (simp add: unat_sub word_le_nat_alt)
  then have "unat (Unreserved r - used s + ?own) = unat (Unreserved r) - ?others"
    using plus_word_fits(2) [of "Unreserved r - used s" ?own "Unreserved r"] load le by simp
  then show ?thesis
    using assms(2) Some by (simp add: Available_def GetStateView_def Let_def)
qed

theorem available_excludes_others_witness:
  "unat (Available 0 (Some 7) 5 (snd (Reserve 10 (snd (Acquire 0 8 30 5 (Resource_new 31 PROC_ELEMENT 0 100)))))) = 60"
proof -
  let ?r = "snd (Acquire 0 8 30 5 (Resource_new 31 PROC_ELEMENT 0 100))"
  let ?q = "snd (Reserve 10 ?r)"
  have "resource_ok ?q" "load_of ?q 5 = 30" "unat (Unreserved ?q) = 90" "\<not> offline ?q"
    "usage_of ?q 5 = [8 \<mapsto> 30]"
    by (simp_all add: Acquire_def GetStateView_def acquire_in_def Resource_new_def Reserve_def
        ResourceState_new_def Let_def resource_ok_def state_ok_def om_ok_def apps_total_def
        load_of_def Unreserved_def usage_of_def fun_eq_iff)
  then show ?thesis using available_excludes_others [of ?q 5 0 7] by simp
qed

text \<open>\<open>UsedBy\<close> never finds an application beyond the first: its counter is not advanced, so
  for every index above 0 it reports that no application uses the resource.\<close>

theorem used_by_only_first:
  assumes "0 < n"
  shows "UsedBy sysv n v r = (RS_NO_APPS, 0, 0)"
proof -
  have "UsedBy_loop n 0 m = (RS_NO_APPS, 0, 0)" for m
    using assms by (induction n "0 :: nat" m rule: UsedBy_loop.induct) simp_all
  then show ?thesis by (auto simp: UsedBy_def split: prod.splits)
qed

theorem used_by_only_first_witness: "UsedBy 0 1 0 (Resource_new 31 CPU 0 100) = (RS_NO_APPS, 0, 0)"
  using used_by_only_first [of 1] by simp

end
