(* ===== verification/Resource_Tree.thy ===== *)
theory Resource_Tree
  imports Resource_Desc
begin

unbundle bit_operations_syntax

text \<open>
  \<open>ResourceTree\<close> (\<^verbatim>\<open>include/bbque/res/resource_tree.h\<close>,
  \<^verbatim>\<open>bbque/res/resource_tree.cc\<close>). Descriptors are shared between the tree, the accounter
  and the assignments, so they live in a store and a node holds an address. The search keeps one
  iterator over the path for the whole traversal, advanced and stepped back by the recursive
  calls: it is a position here, and a dereference outside of the path raises a flag.

  Results: the position never leaves the path; exact search after an insertion finds the inserted
  descriptor; a search by type returns what a depth-first reference search returns, provided no
  node that matches above the last level is a leaf; and without that proviso it can return
  descriptors that do not match.
\<close>

section \<open>The store of descriptors\<close>

type_synonym rptr = nat

record RHeap =
  robj :: "rptr \<Rightarrow> Resource"
  rnext :: rptr

definition make_shared :: "Resource \<Rightarrow> RHeap \<Rightarrow> rptr \<times> RHeap" where
  "make_shared r H = (rnext H, H\<lparr>robj := (robj H)(rnext H := r), rnext := rnext H + 1\<rparr>)"

section \<open>Operations\<close>

definition RT_MATCH_FIRST :: u16 where
  "RT_MATCH_FIRST = 1"

definition RT_MATCH_TYPE :: u16 where
  "RT_MATCH_TYPE = 2"

definition RT_MATCH_MIXED :: u16 where
  "RT_MATCH_MIXED = 4"

datatype ResourceNode =
  ResourceNode (nd_data: rptr) (nd_depth: nat) (nd_children: "ResourceNode list")

record ResourceTree =
  root :: ResourceNode
  max_depth :: nat
  rt_count :: u16

abbreviation node_ident :: "RHeap \<Rightarrow> ResourceNode \<Rightarrow> ResourceIdentifier" where
  "node_ident H c \<equiv> rs_ident (robj H (nd_data c))"

definition ResourceTree_new :: "int \<Rightarrow> RHeap \<Rightarrow> ResourceTree \<times> RHeap" where
  "ResourceTree_new mx H =
     (let (p, H') = make_shared (Resource_new_path mx ''bbque'' 1) H
      in (\<lparr>root = ResourceNode p 0 [], max_depth = 0, rt_count = 0\<rparr>, H'))"

definition add_node :: "ResourceNode \<Rightarrow> Resource \<Rightarrow> RHeap \<Rightarrow> ResourceNode \<times> RHeap" where
  "add_node curr_node r H =
     (let path_prefix = ri_name (node_ident H curr_node);
          (p, H') = make_shared (SetPath (path_prefix @ ''.'' @ ri_name (rs_ident r)) r) H
      in (ResourceNode p (nd_depth curr_node + 1) [], H'))"

definition find_child :: "RHeap \<Rightarrow> ResourceIdentifier \<Rightarrow> ResourceNode list \<Rightarrow> nat option" where
  "find_child H curr_rid cs =
     List.find (\<lambda>k. ResourceIdentifier_Compare (node_ident H (cs ! k)) curr_rid = EQUAL) [0..<length cs]"

fun insert_at :: "int \<Rightarrow> ResourceIdentifier list \<Rightarrow> ResourceNode \<Rightarrow> RHeap \<Rightarrow> nat \<Rightarrow>
    ResourceNode \<times> rptr \<times> RHeap \<times> nat" where
  "insert_at mx [] curr_node H md = (curr_node, nd_data curr_node, H, md)"
| "insert_at mx (curr_rid # path) curr_node H md =
     (let cs = nd_children curr_node;
          r = Resource_new mx (ri_type curr_rid) (ri_id curr_rid) 1
      in if cs = [] then
           let (child, H1) = add_node curr_node r H;
               md1 = (if nd_depth child > md then nd_depth child else md);
               (child', p, H2, md2) = insert_at mx path child H1 md1
           in (ResourceNode (nd_data curr_node) (nd_depth curr_node) [child'], p, H2, md2)
         else case find_child H curr_rid cs of
           Some k \<Rightarrow>
             let (child', p, H2, md2) = insert_at mx path (cs ! k) H md
             in (ResourceNode (nd_data curr_node) (nd_depth curr_node) (cs[k := child']), p, H2, md2)
         | None \<Rightarrow>
             let (child, H1) = add_node curr_node r H;
                 (child', p, H2, md2) = insert_at mx path child H1 md
             in (ResourceNode (nd_data curr_node) (nd_depth curr_node) (cs @ [child']), p, H2, md2))"

definition tree_insert :: "int \<Rightarrow> ResourcePath \<Rightarrow> ResourceTree \<Rightarrow> RHeap \<Rightarrow> rptr \<times> ResourceTree \<times> RHeap" where
  "tree_insert mx rsrc_path t H =
     (let (n, p, H', md) = insert_at mx (identifiers rsrc_path) (root t) H (max_depth t)
      in (p, t\<lparr>root := n, max_depth := md, rt_count := rt_count t + 1\<rparr>, H'))"

text \<open>The conditions under which a child is skipped.\<close>

definition skip_child :: "u16 \<Rightarrow> CResult \<Rightarrow> ResourceIdentifier \<Rightarrow> bool" where
  "skip_child match_flags rresult path_node \<longleftrightarrow>
     (if rresult = EQUAL_TYPE then
        (if match_flags AND RT_MATCH_MIXED \<noteq> 0 then ri_id path_node \<ge> 0
         else match_flags AND RT_MATCH_TYPE = 0)
      else rresult = NOT_EQUAL)"

text \<open>The state of the search: position in the path, matchings, and whether a position outside
  of the path was dereferenced.\<close>

type_synonym find_state = "int \<times> rptr list \<times> bool"

fun find_node :: "u16 \<Rightarrow> RHeap \<Rightarrow> ResourceIdentifier list \<Rightarrow> ResourceNode \<Rightarrow> find_state \<Rightarrow> bool \<times> find_state"
  and find_children :: "u16 \<Rightarrow> RHeap \<Rightarrow> ResourceIdentifier list \<Rightarrow> ResourceNode list \<Rightarrow> find_state \<Rightarrow>
    bool \<times> find_state" where
  "find_node fl H ps (ResourceNode d dep cs) (path_it, ms, ub) =
     (if cs = [] \<or> path_it = int (length ps) then (False, (path_it, ms, ub))
      else find_children fl H ps cs (path_it, ms, ub))"
| "find_children fl H ps [] (path_it, ms, ub) = (ms \<noteq> [], (path_it - 1, ms, ub))"
| "find_children fl H ps (c # cs) (path_it, ms, ub) =
     (if \<not> (0 \<le> path_it \<and> path_it < int (length ps)) then (False, (path_it, ms, True))
      else
        let path_node = ps ! nat path_it;
            rresult = ResourceIdentifier_Compare (node_ident H c) path_node
        in if skip_child fl rresult path_node then find_children fl H ps cs (path_it, ms, ub)
           else
             let (it1, ms1, ub1) = snd (find_node fl H ps c (path_it + 1, ms, ub));
                 (it2, ms2) = (if it1 = int (length ps) then (it1 - 1, ms1 @ [nd_data c]) else (it1, ms1))
             in if fl AND RT_MATCH_FIRST \<noteq> 0 then (True, (it2, ms2, ub1))
                else find_children fl H ps cs (it2, ms2, ub1))"

definition find_run :: "u16 \<Rightarrow> RHeap \<Rightarrow> ResourcePath \<Rightarrow> ResourceTree \<Rightarrow> bool \<times> find_state" where
  "find_run match_flags H rsrc_path t =
     (let fl = (if match_flags AND RT_MATCH_TYPE AND RT_MATCH_MIXED \<noteq> 0 then RT_MATCH_MIXED
                else match_flags)
      in find_node fl H (identifiers rsrc_path) (root t) (0, [], False))"

definition find_list :: "u16 \<Rightarrow> RHeap \<Rightarrow> ResourcePath \<Rightarrow> ResourceTree \<Rightarrow> rptr list" where
  "find_list match_flags H rsrc_path t = fst (snd (snd (find_run match_flags H rsrc_path t)))"

fun clear_node :: "ResourceNode \<Rightarrow> ResourceNode" where
  "clear_node (ResourceNode d dep cs) =
     ResourceNode d dep (map (\<lambda>c. ResourceNode (nd_data c) (nd_depth c) []) cs)"

definition tree_clear :: "ResourceTree \<Rightarrow> ResourceTree" where
  "tree_clear t = t\<lparr>root := clear_node (root t)\<rparr>"

section \<open>The position stays inside the path\<close>

lemma find_position:
  "find_node fl H ps n (i, ms, ub) = (b, (i', ms', ub')) \<Longrightarrow> 0 \<le> i \<Longrightarrow> i \<le> int (length ps) \<Longrightarrow>
     ub' = ub \<and> (i' = i \<or> i - 1 \<le> i' \<and> i' < int (length ps))"
  "find_children fl H ps cs (i, ms, ub) = (b, (i', ms', ub')) \<Longrightarrow> 0 \<le> i \<Longrightarrow> i < int (length ps) \<Longrightarrow>
     ub' = ub \<and> i - 1 \<le> i' \<and> i' < int (length ps)"
proof (induction fl H ps n "(i, ms, ub)" and fl H ps cs "(i, ms, ub)"
    arbitrary: i ms ub b i' ms' ub' and i ms ub b i' ms' ub' rule: find_node_find_children.induct)
  case (1 fl H ps d dep cs i ms ub)
  then show ?case by (auto split: if_splits)
next
  case (2 fl H ps i ms ub)
  then show ?case by auto
next
  case (3 fl H ps c cs i ms ub)
  let ?pn = "ps ! nat i"
  let ?rr = "ResourceIdentifier_Compare (node_ident H c) ?pn"
  have in_range: "\<not> \<not> (0 \<le> i \<and> i < int (length ps))" using "3.prems" by simp
  show ?case
  proof (cases "skip_child fl ?rr ?pn")
    case True
    then show ?thesis using "3.hyps"(1) [OF in_range refl refl True] "3.prems" in_range by simp
  next
    case False
    obtain bb i1 ms1 ub1 where down: "find_node fl H ps c (i + 1, ms, ub) = (bb, (i1, ms1, ub1))"
      by (metis prod_cases4)
    have i1: "ub1 = ub" "i1 = i + 1 \<or> i \<le> i1 \<and> i1 < int (length ps)"
      using "3.hyps"(2) [OF in_range refl refl False down] in_range by auto
    define i2 where "i2 = (if i1 = int (length ps) then i1 - 1 else i1)"
    define ms2 where "ms2 = (if i1 = int (length ps) then ms1 @ [nd_data c] else ms1)"
    have i2: "i \<le> i2" "i2 < int (length ps)" using i1(2) in_range by (auto simp: i2_def)
    show ?thesis
    proof (cases "fl AND RT_MATCH_FIRST = 0")
      case True
      then have rest: "find_children fl H ps cs (i2, ms2, ub1) = (b, (i', ms', ub'))"
        using "3.prems"(1) in_range False down by (simp add: i2_def ms2_def split: if_splits)
      have "ub' = ub1 \<and> i2 - 1 \<le> i' \<and> i' < int (length ps)"
        by (rule "3.hyps"(3) [of ?pn ?rr "(i1, ms1, ub1)" i1 "(ms1, ub1)" ms1 ub1 "(i2, ms2)" i2 ms2])
          (use in_range \<open>\<not> skip_child fl ?rr ?pn\<close> down True i2 rest in \<open>auto simp: i2_def ms2_def\<close>)
      then show ?thesis using i1(1) i2(1) by auto
    next
      case False
      then show ?thesis
        using "3.prems"(1) in_range \<open>\<not> skip_child fl ?rr ?pn\<close> down i1(1) i2
        by (simp add: i2_def split: if_splits)
    qed
  qed
qed

section \<open>Searching for all matchings\<close>

definition child_matches :: "u16 \<Rightarrow> RHeap \<Rightarrow> ResourceIdentifier \<Rightarrow> ResourceNode \<Rightarrow> bool" where
  "child_matches fl H p c \<longleftrightarrow> \<not> skip_child fl (ResourceIdentifier_Compare (node_ident H c) p) p"

text \<open>The reference search: all descriptors at the end of a chain of matching nodes, depth first.\<close>

fun find_ref :: "u16 \<Rightarrow> RHeap \<Rightarrow> ResourceIdentifier list \<Rightarrow> ResourceNode \<Rightarrow> rptr list" where
  "find_ref fl H [] n = []"
| "find_ref fl H (p # ps) n =
     concat (map (\<lambda>c. if child_matches fl H p c
                       then (if ps = [] then [nd_data c] else find_ref fl H ps c) else [])
               (nd_children n))"

text \<open>No node that matches before the end of the path is a leaf.\<close>

fun no_short_match :: "u16 \<Rightarrow> RHeap \<Rightarrow> ResourceIdentifier list \<Rightarrow> ResourceNode \<Rightarrow> bool" where
  "no_short_match fl H [] n = True"
| "no_short_match fl H (p # ps) n =
     (\<forall>c\<in>set (nd_children n). child_matches fl H p c \<longrightarrow> ps \<noteq> [] \<longrightarrow>
        nd_children c \<noteq> [] \<and> no_short_match fl H ps c)"

lemma find_children_skip:
  assumes "0 \<le> i" "i < int (length ps)" "\<not> child_matches fl H (ps ! nat i) c"
  shows "find_children fl H ps (c # cs) (i, ms, ub) = find_children fl H ps cs (i, ms, ub)"
  using assms by (simp add: child_matches_def)

lemma find_children_down:
  assumes "0 \<le> i" "i < int (length ps)" "child_matches fl H (ps ! nat i) c"
    and "snd (find_node fl H ps c (i + 1, ms, ub)) = (i1, ms1, ub1)"
  shows "find_children fl H ps (c # cs) (i, ms, ub) =
    (let it = (if i1 = int (length ps) then i1 - 1 else i1);
         ms2 = (if i1 = int (length ps) then ms1 @ [nd_data c] else ms1)
     in if fl AND RT_MATCH_FIRST \<noteq> 0 then (True, (it, ms2, ub1))
        else find_children fl H ps cs (it, ms2, ub1))"
  using assms by (simp add: child_matches_def)

declare find_children.simps(2) [simp del]

lemma find_node_at_end:
  "snd (find_node fl H ps c (int (length ps), ms, ub)) = (int (length ps), ms, ub)"
  by (cases c) simp

lemma find_children_ref:
  assumes "fl AND RT_MATCH_FIRST = 0"
    and down: "\<And>c ms. c \<in> set cs \<Longrightarrow> child_matches fl H p c \<Longrightarrow> ps \<noteq> [] \<Longrightarrow>
      snd (find_node fl H (pre @ p # ps) c (int (length pre) + 1, ms, ub)) =
        (int (length pre), ms @ find_ref fl H ps c, ub)"
  shows "snd (find_children fl H (pre @ p # ps) cs (int (length pre), ms, ub)) =
    (int (length pre) - 1,
     ms @ concat (map (\<lambda>c. if child_matches fl H p c
                           then (if ps = [] then [nd_data c] else find_ref fl H ps c) else []) cs), ub)"
  using down
proof (induction cs arbitrary: ms)
  case (Cons c cs)
  let ?PS = "pre @ p # ps" and ?i = "int (length pre)"
  have at: "?PS ! nat ?i = p" "?i < int (length ?PS)" by simp_all
  show ?case
  proof (cases "child_matches fl H p c")
    case False
    then have "find_children fl H ?PS (c # cs) (?i, ms, ub) = find_children fl H ?PS cs (?i, ms, ub)"
      using find_children_skip [of ?i ?PS fl H c cs ms ub] at by simp
    with False Cons show ?thesis by simp
  next
    case True
    define out where "out = (if ps = [] then [nd_data c] else find_ref fl H ps c)"
    have "find_children fl H ?PS (c # cs) (?i, ms, ub) = find_children fl H ?PS cs (?i, ms @ out, ub)"
    proof (cases "ps = []")
      case True
      then have "snd (find_node fl H ?PS c (?i + 1, ms, ub)) = (?i + 1, ms, ub)"
        using find_node_at_end [of fl H ?PS c ms ub] by (simp add: algebra_simps)
      then show ?thesis
        using find_children_down [of ?i ?PS fl H c ms ub] at \<open>child_matches fl H p c\<close> True assms(1)
        by (simp add: out_def)
    next
      case False
      then have "snd (find_node fl H ?PS c (?i + 1, ms, ub)) = (?i, ms @ out, ub)"
        using Cons.prems True by (simp add: out_def)
      then show ?thesis
        using find_children_down [of ?i ?PS fl H c ms ub] at True assms(1) by simp
    qed
    with True Cons show ?thesis by (simp add: out_def)
  qed
qed simp

lemma find_node_ref:
  assumes "fl AND RT_MATCH_FIRST = 0" "nd_children n \<noteq> []" "no_short_match fl H ps n" "ps \<noteq> []"
  shows "snd (find_node fl H (pre @ ps) n (int (length pre), ms, ub)) =
    (int (length pre) - 1, ms @ find_ref fl H ps n, ub)"
  using assms(2-)
proof (induction ps arbitrary: pre n ms)
  case (Cons p ps)
  obtain d dep cs where n: "n = ResourceNode d dep cs" by (cases n)
  have down: "snd (find_node fl H (pre @ p # ps) c (int (length pre) + 1, ms, ub)) =
        (int (length pre), ms @ find_ref fl H ps c, ub)"
    if "c \<in> set cs" "child_matches fl H p c" "ps \<noteq> []" for c ms
    using Cons.IH [of c "pre @ [p]" ms] Cons.prems(2) that n by (simp add: algebra_simps)
  show ?case
    using find_children_ref [OF assms(1) down] Cons.prems(1) n by simp
qed simp

lemma find_run_flags [simp]:
  "find_run fl H p t = find_node fl H (identifiers p) (root t) (0, [], False)"
proof -
  have "RT_MATCH_TYPE AND RT_MATCH_MIXED = 0" by (simp add: RT_MATCH_TYPE_def RT_MATCH_MIXED_def)
  then show ?thesis by (simp add: find_run_def)
qed

lemma find_ref_leaf: "nd_children n = [] \<Longrightarrow> find_ref fl H ps n = []"
  by (cases ps) simp_all

section \<open>Exact search\<close>

definition ident_key :: "ResourceIdentifier \<Rightarrow> ResourceType \<times> rid" where
  "ident_key ri = (ri_type ri, ri_id ri)"

text \<open>A well-formed tree: addresses are allocated, siblings have distinct identifiers, and every
  resource below the root has a type.\<close>

fun node_wf :: "RHeap \<Rightarrow> ResourceNode \<Rightarrow> bool" where
  "node_wf H (ResourceNode d dep cs) \<longleftrightarrow>
     d < rnext H \<and> distinct (map (\<lambda>c. ident_key (node_ident H c)) cs) \<and>
     (\<forall>c\<in>set cs. ri_type (node_ident H c) \<noteq> UNDEFINED \<and> node_wf H c)"

lemma exact_matches:
  assumes "ri_type p \<noteq> UNDEFINED" "ri_type (node_ident H c) \<noteq> UNDEFINED"
  shows "child_matches RT_MATCH_FIRST H p c \<longleftrightarrow> ident_key (node_ident H c) = ident_key p"
  using assms by (auto simp: child_matches_def skip_child_def ResourceIdentifier_Compare_def
      ident_key_def RT_MATCH_FIRST_def RT_MATCH_TYPE_def RT_MATCH_MIXED_def)

lemma first_flag [simp]: "RT_MATCH_FIRST \<noteq> 0"
  by (simp add: RT_MATCH_FIRST_def)

abbreviation matchings_of :: "bool \<times> find_state \<Rightarrow> rptr list" where
  "matchings_of res \<equiv> fst (snd (snd res))"

lemma find_children_exact:
  assumes p: "ri_type p \<noteq> UNDEFINED"
    and cs: "distinct (map (\<lambda>c. ident_key (node_ident H c)) cs)"
      "\<forall>c\<in>set cs. ri_type (node_ident H c) \<noteq> UNDEFINED"
    and down: "\<And>c ms. c \<in> set cs \<Longrightarrow> ps \<noteq> [] \<Longrightarrow>
      matchings_of (find_node RT_MATCH_FIRST H (pre @ p # ps) c (int (length pre) + 1, ms, ub)) =
        ms @ find_ref RT_MATCH_FIRST H ps c"
  shows "matchings_of (find_children RT_MATCH_FIRST H (pre @ p # ps) cs (int (length pre), ms, ub)) =
     ms @ concat (map (\<lambda>c. if child_matches RT_MATCH_FIRST H p c
       then (if ps = [] then [nd_data c] else find_ref RT_MATCH_FIRST H ps c) else []) cs)"
  using cs down
proof (induction cs arbitrary: ms)
  case (Cons c cs)
  let ?PS = "pre @ p # ps" and ?i = "int (length pre)"
  let ?out = "\<lambda>c. if child_matches RT_MATCH_FIRST H p c
       then (if ps = [] then [nd_data c] else find_ref RT_MATCH_FIRST H ps c) else []"
  have at: "?PS ! nat ?i = p" "?i < int (length ?PS)" by simp_all
  show ?case
  proof (cases "child_matches RT_MATCH_FIRST H p c")
    case False
    then have "find_children RT_MATCH_FIRST H ?PS (c # cs) (?i, ms, ub) =
        find_children RT_MATCH_FIRST H ?PS cs (?i, ms, ub)"
      using find_children_skip [of ?i ?PS RT_MATCH_FIRST H c cs ms ub] at by simp
    with False Cons show ?thesis by simp
  next
    case True
    have "\<not> child_matches RT_MATCH_FIRST H p c'" if "c' \<in> set cs" for c'
      using Cons.prems(1,2) True that exact_matches [OF p] by (metis (no_types, lifting)
          distinct.simps(2) image_eqI list.set_intros list.simps(9) set_map)
    then have rest: "concat (map ?out (c # cs)) = ?out c" by simp
    obtain b i1 ms1 ub1 where dn: "find_node RT_MATCH_FIRST H ?PS c (?i + 1, ms, ub) = (b, (i1, ms1, ub1))"
      by (metis prod_cases4)
    have "i1 = int (length ?PS) \<longleftrightarrow> ps = []"
    proof (cases "ps = []")
      case True
      then show ?thesis
        using dn find_node_at_end [of RT_MATCH_FIRST H ?PS c ms ub] by (simp add: algebra_simps)
    qed (use find_position(1) [OF dn] in auto)
    moreover have "ps = [] \<Longrightarrow> ms1 = ms"
      using dn find_node_at_end [of RT_MATCH_FIRST H ?PS c ms ub] by (simp add: algebra_simps)
    moreover have "ps \<noteq> [] \<Longrightarrow> ms1 = ms @ find_ref RT_MATCH_FIRST H ps c"
      using Cons.prems(3) [of c ms] dn by simp
    ultimately have "matchings_of (find_children RT_MATCH_FIRST H ?PS (c # cs) (?i, ms, ub)) = ms @ ?out c"
      using find_children_down [of ?i ?PS RT_MATCH_FIRST H c ms ub i1 ms1 ub1 cs] at True dn by simp
    with rest show ?thesis by (simp only:)
  qed
qed simp

lemma find_node_exact:
  assumes "node_wf H n" "\<forall>p\<in>set ps. ri_type p \<noteq> UNDEFINED" "ps \<noteq> []"
  shows "matchings_of (find_node RT_MATCH_FIRST H (pre @ ps) n (int (length pre), ms, ub)) =
    ms @ find_ref RT_MATCH_FIRST H ps n"
  using assms
proof (induction ps arbitrary: pre n ms)
  case (Cons p ps)
  obtain d dep cs where n: "n = ResourceNode d dep cs" by (cases n)
  have down: "matchings_of (find_node RT_MATCH_FIRST H (pre @ p # ps) c (int (length pre) + 1, ms, ub)) =
        ms @ find_ref RT_MATCH_FIRST H ps c" if "c \<in> set cs" "ps \<noteq> []" for c ms
    using Cons.IH [of c "pre @ [p]" ms] Cons.prems(1,2) that n by (simp add: algebra_simps)
  show ?case
    using find_children_exact [where p = p and cs = cs, OF _ _ _ down] Cons.prems(1,2) n by simp
qed simp

text \<open>In a well-formed tree at most one child matches exactly.\<close>

lemma find_ref_exact_child:
  assumes wf: "node_wf H n" and p: "ri_type p \<noteq> UNDEFINED" and c: "c \<in> set (nd_children n)"
    and key: "ident_key (node_ident H c) = ident_key p"
  shows "find_ref RT_MATCH_FIRST H (p # ps) n =
    (if ps = [] then [nd_data c] else find_ref RT_MATCH_FIRST H ps c)"
proof -
  let ?out = "\<lambda>c. if child_matches RT_MATCH_FIRST H p c
       then (if ps = [] then [nd_data c] else find_ref RT_MATCH_FIRST H ps c) else []"
  obtain d dep cs where n: "n = ResourceNode d dep cs" by (cases n)
  obtain xs ys where cs: "cs = xs @ c # ys" using c n by (metis ResourceNode.sel(3) split_list)
  have "\<not> child_matches RT_MATCH_FIRST H p c'" if "c' \<in> set xs \<union> set ys" for c'
    using wf n cs that key exact_matches [OF p, of H c'] by (fastforce simp: image_iff)
  then have none: "concat (map ?out xs) = []" "concat (map ?out ys) = []" by simp_all
  have "find_ref RT_MATCH_FIRST H (p # ps) n =
      concat (map ?out xs) @ ?out c @ concat (map ?out ys)"
    using n cs by simp
  moreover have "child_matches RT_MATCH_FIRST H p c"
    using exact_matches [OF p] key wf n cs by simp
  ultimately show ?thesis unfolding none by simp
qed

lemma find_ref_exact_none:
  assumes wf: "node_wf H n" and p: "ri_type p \<noteq> UNDEFINED"
    and none: "\<forall>c\<in>set (nd_children n). ident_key (node_ident H c) \<noteq> ident_key p"
  shows "find_ref RT_MATCH_FIRST H (p # ps) n = []"
proof -
  obtain d dep cs where n: "n = ResourceNode d dep cs" by (cases n)
  have "\<not> child_matches RT_MATCH_FIRST H p c" if "c \<in> set cs" for c
    using exact_matches [OF p, of H c] wf n none that by simp
  then show ?thesis using n by simp
qed

section \<open>Insertion\<close>

declare find_ref.simps(2) [simp del]

definition heap_ext :: "RHeap \<Rightarrow> RHeap \<Rightarrow> bool" where
  "heap_ext H H' \<longleftrightarrow> rnext H \<le> rnext H' \<and> (\<forall>a<rnext H. robj H' a = robj H a)"

lemma heap_ext_refl [simp]: "heap_ext H H"
  by (simp add: heap_ext_def)

lemma heap_ext_trans: "heap_ext H H' \<Longrightarrow> heap_ext H' H'' \<Longrightarrow> heap_ext H H''"
  by (auto simp: heap_ext_def)

lemma node_wf_data: "node_wf H n \<Longrightarrow> nd_data n < rnext H"
  by (cases n) simp

lemma node_ident_ext: "heap_ext H H' \<Longrightarrow> node_wf H n \<Longrightarrow> node_ident H' n = node_ident H n"
  using node_wf_data [of H n] by (simp add: heap_ext_def)

lemma node_wf_ext: "heap_ext H H' \<Longrightarrow> node_wf H n \<Longrightarrow> node_wf H' n"
proof (induction n)
  case (ResourceNode d dep cs)
  have same: "node_ident H' c = node_ident H c" if "c \<in> set cs" for c
    using ResourceNode.prems that node_ident_ext by simp
  then have keys: "map (\<lambda>c. ident_key (node_ident H' c)) cs = map (\<lambda>c. ident_key (node_ident H c)) cs"
    by simp
  have "distinct (map (\<lambda>c. ident_key (node_ident H' c)) cs)"
    unfolding keys using ResourceNode.prems(2) by simp
  moreover have "d < rnext H'" using ResourceNode.prems by (simp add: heap_ext_def)
  ultimately show ?case using ResourceNode same by simp
qed

definition match_out :: "u16 \<Rightarrow> RHeap \<Rightarrow> ResourceIdentifier \<Rightarrow> ResourceIdentifier list \<Rightarrow> ResourceNode \<Rightarrow> rptr list" where
  "match_out fl H p ps c =
     (if child_matches fl H p c then (if ps = [] then [nd_data c] else find_ref fl H ps c) else [])"

lemma find_ref_Cons: "find_ref fl H (p # ps) n = concat (map (match_out fl H p ps) (nd_children n))"
  by (simp add: match_out_def [abs_def] find_ref.simps)

lemma find_ref_ext: "heap_ext H H' \<Longrightarrow> node_wf H n \<Longrightarrow> find_ref fl H' ps n = find_ref fl H ps n"
proof (induction ps arbitrary: n)
  case (Cons p ps)
  obtain d dep cs where n: "n = ResourceNode d dep cs" by (cases n)
  have "match_out fl H' p ps c = match_out fl H p ps c" if "c \<in> set cs" for c
    using Cons that n node_ident_ext [OF Cons.prems(1), of c] by (simp add: match_out_def child_matches_def)
  then show ?case unfolding find_ref_Cons n by (simp cong: map_cong)
qed simp

lemma match_out_ext:
  "heap_ext H H' \<Longrightarrow> node_wf H c \<Longrightarrow> match_out fl H' p ps c = match_out fl H p ps c"
  using node_ident_ext find_ref_ext by (simp add: match_out_def child_matches_def)

text \<open>One step of an insertion: a child with the wanted identifier, new or old, stands between
  the others, and the insertion has gone on below it.\<close>

definition begins :: "'a list \<Rightarrow> 'a list \<Rightarrow> bool" where
  "begins xs ys \<longleftrightarrow> take (length xs) ys = xs"

lemma begins_simps [simp]: "begins [] ys" "begins (x # xs) (y # ys) \<longleftrightarrow> x = y \<and> begins xs ys"
  by (auto simp: begins_def)

definition insert_result :: "RHeap \<Rightarrow> ResourceIdentifier list \<Rightarrow> ResourceNode \<Rightarrow> ResourceNode \<Rightarrow>
    rptr \<Rightarrow> RHeap \<Rightarrow> bool" where
  "insert_result H path n n' p H' \<longleftrightarrow>
     heap_ext H H' \<and> node_wf H' n' \<and> nd_data n' = nd_data n \<and>
     (if path = [] then p = nd_data n' else find_ref RT_MATCH_FIRST H' path n' = [p]) \<and>
     (\<forall>qs. (\<forall>q\<in>set qs. ri_type q \<noteq> UNDEFINED) \<longrightarrow>
        find_ref RT_MATCH_FIRST H qs n \<noteq> [] \<or> \<not> begins (map ident_key qs) (map ident_key path) \<longrightarrow>
        find_ref RT_MATCH_FIRST H' qs n' = find_ref RT_MATCH_FIRST H qs n)"

lemma find_ref_between:
  assumes wf: "node_wf H2 (ResourceNode d dep (xs @ c' # ys))" and q: "ri_type q \<noteq> UNDEFINED"
    and others: "\<forall>c\<in>set (xs @ ys). node_wf H c" and ext: "heap_ext H H2"
  shows "find_ref RT_MATCH_FIRST H2 (q # qs) (ResourceNode d dep (xs @ c' # ys)) =
    (if ident_key (node_ident H2 c') = ident_key q
     then (if qs = [] then [nd_data c'] else find_ref RT_MATCH_FIRST H2 qs c')
     else find_ref RT_MATCH_FIRST H (q # qs) (ResourceNode d dep (xs @ ys)))"
proof (cases "ident_key (node_ident H2 c') = ident_key q")
  case True
  then show ?thesis using find_ref_exact_child [OF wf q, of c' qs] by simp
next
  case False
  then have "match_out RT_MATCH_FIRST H2 q qs c' = []"
    using exact_matches [OF q, of H2 c'] wf by (simp add: match_out_def)
  moreover have "match_out RT_MATCH_FIRST H2 q qs c = match_out RT_MATCH_FIRST H q qs c"
    if "c \<in> set (xs @ ys)" for c
    using others that ext match_out_ext by blast
  ultimately show ?thesis using False unfolding find_ref_Cons by (simp cong: map_cong)
qed

lemma insert_between:
  assumes wf: "node_wf H (ResourceNode d dep (xs @ old @ ys))"
    and old: "old = [] \<and> nd_children c = [] \<or> old = [c] \<and> H1 = H"
    and ext: "heap_ext H H1" and ident: "ident_key (node_ident H1 c) = ident_key ri" "ri_type ri \<noteq> UNDEFINED"
    and others: "\<forall>c\<in>set (xs @ ys). ident_key (node_ident H c) \<noteq> ident_key ri"
    and below: "insert_result H1 path c c' p H2" and cwf: "node_wf H1 c"
  shows "insert_result H (ri # path) (ResourceNode d dep (xs @ old @ ys))
           (ResourceNode d dep (xs @ c' # ys)) p H2"
proof -
  have b: "heap_ext H1 H2" "node_wf H2 c'" "nd_data c' = nd_data c"
    using below by (auto simp: insert_result_def)
  have ext2: "heap_ext H H2" using ext b(1) by (rule heap_ext_trans)
  have owf: "\<forall>c\<in>set (xs @ ys). node_wf H c \<and> ri_type (node_ident H c) \<noteq> UNDEFINED"
    using wf by auto
  have same: "node_ident H2 c = node_ident H c" if "c \<in> set (xs @ ys)" for c
    using owf that ext2 node_ident_ext by blast
  have ci: "ident_key (node_ident H2 c') = ident_key ri"
    using node_ident_ext [OF b(1) cwf] ident b(3) by simp
  then have ct: "ri_type (node_ident H2 c') \<noteq> UNDEFINED" using ident(2) by (simp add: ident_key_def)
  have keys: "map (\<lambda>c. ident_key (node_ident H2 c)) (xs @ ys) = map (\<lambda>c. ident_key (node_ident H c)) (xs @ ys)"
    using same by (intro map_cong) auto
  have dist: "distinct (map (\<lambda>c. ident_key (node_ident H2 c)) (xs @ c' # ys))"
  proof -
    have "distinct (map (\<lambda>c. ident_key (node_ident H c)) (xs @ ys))" using wf by auto
    moreover have "ident_key (node_ident H2 c') \<notin> set (map (\<lambda>c. ident_key (node_ident H2 c)) (xs @ ys))"
      using others ci keys by auto
    ultimately show ?thesis unfolding keys [symmetric] by auto
  qed
  have wf2: "node_wf H2 (ResourceNode d dep (xs @ c' # ys))"
    using dist wf ext2 b(2) owf same ct node_wf_ext [OF ext2] by (auto simp: heap_ext_def)
  note between = find_ref_between [OF wf2 _ _ ext2]
  have new: "find_ref RT_MATCH_FIRST H2 (ri # path) (ResourceNode d dep (xs @ c' # ys)) = [p]"
    using between [of ri path] ci ident(2) owf below by (auto simp: insert_result_def)
  have frame: "find_ref RT_MATCH_FIRST H2 qs (ResourceNode d dep (xs @ c' # ys)) =
      find_ref RT_MATCH_FIRST H qs (ResourceNode d dep (xs @ old @ ys))"
    if qs: "\<forall>q\<in>set qs. ri_type q \<noteq> UNDEFINED"
      and found: "find_ref RT_MATCH_FIRST H qs (ResourceNode d dep (xs @ old @ ys)) \<noteq> [] \<or>
        \<not> begins (map ident_key qs) (map ident_key (ri # path))" for qs
  proof (cases qs)
    case (Cons q qs')
    have q: "ri_type q \<noteq> UNDEFINED" using qs Cons by simp
    consider "old = []" | "old = [c]" "H1 = H" using old by blast
    then show ?thesis
    proof cases
      case 1
      have gone: "find_ref RT_MATCH_FIRST H (q # qs') (ResourceNode d dep (xs @ old @ ys)) = []"
        if "ident_key q = ident_key ri"
        using find_ref_exact_none [OF wf q, of qs'] others that 1 by auto
      show ?thesis
      proof (cases "ident_key q = ident_key ri")
        case True
        then have np: "\<not> begins (map ident_key qs') (map ident_key path)" using found gone Cons by auto
        moreover have "find_ref RT_MATCH_FIRST H1 qs' c = []" using old 1 find_ref_leaf by auto
        ultimately have "find_ref RT_MATCH_FIRST H2 qs' c' = []"
          using below qs Cons by (auto simp: insert_result_def)
        moreover have "qs' \<noteq> []" using np by auto
        ultimately show ?thesis using between [OF q, of qs'] Cons ci True gone owf by auto
      next
        case False
        then show ?thesis using between [OF q, of qs'] 1 Cons ci owf by auto
      qed
    next
      case 2
      have old_search: "find_ref RT_MATCH_FIRST H (q # qs') (ResourceNode d dep (xs @ c # ys)) =
          (if ident_key ri = ident_key q then (if qs' = [] then [nd_data c] else find_ref RT_MATCH_FIRST H qs' c)
           else find_ref RT_MATCH_FIRST H (q # qs') (ResourceNode d dep (xs @ ys)))"
        using find_ref_between [OF _ q _ heap_ext_refl, of H d dep xs c ys qs'] wf 2 ident(1) owf by auto
      show ?thesis
        using between [OF q, of qs'] old_search 2 Cons ci owf below qs found b(3)
        by (auto simp: insert_result_def split: if_splits)
    qed
  qed (use found in simp)
  show ?thesis
    using ext2 wf2 new frame unfolding insert_result_def by simp
qed

lemma add_node_result:
  assumes "add_node n r H = (c, H1)"
  shows "heap_ext H H1" "nd_children c = []" "node_ident H1 c = rs_ident r" "node_wf H1 c"
  using assms by (auto simp: add_node_def make_shared_def heap_ext_def SetPath_def Let_def)

lemma find_child_Some:
  assumes "find_child H ri cs = Some k"
  shows "k < length cs" "ident_key (node_ident H (cs ! k)) = ident_key ri"
  using assms by (auto simp: find_child_def find_Some_iff Compare_EQUAL_iff ResourceIdentifier_eq_def
      ident_key_def)

lemma find_child_None:
  assumes "find_child H ri cs = None" "ri_type ri \<noteq> UNDEFINED" "c \<in> set cs"
  shows "ident_key (node_ident H c) \<noteq> ident_key ri"
proof
  assume eq: "ident_key (node_ident H c) = ident_key ri"
  obtain k where "k < length cs" "c = cs ! k" using assms(3) by (auto simp: in_set_conv_nth)
  moreover from this have "ResourceIdentifier_Compare (node_ident H (cs ! k)) ri \<noteq> EQUAL"
    using assms(1) by (auto simp: find_child_def find_None_iff)
  ultimately show False
    using eq assms(2) by (auto simp: Compare_EQUAL_iff ResourceIdentifier_eq_def ident_key_def)
qed

lemma sibling_keys:
  assumes "node_wf H (ResourceNode d dep cs)" "cs = xs @ c # ys" "ident_key (node_ident H c) = k"
  shows "\<forall>c\<in>set (xs @ ys). ident_key (node_ident H c) \<noteq> k"
  using assms by (fastforce simp: image_iff)

lemma insert_at_result:
  assumes "node_wf H n" "\<forall>ri\<in>set path. ident_ok mx ri \<and> ri_type ri \<noteq> UNDEFINED"
    and "insert_at mx path n H md = (n', p, H', md')"
  shows "insert_result H path n n' p H'"
  using assms
proof (induction path arbitrary: n H md n' p H' md')
  case Nil
  then show ?case by (auto simp: insert_result_def)
next
  case (Cons ri path)
  obtain d dep cs where n: "n = ResourceNode d dep cs" by (cases n)
  have ri: "ident_ok mx ri" "ri_type ri \<noteq> UNDEFINED"
    and path: "\<forall>ri\<in>set path. ident_ok mx ri \<and> ri_type ri \<noteq> UNDEFINED"
    using Cons.prems(2) by simp_all
  let ?r = "Resource_new mx (ri_type ri) (ri_id ri) 1"
  have r: "rs_ident ?r = ri" using ident_new_of_ok [OF ri(1)] by (simp add: Resource_new_def)
  obtain c H1 where add: "add_node n ?r H = (c, H1)" by fastforce
  note new = add_node_result [OF add]
  have append: "insert_result H (ri # path) n (ResourceNode d dep (cs @ [c'])) p H2"
    if "insert_at mx path c H1 md1 = (c', p, H2, md2)"
      "\<forall>c\<in>set cs. ident_key (node_ident H c) \<noteq> ident_key ri" for c' H2 md1 md2
    using insert_between [where old = "[]" and ys = "[]" and xs = cs and c = c and ri = ri]
      Cons.prems(1) new r ri that Cons.IH [OF new(4) path that(1)] n by auto
  consider "cs = []" | k where "cs \<noteq> []" "find_child H ri cs = Some k" | "cs \<noteq> []" "find_child H ri cs = None"
    by fastforce
  then show ?case
  proof cases
    case 1
    then show ?thesis using Cons.prems(3) append n add by (auto split: prod.splits)
  next
    case 2
    have k: "k < length cs" "ident_key (node_ident H (cs ! k)) = ident_key ri"
      using find_child_Some [OF 2(2)] .
    then obtain xs ys where cs: "cs = xs @ cs ! k # ys" "length xs = k"
      by (metis id_take_nth_drop length_take min.absorb4)
    obtain c' md2 where c': "insert_at mx path (cs ! k) H md = (c', p, H', md2)"
      "n' = ResourceNode d dep (cs[k := c'])"
      using Cons.prems(3) n 2 by (auto split: prod.splits)
    have upd: "cs[k := c'] = xs @ c' # ys" using cs by (metis list_update_length)
    have cwf: "node_wf H (cs ! k)" using Cons.prems(1) n k(1) by simp
    have "\<forall>c\<in>set (xs @ ys). ident_key (node_ident H c) \<noteq> ident_key ri"
      using Cons.prems(1) n cs k(2) by (metis sibling_keys)
    then show ?thesis
      using insert_between [of H d dep xs "[cs ! k]" ys "cs ! k" H ri path c' p H']
        Cons.prems(1) n cs k(2) ri(2) Cons.IH [OF cwf path c'(1)] cwf c'(2) upd by simp
  next
    case 3
    then have "\<forall>c\<in>set cs. ident_key (node_ident H c) \<noteq> ident_key ri"
      using find_child_None [OF 3(2) ri(2)] by blast
    then show ?thesis using Cons.prems(3) append n add 3 by (auto split: prod.splits)
  qed
qed

text \<open>What an insertion allocates, and that a path nothing was found for gets a new descriptor.\<close>

definition fresh_objs :: "int \<Rightarrow> RHeap \<Rightarrow> RHeap \<Rightarrow> bool" where
  "fresh_objs mx H H' \<longleftrightarrow>
     (\<forall>a\<ge>rnext H. if a < rnext H' then \<exists>t i s. robj H' a = SetPath s (Resource_new mx t i 1)
                 else robj H' a = robj H a)"

lemma fresh_objs_trans:
  assumes "fresh_objs mx H H1" "heap_ext H H1" "heap_ext H1 H2" "fresh_objs mx H1 H2"
  shows "fresh_objs mx H H2"
  unfolding fresh_objs_def
proof (intro allI impI)
  fix a assume "rnext H \<le> a"
  then show "if a < rnext H2 then \<exists>t i s. robj H2 a = SetPath s (Resource_new mx t i 1)
      else robj H2 a = robj H a"
    using assms by (cases "a < rnext H1") (auto simp: fresh_objs_def heap_ext_def)
qed

lemma add_node_fresh:
  "add_node n (Resource_new mx t i 1) H = (c, H1) \<Longrightarrow> fresh_objs mx H H1 \<and> nd_data c = rnext H"
  unfolding add_node_def make_shared_def fresh_objs_def Let_def by (auto simp: less_Suc_eq_le) blast

lemma insert_at_fresh:
  assumes "node_wf H n" "\<forall>ri\<in>set path. ident_ok mx ri \<and> ri_type ri \<noteq> UNDEFINED"
    and "insert_at mx path n H md = (n', p, H', md')"
  shows "fresh_objs mx H H' \<and>
    (path \<noteq> [] \<longrightarrow> find_ref RT_MATCH_FIRST H path n = [] \<longrightarrow> rnext H \<le> p \<and> p < rnext H')"
  using assms
proof (induction path arbitrary: n H md n' p H' md')
  case Nil
  then show ?case by (auto simp: fresh_objs_def)
next
  case (Cons ri path)
  obtain d dep cs where n: "n = ResourceNode d dep cs" by (cases n)
  have ri: "ri_type ri \<noteq> UNDEFINED"
    and path: "\<forall>ri\<in>set path. ident_ok mx ri \<and> ri_type ri \<noteq> UNDEFINED"
    using Cons.prems(2) by simp_all
  let ?r = "Resource_new mx (ri_type ri) (ri_id ri) 1"
  obtain c H1 where add: "add_node n ?r H = (c, H1)" by fastforce
  note new = add_node_result [OF add] and alloc = add_node_fresh [OF add]
  have new_child: "fresh_objs mx H H2 \<and> rnext H \<le> p \<and> p < rnext H2"
    if ins: "insert_at mx path c H1 md1 = (c', p, H2, md2)" for c' H2 md1 md2
  proof -
    have res: "insert_result H1 path c c' p H2" by (rule insert_at_result [OF new(4) path ins])
    have IH: "fresh_objs mx H1 H2 \<and> (path \<noteq> [] \<longrightarrow> rnext H1 \<le> p \<and> p < rnext H2)"
      using Cons.IH [OF new(4) path ins] find_ref_leaf [OF new(2)] by simp
    have "fresh_objs mx H H2"
      using fresh_objs_trans [OF _ new(1)] alloc IH res by (auto simp: insert_result_def)
    moreover have "rnext H \<le> p \<and> p < rnext H2"
    proof (cases "path = []")
      case True
      then have "p = nd_data c'" "nd_data c' = rnext H" "node_wf H2 c'"
        using res alloc by (auto simp: insert_result_def)
      then show ?thesis using node_wf_data by fastforce
    next
      case False
      then show ?thesis using IH new(1) by (auto simp: heap_ext_def)
    qed
    ultimately show ?thesis by blast
  qed
  consider "cs = []" | k where "cs \<noteq> []" "find_child H ri cs = Some k" | "cs \<noteq> []" "find_child H ri cs = None"
    by fastforce
  then show ?case
  proof cases
    case 2
    have k: "k < length cs" "ident_key (node_ident H (cs ! k)) = ident_key ri"
      using find_child_Some [OF 2(2)] .
    obtain c' md2 where c': "insert_at mx path (cs ! k) H md = (c', p, H', md2)"
      using Cons.prems(3) n 2 by (auto split: prod.splits)
    have cwf: "node_wf H (cs ! k)" using Cons.prems(1) n k(1) by simp
    show ?thesis
      using Cons.IH [OF cwf path c'] find_ref_exact_child [OF Cons.prems(1) ri, of "cs ! k" path] k n
      by (auto split: if_splits)
  qed (use Cons.prems(3) new_child n add in \<open>auto split: prod.splits\<close>)
qed

text \<open>The flags matter only through the children they skip and the first-matching bit.\<close>

lemma find_node_flags:
  "fl AND RT_MATCH_FIRST \<noteq> 0 \<longleftrightarrow> fl' AND RT_MATCH_FIRST \<noteq> 0 \<Longrightarrow>
     (\<And>p c. p \<in> set ps \<Longrightarrow> child_matches fl H p c = child_matches fl' H p c) \<Longrightarrow>
     find_node fl H ps n st = find_node fl' H ps n st"
  "fl AND RT_MATCH_FIRST \<noteq> 0 \<longleftrightarrow> fl' AND RT_MATCH_FIRST \<noteq> 0 \<Longrightarrow>
     (\<And>p c. p \<in> set ps \<Longrightarrow> child_matches fl H p c = child_matches fl' H p c) \<Longrightarrow>
     find_children fl H ps cs st = find_children fl' H ps cs st"
proof (induction fl H ps n st and fl H ps cs st rule: find_node_find_children.induct)
  case (3 fl H ps c cs i ms ub)
  show ?case
  proof (cases "0 \<le> i \<and> i < int (length ps)")
    case in_range: True
    have mem: "ps ! nat i \<in> set ps" using in_range by (intro nth_mem) linarith
    obtain i1 ms1 ub1 where down: "snd (find_node fl H ps c (i + 1, ms, ub)) = (i1, ms1, ub1)"
      by (metis prod_cases3)
    show ?thesis
    proof (cases "child_matches fl H (ps ! nat i) c")
      case False
      then have "\<not> child_matches fl' H (ps ! nat i) c" using "3.prems"(2) [OF mem] by simp
      with False show ?thesis
        using find_children_skip in_range "3.IH"(1) [OF _ refl refl] "3.prems"
        by (simp add: child_matches_def)
    next
      case True
      have same: "find_node fl H ps c (i + 1, ms, ub) = find_node fl' H ps c (i + 1, ms, ub)"
        using "3.IH"(2) [OF _ refl refl] True in_range "3.prems" by (simp add: child_matches_def)
      have rest: "fl AND RT_MATCH_FIRST = 0 \<Longrightarrow> find_children fl H ps cs (it, ms2, ub1) =
          find_children fl' H ps cs (it, ms2, ub1)"
        if "it = (if i1 = int (length ps) then i1 - 1 else i1)"
          "ms2 = (if i1 = int (length ps) then ms1 @ [nd_data c] else ms1)" for it ms2
        using "3.IH"(3) [of "ps ! nat i" _ "(i1, ms1, ub1)" i1 "(ms1, ub1)" ms1 ub1 "(it, ms2)" it ms2]
          True in_range "3.prems" down that by (simp add: child_matches_def)
      have "child_matches fl' H (ps ! nat i) c" using True "3.prems"(2) [OF mem] by simp
      then show ?thesis
        using find_children_down [of i ps fl H c ms ub i1 ms1 ub1 cs]
          find_children_down [of i ps fl' H c ms ub i1 ms1 ub1 cs] True in_range down same rest "3.prems"(1)
        by (simp add: Let_def)
    qed
  qed (simp add: find_children.simps(2))
qed auto

section \<open>Properties\<close>

definition tree_ok :: "RHeap \<Rightarrow> ResourceTree \<Rightarrow> bool" where
  "tree_ok H t \<longleftrightarrow> node_wf H (root t)"

definition typed_path :: "ResourcePath \<Rightarrow> bool" where
  "typed_path p \<longleftrightarrow> identifiers p \<noteq> [] \<and> (\<forall>ri\<in>set (identifiers p). ri_type ri \<noteq> UNDEFINED)"

lemma find_list_exact:
  assumes "tree_ok H t" "typed_path p"
  shows "find_list RT_MATCH_FIRST H p t = find_ref RT_MATCH_FIRST H (identifiers p) (root t)"
  using find_node_exact [of H "root t" "identifiers p" "[]" "[]" False] assms
  by (auto simp: find_list_def tree_ok_def typed_path_def)

lemma tree_ok_new: "ResourceTree_new mx H = (t, H') \<Longrightarrow> tree_ok H' t"
  by (auto simp: ResourceTree_new_def make_shared_def tree_ok_def)

lemma tree_insert_result:
  assumes "tree_ok H t" "path_ok mx p" "typed_path p" "tree_insert mx p t H = (r, t', H')"
  shows "insert_result H (identifiers p) (root t) (root t') r H'"
proof -
  obtain n' md' where ins: "insert_at mx (identifiers p) (root t) H (max_depth t) = (n', r, H', md')"
    "root t' = n'"
    using assms(4) by (auto simp: tree_insert_def split: prod.splits)
  have "\<forall>ri\<in>set (identifiers p). ident_ok mx ri \<and> ri_type ri \<noteq> UNDEFINED"
    using assms(2,3) by (auto simp: path_ok_def typed_path_def)
  then show ?thesis
    using insert_at_result [OF _ _ ins(1)] assms(1) ins(2) by (auto simp: tree_ok_def)
qed

text \<open>C26: inserting a path and looking it up. After \<open>insert\<close> the exact search for the path
  returns exactly the descriptor that \<open>insert\<close> returned; the tree stays well formed; every
  path that named a descriptor before still names the same one; and the search for a path that is
  neither the inserted one nor one of its beginnings answers as before, also when it finds nothing.
  (A beginning of the path may come to name a descriptor: the insertion adds the missing parents.)\<close>

theorem insert_then_find:
  assumes "tree_ok H t" "path_ok mx p" "typed_path p" "tree_insert mx p t H = (r, t', H')"
  shows "tree_ok H' t' \<and> find_list RT_MATCH_FIRST H' p t' = [r] \<and>
    (\<forall>q. typed_path q \<longrightarrow>
       find_list RT_MATCH_FIRST H q t \<noteq> [] \<or>
         \<not> begins (map ident_key (identifiers q)) (map ident_key (identifiers p)) \<longrightarrow>
       find_list RT_MATCH_FIRST H' q t' = find_list RT_MATCH_FIRST H q t)"
proof -
  note ins = tree_insert_result [OF assms]
  then have ok: "tree_ok H' t'" by (simp add: insert_result_def tree_ok_def)
  moreover have "find_list RT_MATCH_FIRST H' p t' = [r]"
    using find_list_exact [OF ok assms(3)] ins assms(3) by (simp add: insert_result_def typed_path_def)
  moreover have "find_list RT_MATCH_FIRST H' q t' = find_list RT_MATCH_FIRST H q t"
    if "typed_path q" "find_list RT_MATCH_FIRST H q t \<noteq> [] \<or>
      \<not> begins (map ident_key (identifiers q)) (map ident_key (identifiers p))" for q
    using ins that find_list_exact [OF ok] find_list_exact [OF assms(1)]
    by (auto simp: insert_result_def typed_path_def)
  ultimately show ?thesis by blast
qed

definition heap0 :: RHeap where
  "heap0 = \<lparr>robj = (\<lambda>_. Resource_new_path 31 [] 0), rnext = 0\<rparr>"

fun insert_all :: "string list \<Rightarrow> ResourceTree \<times> RHeap \<Rightarrow> ResourceTree \<times> RHeap" where
  "insert_all [] th = th"
| "insert_all (s # ss) th = insert_all ss (snd (tree_insert 31 (ResourcePath_new 31 s) (fst th) (snd th)))"

theorem insert_then_find_witness:
  "\<exists>r t H. tree_insert 31 (ResourcePath_new 31 ''sys0.cpu1.pe2'') (fst (ResourceTree_new 31 heap0))
      (snd (ResourceTree_new 31 heap0)) = (r, t, H) \<and>
     find_list RT_MATCH_FIRST H (ResourcePath_new 31 ''sys0.cpu1.pe2'') t = [r]"
proof -
  obtain t0 H0 where new: "ResourceTree_new 31 heap0 = (t0, H0)" by fastforce
  obtain r t H where ins: "tree_insert 31 (ResourcePath_new 31 ''sys0.cpu1.pe2'') t0 H0 = (r, t, H)"
    by (metis prod_cases3)
  have "typed_path (ResourcePath_new 31 ''sys0.cpu1.pe2'')" by code_simp
  then show ?thesis
    using insert_then_find [OF tree_ok_new [OF new] path_ok_new _ ins] ins new by auto
qed

text \<open>The search never reads outside of the path. Whatever the tree and the flags, the shared
  iterator is dereferenced only at positions of the path.\<close>

theorem find_stays_in_path:
  "\<not> snd (snd (snd (find_run fl H p t)))"
proof -
  obtain b i ms ub where "find_run fl H p t = (b, (i, ms, ub))" by (metis prod_cases4)
  then show ?thesis
    using find_position(1) [of fl H "identifiers p" "root t" 0 "[]" False] by simp
qed

text \<open>C25: a search for all matchings, by type or mixed, returns the descriptors of the reference
  depth-first search, in its order, when no matching node before the end of the path is a leaf.\<close>

theorem find_all_is_reference:
  assumes "fl AND RT_MATCH_FIRST = 0" "no_short_match fl H (identifiers p) (root t)"
  shows "find_list fl H p t = find_ref fl H (identifiers p) (root t)"
proof (cases "identifiers p = [] \<or> nd_children (root t) = []")
  case True
  then show ?thesis by (cases "root t") (auto simp: find_list_def find_ref_leaf)
next
  case False
  then show ?thesis
    using find_node_ref [OF assms(1) _ assms(2), of "[]" "[]" False] by (auto simp: find_list_def)
qed

theorem find_all_is_reference_witness:
  "let (t, H) = insert_all [''sys0.cpu0.pe0'', ''sys0.cpu1.pe0'', ''sys0.mem0''] (ResourceTree_new 31 heap0)
   in no_short_match RT_MATCH_TYPE H (identifiers (ResourcePath_new 31 ''sys.cpu.pe'')) (root t) \<and>
      find_list RT_MATCH_TYPE H (ResourcePath_new 31 ''sys.cpu.pe'') t = [3, 5]"
proof -
  define th where "th = insert_all [''sys0.cpu0.pe0'', ''sys0.cpu1.pe0'', ''sys0.mem0''] (ResourceTree_new 31 heap0)"
  let ?p = "ResourcePath_new 31 ''sys.cpu.pe''"
  have "RT_MATCH_TYPE AND RT_MATCH_FIRST = 0" by (simp add: RT_MATCH_TYPE_def RT_MATCH_FIRST_def)
  moreover have "no_short_match RT_MATCH_TYPE (snd th) (identifiers ?p) (root (fst th))"
    unfolding th_def by code_simp
  moreover have "find_ref RT_MATCH_TYPE (snd th) (identifiers ?p) (root (fst th)) = [3, 5]"
    unfolding th_def by code_simp
  ultimately show ?thesis
    using find_all_is_reference [of RT_MATCH_TYPE "snd th" ?p "fst th"]
    unfolding th_def [symmetric] by (simp add: case_prod_beta)
qed

text \<open>Without that proviso the search by type misses descriptors and returns others: a
  matching leaf leaves the iterator one level too deep for its siblings. With a processor that
  has no processing element registered before one that has, the template of the processing
  elements of processors finds none of them, and finds one that belongs to no processor.\<close>

theorem short_match_breaks_search:
  "(let (t, H) = insert_all [''sys0.cpu0'', ''sys0.cpu1.pe0''] (ResourceTree_new 31 heap0);
        p = ResourcePath_new 31 ''sys.cpu.pe''
    in find_list RT_MATCH_TYPE H p t = [] \<and> find_ref RT_MATCH_TYPE H (identifiers p) (root t) = [4]) \<and>
   (let (t, H) = insert_all [''sys0.cpu0'', ''sys0.pe0''] (ResourceTree_new 31 heap0);
        p = ResourcePath_new 31 ''sys.cpu.pe''
    in find_list RT_MATCH_TYPE H p t = [3] \<and> find_ref RT_MATCH_TYPE H (identifiers p) (root t) = [])"
  by code_simp

end
