(* ===== verification/Resource_Bitset.thy ===== *)
theory Resource_Bitset
  imports Resource_Type
begin

text \<open>
  \<open>ResourceBitset\<close> (\<^verbatim>\<open>include/bbque/res/bitset.h\<close>, \<^verbatim>\<open>bbque/res/bitset.cc\<close>): the
  \<open>std::bitset\<close> of \<open>BBQUE_MAX_R_ID_NUM + 1\<close> positions is a list of booleans of that length,
  and \<open>test\<close> outside of it throws. The record keeps, beside the bits, the first and last
  position set, the number of bits set, an emptiness flag and the text of the control group
  attribute. The invariant ties all of them to the set of positions the object stands for.
\<close>

section \<open>Operations\<close>

datatype BitsetExitCode = BITSET_OK | BITSET_OUT_OF_RANGE

record ResourceBitset =
  bit_set :: "bool list"
  first_set :: rid
  last_set :: rid
  bs_count :: int
  bs_none :: bool
  cg_str :: string

definition ResourceBitset_new :: "int \<Rightarrow> ResourceBitset" where
  "ResourceBitset_new mx =
     \<lparr>bit_set = replicate (nat (mx + 1)) False, first_set = R_ID_NONE, last_set = R_ID_NONE,
      bs_count = 0, bs_none = True, cg_str = []\<rparr>"

definition Bitset_Test :: "ResourceBitset \<Rightarrow> rid \<Rightarrow> fault + bool" where
  "Bitset_Test b pos =
     (if 0 \<le> pos \<and> pos < int (length (bit_set b)) then Inr (bit_set b ! nat pos)
      else Inl OutOfRange)"

definition Bitset_Set ::
    "int \<Rightarrow> rid \<Rightarrow> ResourceBitset \<Rightarrow> fault + BitsetExitCode \<times> ResourceBitset" where
  "Bitset_Set mx pos b =
     (if pos > mx then Inr (BITSET_OUT_OF_RANGE, b)
      else seq_fault (Bitset_Test b pos) (\<lambda>t.
        if t then Inr (BITSET_OK, b)
        else
          let buff = take 3 (if bs_count b > 0 then CHR '','' # to_string pos else to_string pos)
          in Inr (BITSET_OK,
               b\<lparr>bit_set := (bit_set b)[nat pos := True],
                 last_set := (if pos > last_set b then pos else last_set b),
                 first_set := (if pos < first_set b \<or> first_set b < 0 then pos else first_set b),
                 cg_str := cg_str b @ buff,
                 bs_count := bs_count b + 1,
                 bs_none := False\<rparr>)))"

definition Bitset_Reset :: "ResourceBitset \<Rightarrow> ResourceBitset" where
  "Bitset_Reset b =
     b\<lparr>bit_set := replicate (length (bit_set b)) False, first_set := R_ID_NONE,
       last_set := R_ID_NONE, bs_none := True, bs_count := 0\<rparr>"

function bitset_or_loop ::
    "int \<Rightarrow> ResourceBitset \<Rightarrow> int \<Rightarrow> ResourceBitset \<Rightarrow> fault + ResourceBitset" where
  "bitset_or_loop mx rbs k b =
     (if k \<ge> 0 \<and> k \<le> last_set rbs then
        seq_fault (Bitset_Test rbs k) (\<lambda>t.
          if t then
            seq_fault (Bitset_Set mx k b) (\<lambda>(_, b'). bitset_or_loop mx rbs (k + 1) b')
          else bitset_or_loop mx rbs (k + 1) b)
      else Inr b)"
  by pat_completeness auto
termination
  by (relation "measure (\<lambda>(mx, rbs, k, b). nat (last_set rbs + 1 - k))") auto

declare bitset_or_loop.simps [simp del]

definition Bitset_or :: "int \<Rightarrow> ResourceBitset \<Rightarrow> ResourceBitset \<Rightarrow> fault + ResourceBitset" where
  "Bitset_or mx b rbs = bitset_or_loop mx rbs (first_set rbs) b"

definition Bitset_and :: "int \<Rightarrow> ResourceBitset \<Rightarrow> ResourceBitset \<Rightarrow> fault + ResourceBitset" where
  "Bitset_and mx b rbs = Bitset_or mx (Bitset_Reset b) rbs"

definition Bitset_eq :: "ResourceBitset \<Rightarrow> ResourceBitset \<Rightarrow> bool" where
  "Bitset_eq a b \<longleftrightarrow> bit_set a = bit_set b"

definition Bitset_ToULong :: "ResourceBitset \<Rightarrow> nat" where
  "Bitset_ToULong b = (\<Sum>i<length (bit_set b). if bit_set b ! i then 2 ^ i else 0)"

section \<open>The set a bitset stands for, and the invariant\<close>

definition bs_set :: "ResourceBitset \<Rightarrow> int set" where
  "bs_set b = {i. 0 \<le> i \<and> i < int (length (bit_set b)) \<and> bit_set b ! nat i}"

definition bs_ok :: "int \<Rightarrow> ResourceBitset \<Rightarrow> bool" where
  "bs_ok mx b \<longleftrightarrow>
     length (bit_set b) = nat (mx + 1) \<and>
     bs_count b = int (card (bs_set b)) \<and>
     (bs_none b \<longleftrightarrow> bs_set b = {}) \<and>
     first_set b = (if bs_set b = {} then R_ID_NONE else Min (bs_set b)) \<and>
     last_set b = (if bs_set b = {} then R_ID_NONE else Max (bs_set b))"

lemma finite_bs_set [simp]: "finite (bs_set b)"
  by (rule finite_subset [of _ "{0..<int (length (bit_set b))}"]) (auto simp: bs_set_def)

lemma bs_set_range: "bs_ok mx b \<Longrightarrow> i \<in> bs_set b \<Longrightarrow> 0 \<le> i \<and> i \<le> mx"
  by (auto simp: bs_ok_def bs_set_def)

lemma bs_set_new [simp]: "bs_set (ResourceBitset_new mx) = {}"
  by (auto simp: bs_set_def ResourceBitset_new_def)

lemma bs_ok_new [simp]: "bs_ok mx (ResourceBitset_new mx)"
  by (simp add: bs_ok_def) (simp add: ResourceBitset_new_def)

lemma bs_set_Reset [simp]: "bs_set (Bitset_Reset b) = {}"
  by (auto simp: bs_set_def Bitset_Reset_def)

lemma bs_ok_Reset [simp]: "bs_ok mx b \<Longrightarrow> bs_ok mx (Bitset_Reset b)"
  by (simp add: bs_ok_def) (simp add: Bitset_Reset_def)

lemma Test_bs_set:
  "bs_ok mx b \<Longrightarrow> 0 \<le> pos \<Longrightarrow> pos \<le> mx \<Longrightarrow> Bitset_Test b pos = Inr (pos \<in> bs_set b)"
  by (auto simp: Bitset_Test_def bs_ok_def bs_set_def)

lemma bs_set_update:
  "0 \<le> pos \<Longrightarrow> pos < int (length (bit_set b)) \<Longrightarrow>
     bs_set (b\<lparr>bit_set := (bit_set b)[nat pos := True], last_set := l, first_set := f,
               cg_str := c, bs_count := n, bs_none := e\<rparr>) = insert pos (bs_set b)"
  by (auto simp: bs_set_def nth_list_update)

lemma bs_bounds_insert:
  assumes ok: "bs_ok mx b" and pos: "0 \<le> pos"
  shows "(if pos < first_set b \<or> first_set b < 0 then pos else first_set b) =
           Min (insert pos (bs_set b))"
    and "(if pos > last_set b then pos else last_set b) = Max (insert pos (bs_set b))"
proof -
  have empty: "first_set b = R_ID_NONE" "last_set b = R_ID_NONE" if "bs_set b = {}"
    using ok that by (simp_all add: bs_ok_def)
  have nonempty: "first_set b = Min (bs_set b)" "last_set b = Max (bs_set b)" "0 \<le> first_set b"
    if "bs_set b \<noteq> {}"
    using ok that bs_set_range [OF ok Min_in] by (simp_all add: bs_ok_def)
  show "(if pos < first_set b \<or> first_set b < 0 then pos else first_set b) =
          Min (insert pos (bs_set b))"
  proof (cases "bs_set b = {}")
    case False
    then have eq: "Min (insert pos (bs_set b)) = min pos (first_set b)"
      using nonempty by simp
    show ?thesis unfolding eq using nonempty(3) [OF False] by (simp add: min_def)
  qed (simp add: empty R_ID_NONE_def)
  show "(if pos > last_set b then pos else last_set b) = Max (insert pos (bs_set b))"
  proof (cases "bs_set b = {}")
    case False
    then have eq: "Max (insert pos (bs_set b)) = max pos (last_set b)"
      using nonempty by simp
    show ?thesis unfolding eq by (simp add: max_def)
  qed (use pos in \<open>simp add: empty R_ID_NONE_def\<close>)
qed

text \<open>\<open>Set\<close> on a position in range succeeds and adds exactly that position.\<close>

lemma Bitset_Set_in_range:
  assumes ok: "bs_ok mx b" and pos: "0 \<le> pos" "pos \<le> mx"
  obtains b' where "Bitset_Set mx pos b = Inr (BITSET_OK, b')" "bs_ok mx b'"
    "bs_set b' = insert pos (bs_set b)"
proof (cases "pos \<in> bs_set b")
  case True
  then have "Bitset_Set mx pos b = Inr (BITSET_OK, b)"
    using Test_bs_set [OF ok pos] pos by (simp add: Bitset_Set_def)
  with True ok that show thesis by (auto simp: insert_absorb)
next
  case False
  let ?buff = "take 3 (if bs_count b > 0 then CHR '','' # to_string pos else to_string pos)"
  let ?b = "b\<lparr>bit_set := (bit_set b)[nat pos := True],
                 last_set := (if pos > last_set b then pos else last_set b),
                 first_set := (if pos < first_set b \<or> first_set b < 0 then pos else first_set b),
                 cg_str := cg_str b @ ?buff,
                 bs_count := bs_count b + 1, bs_none := False\<rparr>"
  have eq: "Bitset_Set mx pos b = Inr (BITSET_OK, ?b)"
    using False Test_bs_set [OF ok pos] pos by (simp add: Bitset_Set_def Let_def)
  have len: "pos < int (length (bit_set b))" using ok pos by (simp add: bs_ok_def)
  have set: "bs_set ?b = insert pos (bs_set b)"
    by (rule bs_set_update) (use pos len in auto)
  have bounds: "first_set ?b = Min (insert pos (bs_set b)) \<and> last_set ?b = Max (insert pos (bs_set b))"
    using bs_bounds_insert [OF ok pos(1)] by simp
  have "bs_ok mx ?b"
    using ok False bounds unfolding bs_ok_def set by simp
  with eq set that show thesis by blast
qed

text \<open>The loop of \<open>|=\<close> visits the positions from the first one set to the last one.\<close>

lemma bitset_or_loop_union:
  assumes "bs_ok mx rbs" "bs_ok mx b" "0 \<le> k"
  shows "\<exists>b'. bitset_or_loop mx rbs k b = Inr b' \<and> bs_ok mx b' \<and>
           bs_set b' = bs_set b \<union> {i \<in> bs_set rbs. k \<le> i}"
  using assms
proof (induction mx rbs k b rule: bitset_or_loop.induct)
  case (1 mx rbs k b)
  show ?case
  proof (cases "k \<le> last_set rbs")
    case False
    have "i \<le> last_set rbs" if "i \<in> bs_set rbs" for i
      using that "1.prems"(1) by (auto simp: bs_ok_def)
    with False have "{i \<in> bs_set rbs. k \<le> i} = {}" by force
    with False "1.prems" show ?thesis by (subst bitset_or_loop.simps) (simp only: simp_thms if_False, auto)
  next
    case True
    then have "bs_set rbs \<noteq> {}" using "1.prems"(1,3) by (auto simp: bs_ok_def R_ID_NONE_def)
    then have "last_set rbs \<in> bs_set rbs" using "1.prems"(1) Max_in by (simp add: bs_ok_def)
    then have mx: "k \<le> mx" using True bs_set_range [OF "1.prems"(1)] by fastforce
    have "k \<le> i \<longleftrightarrow> i = k \<or> k + 1 \<le> i" for i by auto
    then have split: "{i \<in> bs_set rbs. k \<le> i} =
        (if k \<in> bs_set rbs then {k} else {}) \<union> {i \<in> bs_set rbs. k + 1 \<le> i}"
      by auto
    have test: "Bitset_Test rbs k = Inr (k \<in> bs_set rbs)"
      using Test_bs_set "1.prems"(1,3) mx by blast
    show ?thesis
    proof (cases "k \<in> bs_set rbs")
      case False
      then show ?thesis
        using "1.IH"(2) [of False] "1.prems" True test
        by (subst bitset_or_loop.simps) (simp add: split)
    next
      case in_set: True
      obtain b1 where b1: "Bitset_Set mx k b = Inr (BITSET_OK, b1)" "bs_ok mx b1"
        "bs_set b1 = insert k (bs_set b)"
        using Bitset_Set_in_range [OF "1.prems"(2,3) mx] .
      then show ?thesis
        using "1.IH"(1) [of True "(BITSET_OK, b1)" BITSET_OK b1] "1.prems" True test in_set
        by (subst bitset_or_loop.simps) (simp add: split)
    qed
  qed
qed

lemma Bitset_or_union:
  assumes "bs_ok mx b" "bs_ok mx rbs"
  obtains b' where "Bitset_or mx b rbs = Inr b'" "bs_ok mx b'" "bs_set b' = bs_set b \<union> bs_set rbs"
proof (cases "bs_set rbs = {}")
  case True
  then have "Bitset_or mx b rbs = Inr b"
    using assms by (simp add: Bitset_or_def bs_ok_def R_ID_NONE_def bitset_or_loop.simps)
  with True assms that show thesis by simp
next
  case False
  then have first: "first_set rbs = Min (bs_set rbs)" "Min (bs_set rbs) \<in> bs_set rbs"
    using assms by (simp_all add: bs_ok_def)
  then have "0 \<le> first_set rbs" using bs_set_range [OF assms(2)] by simp
  moreover have "{i \<in> bs_set rbs. first_set rbs \<le> i} = bs_set rbs" using first by auto
  ultimately show thesis
    using bitset_or_loop_union [OF assms(2,1), of "first_set rbs"] that
    unfolding Bitset_or_def by auto
qed

lemma bs_set_eq_iff:
  assumes "bs_ok mx a" "bs_ok mx b"
  shows "Bitset_eq a b \<longleftrightarrow> bs_set a = bs_set b"
proof
  assume eq: "bs_set a = bs_set b"
  have len: "length (bit_set a) = length (bit_set b)" using assms by (simp add: bs_ok_def)
  have "bit_set a ! i = bit_set b ! i" if "i < length (bit_set a)" for i
  proof -
    have "int i \<in> bs_set a \<longleftrightarrow> int i \<in> bs_set b" by (simp only: eq)
    then show ?thesis using that len by (simp add: bs_set_def)
  qed
  with len show "Bitset_eq a b" by (simp add: Bitset_eq_def list_eq_iff_nth_eq)
qed (simp add: Bitset_eq_def bs_set_def)

section \<open>The control group text\<close>

text \<open>\<open>cg_str\<close> accumulates the numbers in the order in which they are first set. The buffer
  holds three characters, so a number of three digits loses its end.\<close>

fun cg_text :: "int list \<Rightarrow> string" where
  "cg_text [] = []"
| "cg_text [p] = to_string p"
| "cg_text (p # q # ps) = to_string p @ CHR '','' # cg_text (q # ps)"

fun Bitset_SetAll :: "int \<Rightarrow> int list \<Rightarrow> ResourceBitset \<Rightarrow> fault + ResourceBitset" where
  "Bitset_SetAll mx [] b = Inr b"
| "Bitset_SetAll mx (p # ps) b =
     seq_fault (Bitset_Set mx p b) (\<lambda>(_, b'). Bitset_SetAll mx ps b')"

lemma cg_text_snoc: "ps \<noteq> [] \<Longrightarrow> cg_text (ps @ [p]) = cg_text ps @ CHR '','' # to_string p"
  by (induction ps rule: cg_text.induct) auto

lemma to_string_two_digits: "0 \<le> p \<Longrightarrow> p \<le> 99 \<Longrightarrow> length (to_string p) \<le> 2"
  by (simp add: to_string_def nat_to_string.simps)

lemma Bitset_Set_cg_str:
  assumes ok: "bs_ok mx b" and pos: "0 \<le> pos" "pos \<le> mx" "pos \<le> 99" "pos \<notin> bs_set b"
    and set: "Bitset_Set mx pos b = Inr (c, b')"
  shows "cg_str b' = cg_str b @ (if bs_set b = {} then [] else '','') @ to_string pos"
proof -
  have "bs_count b > 0 \<longleftrightarrow> bs_set b \<noteq> {}"
    using ok by (auto simp: bs_ok_def card_gt_0_iff)
  then show ?thesis
    using set pos Test_bs_set [OF ok pos(1,2)] to_string_two_digits [OF pos(1,3)]
    by (cases "bs_set b = {}") (auto simp: Bitset_Set_def Let_def)
qed

lemma Bitset_SetAll_text:
  assumes "bs_ok mx b" "cg_str b = cg_text qs" "bs_set b = set qs" "distinct (qs @ ps)"
    and "\<forall>p\<in>set ps. 0 \<le> p \<and> p \<le> mx \<and> p \<le> 99"
  shows "\<exists>b'. Bitset_SetAll mx ps b = Inr b' \<and> bs_ok mx b' \<and>
           cg_str b' = cg_text (qs @ ps) \<and> bs_set b' = set (qs @ ps)"
  using assms
proof (induction ps arbitrary: b qs)
  case (Cons p ps)
  then obtain b1 where b1: "Bitset_Set mx p b = Inr (BITSET_OK, b1)" "bs_ok mx b1"
    "bs_set b1 = insert p (bs_set b)"
    using Bitset_Set_in_range [OF Cons.prems(1), of p] by (metis list.set_intros(1))
  have "cg_str b1 = cg_text (qs @ [p])"
    using Bitset_Set_cg_str [OF Cons.prems(1) _ _ _ _ b1(1)] Cons.prems
    by (cases "qs = []") (auto simp: cg_text_snoc)
  then show ?case
    using Cons.IH [of b1 "qs @ [p]"] b1 Cons.prems by simp
qed simp

section \<open>Properties\<close>

text \<open>C32: on well-formed bitsets \<open>|=\<close> returns, its result stands for the union of the two sets,
  and its count, its first and last position and its emptiness flag are those of the union.\<close>

theorem bitset_or_is_union:
  assumes "bs_ok mx b" "bs_ok mx rbs"
  shows "\<exists>b'. Bitset_or mx b rbs = Inr b' \<and> bs_ok mx b' \<and> bs_set b' = bs_set b \<union> bs_set rbs"
  using Bitset_or_union [OF assms] by blast

lemma bs_ok_SetAll:
  assumes "bs_ok mx b" "\<forall>p\<in>set ps. 0 \<le> p \<and> p \<le> mx"
  shows "\<exists>b'. Bitset_SetAll mx ps b = Inr b' \<and> bs_ok mx b' \<and> bs_set b' = bs_set b \<union> set ps"
  using assms
proof (induction ps arbitrary: b)
  case (Cons p ps)
  then obtain b1 where "Bitset_Set mx p b = Inr (BITSET_OK, b1)" "bs_ok mx b1"
    "bs_set b1 = insert p (bs_set b)"
    using Bitset_Set_in_range [OF Cons.prems(1), of p] by (metis list.set_intros(1))
  then show ?case using Cons.IH [of b1] Cons.prems(2) by simp
qed simp

theorem bitset_or_is_union_witness:
  "\<exists>b c d. Bitset_SetAll 31 [2, 7] (ResourceBitset_new 31) = Inr b \<and>
     Bitset_SetAll 31 [5, 7] (ResourceBitset_new 31) = Inr c \<and>
     Bitset_or 31 b c = Inr d \<and> bs_ok 31 d \<and> bs_set d = {2, 5, 7}"
proof -
  obtain b where b: "Bitset_SetAll 31 [2, 7] (ResourceBitset_new 31) = Inr b" "bs_ok 31 b" "bs_set b = {2, 7}"
    using bs_ok_SetAll [OF bs_ok_new, of "[2, 7]" 31] by auto
  obtain c where c: "Bitset_SetAll 31 [5, 7] (ResourceBitset_new 31) = Inr c" "bs_ok 31 c" "bs_set c = {5, 7}"
    using bs_ok_SetAll [OF bs_ok_new, of "[5, 7]" 31] by auto
  have "{2, 7} \<union> {5, 7} = {2, 5, 7 :: int}" by auto
  then show ?thesis using bitset_or_is_union [OF b(2) c(2)] b c by auto
qed

text \<open>\<open>&=\<close> is not an intersection. Whatever the left operand holds, the result is the
  right operand's set, because the left one is reset before the positions are added.\<close>

theorem bitset_and_is_assignment:
  assumes "bs_ok mx b" "bs_ok mx rbs"
  shows "\<exists>b'. Bitset_and mx b rbs = Inr b' \<and> bs_set b' = bs_set rbs"
  using Bitset_or_union [OF bs_ok_Reset [OF assms(1)] assms(2)] by (auto simp: Bitset_and_def)

theorem bitset_and_is_assignment_witness:
  "\<exists>b c. Bitset_SetAll 31 [3] (ResourceBitset_new 31) = Inr b \<and> bs_set (ResourceBitset_new 31) = {} \<and>
     Bitset_and 31 (ResourceBitset_new 31) b = Inr c \<and> bs_set c = {3}"
proof -
  obtain b where b: "Bitset_SetAll 31 [3] (ResourceBitset_new 31) = Inr b" "bs_ok 31 b" "bs_set b = {3}"
    using bs_ok_SetAll [OF bs_ok_new, of "[3]" 31] by auto
  show ?thesis using bitset_and_is_assignment [OF bs_ok_new b(2)] b by auto
qed

end
