(* ===== verification/Resource_Assign.thy ===== *)
theory Resource_Assign
  imports Resource_Tree Resource_Bitset
begin

text \<open>
  Resource assignments (\<^verbatim>\<open>include/bbque/res/resource_assignment.h\<close>,
  \<^verbatim>\<open>bbque/res/resource_assignment.cc\<close>) and the map from paths to assignments. The map is a
  \<open>std::map\<close> whose comparator is \<open>operator<\<close> on paths: it is modelled as the list of its entries
  in iteration order, where two keys are the same when neither is less than the other and a new
  key goes in front of the first greater one. This is the behaviour of the container for keys
  on which the comparator is a strict weak order; for other keys the language gives none.
\<close>

section \<open>ResourceAssignment\<close>

datatype Policy = SEQUENTIAL | BALANCED

record PowerSettings =
  freq_governor :: string
  freq_khz :: u32
  perf_state :: u32

record ResourceAssignment =
  ra_amount :: u64
  ra_resources :: "rptr list"
  power_config :: PowerSettings
  fill_policy :: Policy
  ra_mask :: ResourceBitset

definition ResourceAssignment_new :: "int \<Rightarrow> u64 \<Rightarrow> Policy \<Rightarrow> ResourceAssignment" where
  "ResourceAssignment_new mx amount policy =
     \<lparr>ra_amount = amount, ra_resources = [],
      power_config = \<lparr>freq_governor = [], freq_khz = 0, perf_state = 0\<rparr>,
      fill_policy = policy, ra_mask = ResourceBitset_new mx\<rparr>"

definition SetAmount :: "u64 \<Rightarrow> ResourceAssignment \<Rightarrow> ResourceAssignment" where
  "SetAmount v a = a\<lparr>ra_amount := v\<rparr>"

definition SetPolicy :: "Policy \<Rightarrow> ResourceAssignment \<Rightarrow> ResourceAssignment" where
  "SetPolicy policy a = a\<lparr>fill_policy := policy\<rparr>"

definition SetPowerSettings :: "PowerSettings \<Rightarrow> ResourceAssignment \<Rightarrow> ResourceAssignment" where
  "SetPowerSettings settings a = a\<lparr>power_config := settings\<rparr>"

abbreviation ident_of :: "RHeap \<Rightarrow> rptr \<Rightarrow> ResourceIdentifier" where
  "ident_of H p \<equiv> rs_ident (robj H p)"

fun set_resources_loop :: "int \<Rightarrow> RHeap \<Rightarrow> rptr list \<Rightarrow> ResourceAssignment \<Rightarrow> fault + ResourceAssignment" where
  "set_resources_loop mx H [] a = Inr a"
| "set_resources_loop mx H (r # rs) a =
     seq_fault (Bitset_Set mx (ri_id (ident_of H r)) (ra_mask a)) (\<lambda>(_, m).
       set_resources_loop mx H rs (a\<lparr>ra_resources := ra_resources a @ [r], ra_mask := m\<rparr>))"

definition SetResourcesList :: "int \<Rightarrow> RHeap \<Rightarrow> rptr list \<Rightarrow> ResourceAssignment \<Rightarrow> fault + ResourceAssignment" where
  "SetResourcesList mx H r_list a =
     (if r_list = [] then Inr a
      else set_resources_loop mx H r_list (a\<lparr>ra_resources := [], ra_mask := Bitset_Reset (ra_mask a)\<rparr>))"

fun set_resources_by_type_loop :: "RHeap \<Rightarrow> rptr list \<Rightarrow> ResourceType \<Rightarrow> ResourceBitset \<Rightarrow>
    ResourceAssignment \<Rightarrow> fault + ResourceAssignment" where
  "set_resources_by_type_loop H [] filter_rtype filter_mask a = Inr a"
| "set_resources_by_type_loop H (r # rs) filter_rtype filter_mask a =
     (if filter_rtype = ri_type (ident_of H r) then
        seq_fault (Bitset_Test filter_mask (ri_id (ident_of H r))) (\<lambda>t.
          set_resources_by_type_loop H rs filter_rtype filter_mask
            (if \<not> t then a else a\<lparr>ra_resources := ra_resources a @ [r]\<rparr>))
      else set_resources_by_type_loop H rs filter_rtype filter_mask
             (a\<lparr>ra_resources := ra_resources a @ [r]\<rparr>))"

definition SetResourcesList_by_type :: "RHeap \<Rightarrow> rptr list \<Rightarrow> ResourceType \<Rightarrow> ResourceBitset \<Rightarrow>
    ResourceAssignment \<Rightarrow> fault + ResourceAssignment" where
  "SetResourcesList_by_type H r_list filter_rtype filter_mask a =
     (if r_list = [] then Inr a
      else set_resources_by_type_loop H r_list filter_rtype filter_mask
             (a\<lparr>ra_resources := [], ra_mask := Bitset_Reset (ra_mask a)\<rparr>))"

fun set_resources_by_mask_loop :: "int \<Rightarrow> RHeap \<Rightarrow> rptr list \<Rightarrow> ResourceBitset \<Rightarrow>
    ResourceAssignment \<Rightarrow> fault + ResourceAssignment" where
  "set_resources_by_mask_loop mx H [] filter_mask a = Inr a"
| "set_resources_by_mask_loop mx H (r # rs) filter_mask a =
     seq_fault (Bitset_Test filter_mask (ri_id (ident_of H r))) (\<lambda>t.
       if t then
         seq_fault (Bitset_Set mx (ri_id (ident_of H r)) (ra_mask a)) (\<lambda>(_, m).
           set_resources_by_mask_loop mx H rs filter_mask
             (a\<lparr>ra_resources := ra_resources a @ [r], ra_mask := m\<rparr>))
       else set_resources_by_mask_loop mx H rs filter_mask a)"

definition SetResourcesList_by_mask :: "int \<Rightarrow> RHeap \<Rightarrow> rptr list \<Rightarrow> ResourceBitset \<Rightarrow>
    ResourceAssignment \<Rightarrow> fault + ResourceAssignment" where
  "SetResourcesList_by_mask mx H r_list filter_mask a =
     (if r_list = [] then Inr a
      else set_resources_by_mask_loop mx H r_list filter_mask
             (a\<lparr>ra_resources := [], ra_mask := Bitset_Reset (ra_mask a)\<rparr>))"

section \<open>Maps of assignments\<close>

type_synonym AssignMap = "(ResourcePath \<times> ResourceAssignment) list"

definition path_equiv :: "ResourcePath \<Rightarrow> ResourcePath \<Rightarrow> bool" where
  "path_equiv a b \<longleftrightarrow> \<not> Path_lt a b \<and> \<not> Path_lt b a"

definition am_find :: "AssignMap \<Rightarrow> ResourcePath \<Rightarrow> ResourceAssignment option" where
  "am_find m p = map_option snd (List.find (\<lambda>e. path_equiv (fst e) p) m)"

fun am_insert :: "ResourcePath \<Rightarrow> ResourceAssignment \<Rightarrow> AssignMap \<Rightarrow> AssignMap" where
  "am_insert p a [] = [(p, a)]"
| "am_insert p a (e # m) = (if Path_lt p (fst e) then (p, a) # e # m else e # am_insert p a m)"

text \<open>\<open>m[p] = a\<close> keeps the key that is already there; \<open>emplace\<close> keeps key and value.\<close>

definition am_set :: "ResourcePath \<Rightarrow> ResourceAssignment \<Rightarrow> AssignMap \<Rightarrow> AssignMap" where
  "am_set p a m =
     (if list_ex (\<lambda>e. path_equiv (fst e) p) m
      then map (\<lambda>e. if path_equiv (fst e) p then (fst e, a) else e) m
      else am_insert p a m)"

definition am_emplace :: "ResourcePath \<Rightarrow> ResourceAssignment \<Rightarrow> AssignMap \<Rightarrow> AssignMap" where
  "am_emplace p a m = (if list_ex (\<lambda>e. path_equiv (fst e) p) m then m else am_insert p a m)"

definition am_erase :: "ResourcePath \<Rightarrow> AssignMap \<Rightarrow> AssignMap" where
  "am_erase p m = filter (\<lambda>e. \<not> path_equiv (fst e) p) m"

lemma path_equiv_refl [simp]: "path_equiv p p"
proof -
  have "\<not> Path_lt_loop ris ris" for ris
    by (induction ris) (simp_all add: ResourceIdentifier_lt_def)
  then show ?thesis by (simp add: path_equiv_def Path_lt_def)
qed

lemma am_insert_set: "set (am_insert p a m) = insert (p, a) (set m)"
  by (induction p a m rule: am_insert.induct) auto

lemma am_find_set_same: "am_find (am_set p a m) p = Some a"
proof (cases "list_ex (\<lambda>e. path_equiv (fst e) p) m")
  case True
  have "list_ex (\<lambda>e. path_equiv (fst e) p) m \<Longrightarrow>
      map_option snd (List.find (\<lambda>e. path_equiv (fst e) p)
        (map (\<lambda>e. if path_equiv (fst e) p then (fst e, a) else e) m)) = Some a"
    by (induction m) auto
  with True show ?thesis by (simp add: am_set_def am_find_def)
next
  case False
  have "\<not> list_ex (\<lambda>e. path_equiv (fst e) p) m \<Longrightarrow>
      List.find (\<lambda>e. path_equiv (fst e) p) (am_insert p a m) = Some (p, a)"
    by (induction p a m rule: am_insert.induct) auto
  with False show ?thesis by (simp add: am_set_def am_find_def)
qed

section \<open>The mask of an assignment\<close>

text \<open>The mask holds the numbers of the resources of the list.\<close>

definition mask_ok :: "int \<Rightarrow> RHeap \<Rightarrow> ResourceAssignment \<Rightarrow> bool" where
  "mask_ok mx H a \<longleftrightarrow>
     bs_ok mx (ra_mask a) \<and> bs_set (ra_mask a) = (\<lambda>r. ri_id (ident_of H r)) ` set (ra_resources a)"

lemma set_resources_loop_mask:
  assumes "mask_ok mx H a" "\<forall>r\<in>set rs. 0 \<le> ri_id (ident_of H r) \<and> ri_id (ident_of H r) \<le> mx"
  shows "\<exists>a'. set_resources_loop mx H rs a = Inr a' \<and> mask_ok mx H a' \<and>
    ra_resources a' = ra_resources a @ rs \<and> ra_amount a' = ra_amount a \<and> fill_policy a' = fill_policy a"
  using assms
proof (induction rs arbitrary: a)
  case (Cons r rs)
  let ?i = "ri_id (ident_of H r)"
  obtain m where m: "Bitset_Set mx ?i (ra_mask a) = Inr (BITSET_OK, m)" "bs_ok mx m"
    "bs_set m = insert ?i (bs_set (ra_mask a))"
    using Bitset_Set_in_range [of mx "ra_mask a" ?i] Cons.prems by (auto simp: mask_ok_def)
  let ?a = "a\<lparr>ra_resources := ra_resources a @ [r], ra_mask := m\<rparr>"
  have "mask_ok mx H ?a" using Cons.prems(1) m by (auto simp: mask_ok_def)
  from Cons.IH [OF this] Cons.prems(2) m show ?case by auto
qed simp

lemma set_resources_by_mask_loop_mask:
  assumes "mask_ok mx H a" "bs_ok mx f"
    "\<forall>r\<in>set rs. 0 \<le> ri_id (ident_of H r) \<and> ri_id (ident_of H r) \<le> mx"
  shows "\<exists>a'. set_resources_by_mask_loop mx H rs f a = Inr a' \<and> mask_ok mx H a' \<and>
    ra_resources a' = ra_resources a @ filter (\<lambda>r. ri_id (ident_of H r) \<in> bs_set f) rs"
  using assms
proof (induction rs arbitrary: a)
  case (Cons r rs)
  let ?i = "ri_id (ident_of H r)"
  have test: "Bitset_Test f ?i = Inr (?i \<in> bs_set f)"
    using Test_bs_set [OF assms(2)] Cons.prems(3) by simp
  obtain m where m: "Bitset_Set mx ?i (ra_mask a) = Inr (BITSET_OK, m)" "bs_ok mx m"
    "bs_set m = insert ?i (bs_set (ra_mask a))"
    using Bitset_Set_in_range [of mx "ra_mask a" ?i] Cons.prems by (auto simp: mask_ok_def)
  let ?a = "a\<lparr>ra_resources := ra_resources a @ [r], ra_mask := m\<rparr>"
  have "mask_ok mx H ?a" using Cons.prems(1) m by (auto simp: mask_ok_def)
  then show ?case using Cons.IH [of ?a] Cons.IH [of a] Cons.prems test m by auto
qed simp

lemma mask_ok_cleared:
  "bs_ok mx (ra_mask a) \<Longrightarrow> mask_ok mx H (a\<lparr>ra_resources := [], ra_mask := Bitset_Reset (ra_mask a)\<rparr>)"
  by (simp add: mask_ok_def)

text \<open>C35: giving an assignment its list of resources. When every resource has a number in range,
  both \<open>SetResourcesList\<close> without a type filter return; the assignment then holds the list, or
  the members of it whose number is in the filter, and its mask is the set of their numbers.\<close>

theorem set_resources_list_mask:
  assumes "bs_ok mx (ra_mask a)" "bs_ok mx f" "rs \<noteq> []"
    "\<forall>r\<in>set rs. 0 \<le> ri_id (ident_of H r) \<and> ri_id (ident_of H r) \<le> mx"
  shows "(\<exists>b. SetResourcesList mx H rs a = Inr b \<and> ra_resources b = rs \<and>
            bs_set (ra_mask b) = (\<lambda>r. ri_id (ident_of H r)) ` set rs) \<and>
    (\<exists>b. SetResourcesList_by_mask mx H rs f a = Inr b \<and>
       ra_resources b = filter (\<lambda>r. ri_id (ident_of H r) \<in> bs_set f) rs \<and>
       bs_set (ra_mask b) = (\<lambda>r. ri_id (ident_of H r)) ` set rs \<inter> bs_set f)"
  using set_resources_loop_mask [OF mask_ok_cleared [OF assms(1)] assms(4)]
    set_resources_by_mask_loop_mask [OF mask_ok_cleared [OF assms(1)] assms(2,4)] assms(3)
  by (auto simp: SetResourcesList_def SetResourcesList_by_mask_def mask_ok_def)

theorem set_resources_list_mask_witness:
  "\<exists>b. SetResourcesList 31 heap0 [0] (ResourceAssignment_new 31 50 SEQUENTIAL) = Inr b \<and>
     ra_resources b = [0] \<and> bs_set (ra_mask b) = {0}"
proof -
  have "ri_id (ident_of heap0 0) = 0" by code_simp
  moreover have "bs_ok 31 (ra_mask (ResourceAssignment_new 31 50 SEQUENTIAL))"
    by (simp add: ResourceAssignment_new_def)
  ultimately show ?thesis
    using set_resources_list_mask [of 31 "ResourceAssignment_new 31 50 SEQUENTIAL" "ResourceBitset_new 31"
        "[0]" heap0] by auto
qed

text \<open>The overload with a type filter leaves the mask empty, whatever it puts in the list,
  although the mask is documented as the numbers of the resources of the assignment.\<close>

theorem type_filter_leaves_mask_empty:
  assumes "rs \<noteq> []" "SetResourcesList_by_type H rs t f a = Inr b"
  shows "bs_set (ra_mask b) = {}"
proof -
  have "set_resources_by_type_loop H rs t f a = Inr b \<Longrightarrow> ra_mask b = ra_mask a" for rs a
  proof (induction H rs t f a rule: set_resources_by_type_loop.induct)
    case (2 H r rs t f a)
    then show ?case by (auto simp: fault_simps split: if_splits)
  qed simp
  then show ?thesis using assms by (fastforce simp: SetResourcesList_by_type_def)
qed

theorem type_filter_leaves_mask_empty_witness:
  "\<exists>b. SetResourcesList_by_type heap0 [0] CPU (ResourceBitset_new 31)
      (ResourceAssignment_new 31 50 SEQUENTIAL) = Inr b \<and> ra_resources b = [0] \<and> bs_set (ra_mask b) = {}"
proof -
  have "ri_type (ident_of heap0 0) = UNDEFINED" by code_simp
  then obtain b where "SetResourcesList_by_type heap0 [0] CPU (ResourceBitset_new 31)
      (ResourceAssignment_new 31 50 SEQUENTIAL) = Inr b" "ra_resources b = [0]"
    by (simp add: SetResourcesList_by_type_def)
  then show ?thesis using type_filter_leaves_mask_empty by blast
qed

end
