(* ===== verification/Accounter_State.thy ===== *)
theory Accounter_State
  imports Resource_Assign
begin

unbundle bit_operations_syntax

text \<open>
  \<open>ResourceAccounter\<close> (\<^verbatim>\<open>include/bbque/resource_accounter.h\<close>,
  \<^verbatim>\<open>bbque/resource_accounter.cc\<close>): its state, the access to descriptors, the queries, and the
  registration, reservation and on/off-lining of resources. Booking and views are in
  \<open>Accounter_Booking\<close> and \<open>Accounter_Views\<close>.

  The maps from applications to assignments are shared between the views table and the system
  view, so they are objects of a store of their own. A call that waits for the platform to be
  ready, and would be suspended, ends in \<open>WouldBlock\<close>. Assertions are those of a build
  without them (\<open>NDEBUG\<close>): the code after each assertion is the code that runs.
\<close>

section \<open>State\<close>

datatype RAExitCode =
    RA_SUCCESS | RA_FAILED | RA_ERR_MISS_PATH | RA_ERR_MEM | RA_ERR_MISS_VIEW
  | RA_ERR_UNAUTH_VIEW | RA_ERR_MISS_APP | RA_ERR_MISS_USAGES | RA_ERR_MISS_AWM
  | RA_ERR_APP_USAGES | RA_ERR_USAGE_EXC | RA_ERR_NOT_REGISTERED | RA_ERR_INVALID_PATH
  | RA_ERR_OVERFLOW | RA_ERR_SYNC_INIT | RA_ERR_SYNC_VIEW | RA_ERR_SYNC_START

datatype RAState = RA_NOT_READY | RA_READY | RA_SYNC

datatype QueryOption = RA_AVAIL | RA_USED | RA_UNRESERVED | RA_TOTAL

type_synonym aptr = nat
type_synonym AppAssignments = "(AppUid, AssignMap) omap"

record SyncSession =
  ss_view :: RViewToken
  ss_count :: u32

record ResourceAccounter =
  ra_status :: RAState
  ra_heap :: RHeap
  ra_tree :: ResourceTree
  r_paths :: "string \<rightharpoonup> ResourcePath"
  resource_set :: "rptr set"
  r_ids_per_type :: "ResourceType \<rightharpoonup> rid set"
  path_max_len :: u8
  assign_objs :: "aptr \<Rightarrow> AppAssignments"
  assign_next :: aptr
  assign_per_views :: "RViewToken \<rightharpoonup> aptr"
  rsrc_per_views :: "RViewToken \<rightharpoonup> rptr set"
  sys_assign_view :: aptr
  sys_view_token :: RViewToken
  sch_view_token :: RViewToken
  sync_ssn :: SyncSession

definition ResourceAccounter_new :: "int \<Rightarrow> RHeap \<Rightarrow> ResourceAccounter" where
  "ResourceAccounter_new mx H =
     (let (t, H') = ResourceTree_new mx H in
      \<lparr>ra_status = RA_NOT_READY, ra_heap = H', ra_tree = t, r_paths = Map.empty, resource_set = {},
       r_ids_per_type = Map.empty, path_max_len = 0, assign_objs = (\<lambda>_. []), assign_next = 1,
       assign_per_views = [0 \<mapsto> 0], rsrc_per_views = [0 \<mapsto> {}], sys_assign_view = 0,
       sys_view_token = 0, sch_view_token = 0, sync_ssn = \<lparr>ss_view = 0, ss_count = 0\<rparr>\<rparr>)"

abbreviation robj_of :: "ResourceAccounter \<Rightarrow> rptr \<Rightarrow> Resource" where
  "robj_of ra p \<equiv> robj (ra_heap ra) p"

definition upd_res :: "rptr \<Rightarrow> (Resource \<Rightarrow> Resource) \<Rightarrow> ResourceAccounter \<Rightarrow> ResourceAccounter" where
  "upd_res p f ra = ra\<lparr>ra_heap := (ra_heap ra)\<lparr>robj := hupd p f (robj (ra_heap ra))\<rparr>\<rparr>"

section \<open>State synchronisation\<close>

definition Synching :: "ResourceAccounter \<Rightarrow> bool" where
  "Synching ra \<longleftrightarrow> ra_status ra = RA_SYNC"

definition SetState :: "RAState \<Rightarrow> ResourceAccounter \<Rightarrow> ResourceAccounter" where
  "SetState s ra = ra\<lparr>ra_status := s\<rparr>"

definition SetPlatformReady :: "ResourceAccounter \<Rightarrow> fault + ResourceAccounter" where
  "SetPlatformReady ra = (if ra_status ra = RA_SYNC then Inl WouldBlock else Inr (SetState RA_READY ra))"

definition SetPlatformNotReady :: "ResourceAccounter \<Rightarrow> fault + ResourceAccounter" where
  "SetPlatformNotReady ra = (if ra_status ra = RA_SYNC then Inl WouldBlock else Inr (SetState RA_NOT_READY ra))"

definition WaitForPlatformReady :: "ResourceAccounter \<Rightarrow> fault + unit" where
  "WaitForPlatformReady ra = (if ra_status ra \<noteq> RA_READY then Inl WouldBlock else Inr ())"

section \<open>Access to descriptors\<close>

definition ExistResource_path :: "ResourcePath \<Rightarrow> ResourceAccounter \<Rightarrow> bool" where
  "ExistResource_path p ra \<longleftrightarrow>
     find_list (RT_MATCH_TYPE OR RT_MATCH_FIRST) (ra_heap ra) p (ra_tree ra) \<noteq> []"

definition GetPath :: "int \<Rightarrow> string \<Rightarrow> ResourceAccounter \<Rightarrow> ResourcePath option \<times> ResourceAccounter" where
  "GetPath mx strpath ra =
     (case r_paths ra strpath of
        Some p \<Rightarrow> (Some p, ra)
      | None \<Rightarrow>
          let new_path = ResourcePath_new mx strpath in
          if ExistResource_path new_path ra
          then (Some new_path, ra\<lparr>r_paths := (r_paths ra)(strpath \<mapsto> new_path)\<rparr>)
          else (None, ra))"

definition ExistResource :: "int \<Rightarrow> string \<Rightarrow> ResourceAccounter \<Rightarrow> fault + bool \<times> ResourceAccounter" where
  "ExistResource mx strpath ra =
     (case GetPath mx strpath ra of
        (None, ra') \<Rightarrow> Inl NullDeref
      | (Some p, ra') \<Rightarrow> Inr (ExistResource_path p ra', ra'))"

definition GetResource_path :: "ResourcePath \<Rightarrow> ResourceAccounter \<Rightarrow> rptr option" where
  "GetResource_path p ra =
     (case find_list (RT_MATCH_FIRST OR RT_MATCH_MIXED) (ra_heap ra) p (ra_tree ra) of
        [] \<Rightarrow> None
      | r # _ \<Rightarrow> Some r)"

definition GetResource :: "int \<Rightarrow> string \<Rightarrow> ResourceAccounter \<Rightarrow> rptr option \<times> ResourceAccounter" where
  "GetResource mx strpath ra =
     (case GetPath mx strpath ra of
        (None, ra') \<Rightarrow> (None, ra')
      | (Some p, ra') \<Rightarrow> (GetResource_path p ra', ra'))"

definition GetResources_path :: "ResourcePath \<Rightarrow> ResourceAccounter \<Rightarrow> rptr list" where
  "GetResources_path p ra =
     (if Path_IsTemplate p then find_list RT_MATCH_TYPE (ra_heap ra) p (ra_tree ra)
      else find_list RT_MATCH_MIXED (ra_heap ra) p (ra_tree ra))"

definition GetResources :: "int \<Rightarrow> string \<Rightarrow> ResourceAccounter \<Rightarrow> rptr list \<times> ResourceAccounter" where
  "GetResources mx strpath ra =
     (case GetPath mx strpath ra of
        (None, ra') \<Rightarrow> ([], ra')
      | (Some p, ra') \<Rightarrow> (GetResources_path p ra', ra'))"

fun RTFlags :: "PathClass \<Rightarrow> u16" where
  "RTFlags RP_EXACT = RT_MATCH_FIRST"
| "RTFlags RP_MIXED = RT_MATCH_MIXED"
| "RTFlags RP_TEMPLATE = RT_MATCH_TYPE"
| "RTFlags RP_UNDEFINED = 0"

definition GetList :: "ResourcePath \<Rightarrow> PathClass \<Rightarrow> ResourceAccounter \<Rightarrow> rptr list" where
  "GetList p rpc ra =
     (if rpc = RP_UNDEFINED then GetResources_path p ra
      else find_list (RTFlags rpc) (ra_heap ra) p (ra_tree ra))"

section \<open>Queries\<close>

fun query_value :: "QueryOption \<Rightarrow> RViewToken \<Rightarrow> RViewToken \<Rightarrow> AppUid option \<Rightarrow> Resource \<Rightarrow> u64" where
  "query_value RA_AVAIL sysv status_view papp r = Available sysv papp status_view r"
| "query_value RA_USED sysv status_view papp r = Used sysv status_view r"
| "query_value RA_UNRESERVED sysv status_view papp r = Unreserved r"
| "query_value RA_TOTAL sysv status_view papp r = total r"

fun QueryStatus_loop :: "QueryOption \<Rightarrow> RViewToken \<Rightarrow> AppUid option \<Rightarrow> ResourceAccounter \<Rightarrow> rptr list \<Rightarrow> u64 \<Rightarrow> u64" where
  "QueryStatus_loop att status_view papp ra [] v = v"
| "QueryStatus_loop att status_view papp ra (r # rs) v =
     QueryStatus_loop att status_view papp ra rs
       (v + query_value att (sys_view_token ra) status_view papp (robj_of ra r))"

definition QueryStatus :: "rptr list \<Rightarrow> QueryOption \<Rightarrow> RViewToken \<Rightarrow> AppUid option \<Rightarrow> ResourceAccounter \<Rightarrow> u64" where
  "QueryStatus rs att status_view papp ra = QueryStatus_loop att status_view papp ra rs 0"

definition Total_str :: "int \<Rightarrow> string \<Rightarrow> ResourceAccounter \<Rightarrow> u64 \<times> ResourceAccounter" where
  "Total_str mx path ra = (let (rs, ra') = GetResources mx path ra in (QueryStatus rs RA_TOTAL 0 None ra', ra'))"

definition Total_list :: "rptr list \<Rightarrow> ResourceAccounter \<Rightarrow> u64" where
  "Total_list rs ra = (if rs = [] then 0 else QueryStatus rs RA_TOTAL 0 None ra)"

definition Total_path :: "ResourcePath \<Rightarrow> PathClass \<Rightarrow> ResourceAccounter \<Rightarrow> u64" where
  "Total_path p rpc ra = QueryStatus (GetList p rpc ra) RA_TOTAL 0 None ra"

definition Used_str :: "int \<Rightarrow> string \<Rightarrow> RViewToken \<Rightarrow> ResourceAccounter \<Rightarrow> u64 \<times> ResourceAccounter" where
  "Used_str mx path v ra = (let (rs, ra') = GetResources mx path ra in (QueryStatus rs RA_USED v None ra', ra'))"

definition Used_list :: "rptr list \<Rightarrow> RViewToken \<Rightarrow> ResourceAccounter \<Rightarrow> u64" where
  "Used_list rs v ra = (if rs = [] then 0 else QueryStatus rs RA_USED v None ra)"

definition Used_path :: "ResourcePath \<Rightarrow> PathClass \<Rightarrow> RViewToken \<Rightarrow> ResourceAccounter \<Rightarrow> u64" where
  "Used_path p rpc v ra = QueryStatus (GetList p rpc ra) RA_USED v None ra"

definition Available_str :: "int \<Rightarrow> string \<Rightarrow> RViewToken \<Rightarrow> AppUid option \<Rightarrow> ResourceAccounter \<Rightarrow> u64 \<times> ResourceAccounter" where
  "Available_str mx path v papp ra =
     (let (rs, ra') = GetResources mx path ra in (QueryStatus rs RA_AVAIL v papp ra', ra'))"

definition Available_list :: "rptr list \<Rightarrow> RViewToken \<Rightarrow> AppUid option \<Rightarrow> ResourceAccounter \<Rightarrow> u64" where
  "Available_list rs v papp ra = (if rs = [] then 0 else QueryStatus rs RA_AVAIL v papp ra)"

definition Available_path :: "ResourcePath \<Rightarrow> PathClass \<Rightarrow> RViewToken \<Rightarrow> AppUid option \<Rightarrow> ResourceAccounter \<Rightarrow> u64" where
  "Available_path p rpc v papp ra = QueryStatus (GetList p rpc ra) RA_AVAIL v papp ra"

definition Unreserved_str :: "int \<Rightarrow> string \<Rightarrow> ResourceAccounter \<Rightarrow> u64 \<times> ResourceAccounter" where
  "Unreserved_str mx path ra =
     (let (rs, ra') = GetResources mx path ra in (QueryStatus rs RA_UNRESERVED 0 None ra', ra'))"

definition Unreserved_list :: "rptr list \<Rightarrow> ResourceAccounter \<Rightarrow> u64" where
  "Unreserved_list rs ra = (if rs = [] then 0 else QueryStatus rs RA_UNRESERVED 0 None ra)"

definition Unreserved_path :: "ResourcePath \<Rightarrow> ResourceAccounter \<Rightarrow> u64" where
  "Unreserved_path p ra = QueryStatus (GetList p RP_MIXED ra) RA_UNRESERVED 0 None ra"

definition ra_Count :: "ResourcePath \<Rightarrow> ResourceAccounter \<Rightarrow> u16" where
  "ra_Count p ra = of_nat (length (GetResources_path p ra))"

definition CountPerType :: "ResourceType \<Rightarrow> ResourceAccounter \<Rightarrow> u16" where
  "CountPerType type ra = (case r_ids_per_type ra type of None \<Rightarrow> 0 | Some ids \<Rightarrow> of_nat (card ids))"

text \<open>The amount of a type of resource that an application uses, from its assignments.\<close>

definition in_scope :: "ResourceType \<Rightarrow> ResourcePath \<Rightarrow> fault + bool" where
  "in_scope scope_type p =
     (if scope_type \<noteq> UNDEFINED
      then seq_fault (Path_GetIdentifier scope_type p) (\<lambda>ident. Inr (ident \<noteq> None))
      else Inr True)"

definition scope_id_matches :: "ResourceType \<Rightarrow> rid \<Rightarrow> ResourcePath \<Rightarrow> fault + bool" where
  "scope_id_matches scope_type scope_id p =
     (if scope_id \<ge> 0 then seq_fault (Path_GetID scope_type p) (\<lambda>i. Inr (scope_id = i)) else Inr True)"

fun assigned_in_list :: "int \<Rightarrow> AppUid \<Rightarrow> RViewToken \<Rightarrow> ResourceType \<Rightarrow> ResourceType \<Rightarrow> rid \<Rightarrow> rptr list \<Rightarrow>
    ResourceAccounter \<Rightarrow> u64 \<Rightarrow> fault + u64 \<times> ResourceAccounter" where
  "assigned_in_list mx uid v r_type scope_type scope_id [] ra amount = Inr (amount, ra)"
| "assigned_in_list mx uid v r_type scope_type scope_id (r # rs) ra amount =
     (case GetPath mx (rs_path (robj_of ra r)) ra of
        (None, _) \<Rightarrow> Inl NullDeref
      | (Some p, ra') \<Rightarrow>
          seq_fault (scope_id_matches scope_type scope_id p) (\<lambda>same_id.
            if \<not> same_id
            then assigned_in_list mx uid v r_type scope_type scope_id rs ra' amount
            else seq_fault (Path_Type 0 p) (\<lambda>t.
              assigned_in_list mx uid v r_type scope_type scope_id rs ra'
                (if t \<noteq> r_type then amount
                 else amount + ApplicationUsage (sys_view_token ra') (Some uid) v (robj_of ra' r)))))"

fun assigned_in_map :: "int \<Rightarrow> AppUid \<Rightarrow> RViewToken \<Rightarrow> ResourceType \<Rightarrow> ResourceType \<Rightarrow> rid \<Rightarrow> AssignMap \<Rightarrow>
    ResourceAccounter \<Rightarrow> u64 \<Rightarrow> fault + u64 \<times> ResourceAccounter" where
  "assigned_in_map mx uid v r_type scope_type scope_id [] ra amount = Inr (amount, ra)"
| "assigned_in_map mx uid v r_type scope_type scope_id ((p, a) # m) ra amount =
     seq_fault (in_scope scope_type p) (\<lambda>inside.
       if \<not> inside then assigned_in_map mx uid v r_type scope_type scope_id m ra amount
       else seq_fault (assigned_in_list mx uid v r_type scope_type scope_id (ra_resources a) ra amount)
         (\<lambda>(amount', ra'). assigned_in_map mx uid v r_type scope_type scope_id m ra' amount'))"

definition GetAssignedAmount :: "int \<Rightarrow> AssignMap option \<Rightarrow> AppUid \<Rightarrow> RViewToken \<Rightarrow> ResourceType \<Rightarrow>
    ResourceType \<Rightarrow> rid \<Rightarrow> ResourceAccounter \<Rightarrow> fault + u64 \<times> ResourceAccounter" where
  "GetAssignedAmount mx assign_map uid v r_type scope_type scope_id ra =
     (case assign_map of
        None \<Rightarrow> Inr (0, ra)
      | Some m \<Rightarrow> assigned_in_map mx uid v r_type scope_type scope_id m ra 0)"

text \<open>The same from the amounts requested.\<close>

fun GetRequestedAmount :: "AssignMap \<Rightarrow> ResourceType \<Rightarrow> ResourceType \<Rightarrow> rid \<Rightarrow> u64 \<Rightarrow> fault + u64" where
  "GetRequestedAmount [] r_type scope_type scope_id amount = Inr amount"
| "GetRequestedAmount ((p, a) # m) r_type scope_type scope_id amount =
     seq_fault (in_scope scope_type p) (\<lambda>inside.
       if \<not> inside then GetRequestedAmount m r_type scope_type scope_id amount
       else seq_fault (scope_id_matches scope_type scope_id p) (\<lambda>same_id.
         if \<not> same_id then GetRequestedAmount m r_type scope_type scope_id amount
         else seq_fault (Path_Type 0 p) (\<lambda>t.
           GetRequestedAmount m r_type scope_type scope_id
             (if t \<noteq> r_type then amount else amount + ra_amount a))))"

fun CheckAvailability :: "AssignMap \<Rightarrow> RViewToken \<Rightarrow> AppUid option \<Rightarrow> ResourceAccounter \<Rightarrow> RAExitCode" where
  "CheckAvailability [] status_view papp ra = RA_SUCCESS"
| "CheckAvailability ((p, a) # m) status_view papp ra =
     (if QueryStatus (ra_resources a) RA_AVAIL status_view papp ra < ra_amount a then RA_ERR_USAGE_EXC
      else CheckAvailability m status_view papp ra)"

definition GetAppAssignmentsByView :: "RViewToken \<Rightarrow> ResourceAccounter \<Rightarrow> RAExitCode + aptr" where
  "GetAppAssignmentsByView status_view ra =
     (if status_view = 0 then Inr (sys_assign_view ra)
      else case assign_per_views ra status_view of
        None \<Rightarrow> Inl RA_ERR_MISS_VIEW
      | Some a \<Rightarrow> Inr a)"

section \<open>Resource management\<close>

definition RegisterResource :: "int \<Rightarrow> string \<Rightarrow> string \<Rightarrow> u64 \<Rightarrow> ResourceAccounter \<Rightarrow> rptr \<times> ResourceAccounter" where
  "RegisterResource mx strpath units amount ra =
     (let p = ResourcePath_new mx strpath;
          (r, t, H) = tree_insert mx p (ra_tree ra) (ra_heap ra);
          ra1 = upd_res r (\<lambda>x. SetPath strpath (SetTotal (ConvertValue amount units) x))
                  (ra\<lparr>ra_tree := t, ra_heap := H\<rparr>)
      in (r, ra1\<lparr>
            resource_set := insert r (resource_set ra1),
            r_paths := (case r_paths ra1 strpath of None \<Rightarrow> (r_paths ra1)(strpath \<mapsto> p) | Some _ \<Rightarrow> r_paths ra1),
            path_max_len := of_nat (max (unat (path_max_len ra1)) (length strpath)),
            r_ids_per_type := foldl (\<lambda>m ri. m(ri_type ri \<mapsto>
                case m (ri_type ri) of None \<Rightarrow> {ri_id ri} | Some ids \<Rightarrow> insert (ri_id ri) ids))
              (r_ids_per_type ra1) (identifiers p)\<rparr>))"

fun reserve_loop :: "u64 \<Rightarrow> rptr list \<Rightarrow> ResourceAccounter \<Rightarrow> RAExitCode \<times> ResourceAccounter" where
  "reserve_loop amount [] ra = (RA_SUCCESS, ra)"
| "reserve_loop amount (r # rs) ra =
     (let (rresult, x) = Reserve amount (robj_of ra r); ra' = upd_res r (\<lambda>_. x) ra
      in if rresult \<noteq> RS_SUCCESS then (RA_FAILED, ra') else reserve_loop amount rs ra')"

definition ReserveResources_path :: "ResourcePath \<Rightarrow> u64 \<Rightarrow> ResourceAccounter \<Rightarrow> RAExitCode \<times> ResourceAccounter" where
  "ReserveResources_path p amount ra =
     (let rs = find_list RT_MATCH_MIXED (ra_heap ra) p (ra_tree ra)
      in if rs = [] then (RA_FAILED, ra) else reserve_loop amount rs ra)"

definition ReserveResources :: "int \<Rightarrow> string \<Rightarrow> u64 \<Rightarrow> ResourceAccounter \<Rightarrow> RAExitCode \<times> ResourceAccounter" where
  "ReserveResources mx path amount ra =
     (case GetPath mx path ra of
        (None, ra') \<Rightarrow> (RA_ERR_INVALID_PATH, ra')
      | (Some p, ra') \<Rightarrow> ReserveResources_path p amount ra')"

definition UpdateResource :: "int \<Rightarrow> string \<Rightarrow> string \<Rightarrow> u64 \<Rightarrow> ResourceAccounter \<Rightarrow>
    fault + RAExitCode \<times> ResourceAccounter" where
  "UpdateResource mx path units amount ra =
     (case GetPath mx path ra of
        (None, ra0) \<Rightarrow> Inr (RA_ERR_INVALID_PATH, ra0)
      | (Some p, ra0) \<Rightarrow>
          (case GetResource_path p ra0 of
             None \<Rightarrow> Inr (RA_ERR_NOT_REGISTERED, ra0)
           | Some r \<Rightarrow>
               seq_fault (WaitForPlatformReady ra0) (\<lambda>_.
                 let ra1 = SetState RA_NOT_READY ra0;
                     ra2 = (if amount = 0 then upd_res r SetOffline ra1 else ra1);
                     availability = ConvertValue amount units
                 in if total (robj_of ra2 r) < availability
                    then Inr (RA_ERR_OVERFLOW, SetState RA_READY ra2)
                    else
                      let reserved = total (robj_of ra2 r) - availability;
                          (_, ra3) = ReserveResources_path p reserved ra2;
                          ra4 = upd_res r SetOnline ra3
                      in Inr (RA_SUCCESS, SetState RA_READY ra4))))"

definition IsOfflineResource :: "ResourcePath \<Rightarrow> ResourceAccounter \<Rightarrow> bool" where
  "IsOfflineResource p ra =
     (let rs = find_list RT_MATCH_MIXED (ra_heap ra) p (ra_tree ra)
      in if rs = [] then True else list_all (\<lambda>r. offline (robj_of ra r)) rs)"

fun upd_all :: "(Resource \<Rightarrow> Resource) \<Rightarrow> rptr list \<Rightarrow> ResourceAccounter \<Rightarrow> ResourceAccounter" where
  "upd_all f [] ra = ra"
| "upd_all f (r # rs) ra = upd_all f rs (upd_res r f ra)"

definition OfflineResources :: "int \<Rightarrow> string \<Rightarrow> ResourceAccounter \<Rightarrow> RAExitCode \<times> ResourceAccounter" where
  "OfflineResources mx path ra =
     (let (rs, ra') = GetResources mx path ra
      in if rs = [] then (RA_FAILED, ra') else (RA_SUCCESS, upd_all SetOffline rs ra'))"

definition OnlineResources :: "int \<Rightarrow> string \<Rightarrow> ResourceAccounter \<Rightarrow> RAExitCode \<times> ResourceAccounter" where
  "OnlineResources mx path ra =
     (let (rs, ra') = GetResources mx path ra
      in if rs = [] then (RA_FAILED, ra') else (RA_SUCCESS, upd_all SetOnline rs ra'))"

text \<open>The \<open>set_total\<close> command: the number is read as a signed integer and widened.\<close>

definition SetResourceTotalHandler :: "int \<Rightarrow> string \<Rightarrow> string \<Rightarrow> ResourceAccounter \<Rightarrow> fault + int \<times> ResourceAccounter" where
  "SetResourceTotalHandler mx r_path arg ra =
     seq_fault (UpdateResource mx r_path [] (word_of_int (atoi arg)) ra) (\<lambda>(ra_result, ra').
       Inr (if ra_result \<noteq> RA_SUCCESS then (2, ra') else (0, ra')))"

section \<open>The invariant of the registry\<close>

definition acc_ok :: "int \<Rightarrow> ResourceAccounter \<Rightarrow> bool" where
  "acc_ok mx ra \<longleftrightarrow>
     tree_ok (ra_heap ra) (ra_tree ra) \<and>
     (\<forall>a. resource_ok (robj_of ra a)) \<and>
     (\<forall>s p. r_paths ra s = Some p \<longrightarrow> p = ResourcePath_new mx s)"

text \<open>A path that names one resource: every level has a type and a number.\<close>

definition numbered_path :: "ResourcePath \<Rightarrow> bool" where
  "numbered_path p \<longleftrightarrow> typed_path p \<and> (\<forall>ri\<in>set (identifiers p). 0 \<le> ri_id ri)"

lemma mixed_flags:
  "RT_MATCH_FIRST OR RT_MATCH_MIXED = 5" "RT_MATCH_TYPE OR RT_MATCH_FIRST = 3"
  by (simp_all add: RT_MATCH_FIRST_def RT_MATCH_MIXED_def RT_MATCH_TYPE_def)

lemma mixed_matches_numbered:
  assumes "0 \<le> ri_id p" "fl AND RT_MATCH_MIXED \<noteq> 0"
  shows "child_matches fl H p c = child_matches RT_MATCH_FIRST H p c"
  using assms by (auto simp: child_matches_def skip_child_def RT_MATCH_FIRST_def RT_MATCH_MIXED_def
      RT_MATCH_TYPE_def)

lemma find_first_mixed_numbered:
  assumes "numbered_path p"
  shows "find_list (RT_MATCH_FIRST OR RT_MATCH_MIXED) H p t = find_list RT_MATCH_FIRST H p t"
proof -
  have "find_node (RT_MATCH_FIRST OR RT_MATCH_MIXED) H (identifiers p) (root t) (0, [], False) =
      find_node RT_MATCH_FIRST H (identifiers p) (root t) (0, [], False)"
  proof (rule find_node_flags(1))
    show "child_matches (RT_MATCH_FIRST OR RT_MATCH_MIXED) H q c = child_matches RT_MATCH_FIRST H q c"
      if "q \<in> set (identifiers p)" for q c
      using assms that
      by (intro mixed_matches_numbered) (auto simp: numbered_path_def mixed_flags RT_MATCH_MIXED_def)
  qed (simp add: mixed_flags RT_MATCH_FIRST_def)
  then show ?thesis by (simp add: find_list_def)
qed

lemma find_ref_flags:
  "(\<And>p c. p \<in> set ps \<Longrightarrow> child_matches fl H p c = child_matches fl' H p c) \<Longrightarrow>
     find_ref fl H ps n = find_ref fl' H ps n"
proof (induction ps arbitrary: n)
  case (Cons p ps)
  have "match_out fl H p ps c = match_out fl' H p ps c" for c
    using Cons.prems [of p c] Cons.IH [of c] Cons.prems by (simp add: match_out_def)
  then have "match_out fl H p ps = match_out fl' H p ps" by (rule ext)
  then show ?case by (simp add: find_ref_Cons)
qed simp

text \<open>On a numbered path the search by mixed matching returns all exact matchings, which is the
  one descriptor there is.\<close>

lemma no_short_match_found:
  assumes "node_wf H n" "\<forall>q\<in>set ps. ri_type q \<noteq> UNDEFINED" "find_ref RT_MATCH_FIRST H ps n \<noteq> []"
  shows "no_short_match RT_MATCH_FIRST H ps n"
  using assms
proof (induction ps arbitrary: n)
  case (Cons p ps)
  have "nd_children c \<noteq> [] \<and> no_short_match RT_MATCH_FIRST H ps c"
    if c: "c \<in> set (nd_children n)" "child_matches RT_MATCH_FIRST H p c" "ps \<noteq> []" for c
  proof -
    have wf: "node_wf H c" "ri_type (node_ident H c) \<noteq> UNDEFINED"
      using Cons.prems(1) c(1) by (cases n; auto)+
    then have "ident_key (node_ident H c) = ident_key p"
      using exact_matches Cons.prems(2) c(2) by simp
    then have "find_ref RT_MATCH_FIRST H ps c \<noteq> []"
      using find_ref_exact_child [OF Cons.prems(1) _ c(1)] Cons.prems(2,3) c(3) by simp
    then show ?thesis using Cons.IH wf(1) Cons.prems(2) find_ref_leaf by fastforce
  qed
  then show ?case by simp
qed simp

lemma no_short_match_flags:
  "(\<And>p c. p \<in> set ps \<Longrightarrow> child_matches fl H p c = child_matches fl' H p c) \<Longrightarrow>
     no_short_match fl H ps n = no_short_match fl' H ps n"
proof (induction ps arbitrary: n)
  case (Cons p ps)
  then show ?case by simp
qed simp

lemma find_mixed_numbered:
  assumes "tree_ok H t" "numbered_path p" "find_list RT_MATCH_FIRST H p t = [r]"
  shows "find_list RT_MATCH_MIXED H p t = [r]"
proof -
  let ?ps = "identifiers p"
  have typed: "typed_path p" "\<forall>q\<in>set ?ps. ri_type q \<noteq> UNDEFINED"
    using assms(2) by (auto simp: numbered_path_def typed_path_def)
  have same: "child_matches RT_MATCH_MIXED H q c = child_matches RT_MATCH_FIRST H q c" if "q \<in> set ?ps" for q c
    using assms(2) that by (intro mixed_matches_numbered) (auto simp: numbered_path_def RT_MATCH_MIXED_def)
  have found: "find_ref RT_MATCH_FIRST H ?ps (root t) = [r]"
    using find_list_exact [OF assms(1) typed(1)] assms(3) by simp
  then have "no_short_match RT_MATCH_MIXED H ?ps (root t)"
    using no_short_match_found [OF _ typed(2), of H "root t"] assms(1)
      no_short_match_flags [of ?ps RT_MATCH_MIXED H RT_MATCH_FIRST "root t"] same
    by (simp add: tree_ok_def)
  moreover have "RT_MATCH_MIXED AND RT_MATCH_FIRST = 0" by (simp add: RT_MATCH_MIXED_def RT_MATCH_FIRST_def)
  moreover have "nd_children (root t) \<noteq> []" using found find_ref_leaf by fastforce
  ultimately have "find_list RT_MATCH_MIXED H p t = find_ref RT_MATCH_MIXED H ?ps (root t)"
    using find_node_ref [of RT_MATCH_MIXED "root t" H ?ps "[]" "[]" False] typed(1)
    by (simp add: find_list_def typed_path_def)
  then show ?thesis using find_ref_flags [OF same] found by simp
qed

section \<open>Registration and update\<close>

lemma robj_upd_res [simp]:
  "robj_of (upd_res p f ra) q = (if q = p then f (robj_of ra p) else robj_of ra q)"
  by (simp add: upd_res_def)

lemma upd_res_fields [simp]:
  "rnext (ra_heap (upd_res p f ra)) = rnext (ra_heap ra)" "ra_tree (upd_res p f ra) = ra_tree ra"
  "r_paths (upd_res p f ra) = r_paths ra" "sys_view_token (upd_res p f ra) = sys_view_token ra"
  "ra_status (upd_res p f ra) = ra_status ra"
  by (simp_all add: upd_res_def)

text \<open>The tree depends on the identifiers in the store only.\<close>

definition same_idents :: "RHeap \<Rightarrow> RHeap \<Rightarrow> bool" where
  "same_idents H H' \<longleftrightarrow> rnext H' = rnext H \<and> (\<forall>a. rs_ident (robj H' a) = rs_ident (robj H a))"

lemma find_same_idents:
  "same_idents H H' \<Longrightarrow> find_node fl H' ps n st = find_node fl H ps n st"
  "same_idents H H' \<Longrightarrow> find_children fl H' ps cs st = find_children fl H ps cs st"
  by (induction fl H ps n st and fl H ps cs st rule: find_node_find_children.induct)
    (auto simp: same_idents_def find_children.simps(2) Let_def split: prod.splits)

lemma tree_ok_same_idents: "same_idents H H' \<Longrightarrow> tree_ok H' t = tree_ok H t"
proof -
  assume same: "same_idents H H'"
  have "node_wf H' n = node_wf H n" for n
    using same by (induction n) (auto simp: same_idents_def)
  then show ?thesis by (simp add: tree_ok_def)
qed

lemma find_list_same_idents: "same_idents H H' \<Longrightarrow> find_list fl H' p t = find_list fl H p t"
  by (simp add: find_list_def find_same_idents)

lemma same_idents_upd_res:
  "(\<And>x. rs_ident (f x) = rs_ident x) \<Longrightarrow> same_idents (ra_heap ra) (ra_heap (upd_res p f ra))"
  by (simp add: same_idents_def)

lemma RegisterResource_fields:
  assumes "RegisterResource mx s units amount ra = (r, ra')"
    "tree_insert mx (ResourcePath_new mx s) (ra_tree ra) (ra_heap ra) = (r', t, H)"
  shows "r' = r" "ra_tree ra' = t" "same_idents H (ra_heap ra')"
    "robj_of ra' a = (if a = r then SetPath s (SetTotal (ConvertValue amount units) (robj H r)) else robj H a)"
    "r_paths ra' = (case r_paths ra s of None \<Rightarrow> (r_paths ra)(s \<mapsto> ResourcePath_new mx s) | Some _ \<Rightarrow> r_paths ra)"
    "sys_view_token ra' = sys_view_token ra"
  using assms by (auto simp: RegisterResource_def same_idents_def SetPath_def SetTotal_def upd_res_def Let_def
      split: option.splits)

lemma resource_ok_registered:
  "resource_ok (SetPath s (SetTotal a (SetPath s' (Resource_new mx t i b))))"
  by (simp add: resource_ok_def SetPath_def SetTotal_def Resource_new_def)

lemma resource_ok_SetPath [simp]: "resource_ok (SetPath s r) = resource_ok r"
  by (simp add: resource_ok_def SetPath_def)

lemma RegisterResource_new:
  assumes "acc_ok mx ra" "numbered_path (ResourcePath_new mx s)"
    "find_list RT_MATCH_FIRST (ra_heap ra) (ResourcePath_new mx s) (ra_tree ra) = []"
    and reg: "RegisterResource mx s units amount ra = (r, ra')"
  shows "acc_ok mx ra' \<and> r_paths ra' s = Some (ResourcePath_new mx s) \<and>
    find_list RT_MATCH_FIRST (ra_heap ra') (ResourcePath_new mx s) (ra_tree ra') = [r] \<and>
    total (robj_of ra' r) = ConvertValue amount units \<and> rs_path (robj_of ra' r) = s \<and>
    Available sysv u v (robj_of ra' r) = ConvertValue amount units \<and>
    (\<forall>a<rnext (ra_heap ra). robj_of ra' a = robj_of ra a)"
proof -
  let ?p = "ResourcePath_new mx s"
  obtain r' t H where ins: "tree_insert mx ?p (ra_tree ra) (ra_heap ra) = (r', t, H)" by (metis prod_cases3)
  note reg_fields = RegisterResource_fields [OF reg ins]
  have typed: "typed_path ?p" using assms(2) by (simp add: numbered_path_def)
  have tok: "tree_ok (ra_heap ra) (ra_tree ra)" using assms(1) by (simp add: acc_ok_def)
  have res: "insert_result (ra_heap ra) (identifiers ?p) (root (ra_tree ra)) (root t) r H"
    using tree_insert_result [OF tok path_ok_new typed ins] reg_fields(1) by simp
  obtain n' md' where at: "insert_at mx (identifiers ?p) (root (ra_tree ra)) (ra_heap ra) (max_depth (ra_tree ra)) =
      (n', r, H, md')"
    using ins reg_fields(1) by (auto simp: tree_insert_def split: prod.splits)
  have "\<forall>ri\<in>set (identifiers ?p). ident_ok mx ri \<and> ri_type ri \<noteq> UNDEFINED"
    using typed path_ok_new [of mx s] by (auto simp: path_ok_def typed_path_def)
  then have fresh: "fresh_objs mx (ra_heap ra) H" "rnext (ra_heap ra) \<le> r" "r < rnext H"
    using insert_at_fresh [OF _ _ at] tok find_list_exact [OF tok typed] assms(3) typed
    by (auto simp: tree_ok_def typed_path_def)
  obtain ty i s' where obj: "robj H r = SetPath s' (Resource_new mx ty i 1)"
    using fresh(1) [unfolded fresh_objs_def, rule_format, OF fresh(2)] fresh(3) by auto
  have old: "\<forall>a<rnext (ra_heap ra). robj H a = robj_of ra a"
    using res by (simp add: insert_result_def heap_ext_def)
  have frame: "\<forall>a<rnext (ra_heap ra). robj_of ra' a = robj_of ra a"
    using old fresh(2) reg_fields(4) by auto
  have objs: "resource_ok (robj_of ra' a)" for a
  proof (cases "a = r")
    case True
    then show ?thesis using reg_fields(4) obj resource_ok_registered by simp
  next
    case False
    have ok: "resource_ok (robj_of ra a)" using assms(1) by (simp add: acc_ok_def)
    have "resource_ok (robj H a)"
    proof (cases "a < rnext (ra_heap ra)")
      case True
      then show ?thesis using old ok by simp
    next
      case outside: False
      then show ?thesis
        using fresh(1) [unfolded fresh_objs_def, rule_format, of a] ok by (cases "a < rnext H") auto
    qed
    then show ?thesis using reg_fields(4) [of a] False by simp
  qed
  have tok': "tree_ok (ra_heap ra') (ra_tree ra')"
    using res tree_ok_same_idents [OF reg_fields(3)] reg_fields(2) by (simp add: insert_result_def tree_ok_def)
  have paths: "r_paths ra' s' = Some p' \<Longrightarrow> p' = ResourcePath_new mx s'" for s' p'
    using reg_fields(5) assms(1) by (auto simp: acc_ok_def split: option.splits if_splits)
  have known: "r_paths ra' s = Some ?p"
    using reg_fields(5) assms(1) by (auto simp: acc_ok_def split: option.splits)
  have found: "find_list RT_MATCH_FIRST (ra_heap ra') ?p (ra_tree ra') = [r]"
    using find_list_exact [OF tok' typed] find_list_same_idents [OF reg_fields(3)] res reg_fields(2)
      find_list_exact [of H t ?p] typed
    by (auto simp: insert_result_def tree_ok_def typed_path_def)
  have av: "Available sysv u v (robj_of ra' r) = ConvertValue amount units"
    using reg_fields(4) [of r] obj
    by (simp add: Available_def GetStateView_def Unreserved_def SetPath_def SetTotal_def Resource_new_def)
  have "total (robj_of ra' r) = ConvertValue amount units" "rs_path (robj_of ra' r) = s"
    using reg_fields(4) [of r] by (simp_all add: SetPath_def SetTotal_def)
  moreover have "acc_ok mx ra'" using objs tok' paths by (simp add: acc_ok_def)
  ultimately show ?thesis using known found av frame by blast
qed

text \<open>C27: registering a resource makes it available under its path. Registering a new numbered
  path keeps the registry consistent, leaves every other descriptor as it was, and from then on
  the lookup of the path returns the new descriptor, whose total is the amount in the given
  units and is available in every view to every application.\<close>

theorem register_then_lookup:
  assumes "acc_ok mx ra" "numbered_path (ResourcePath_new mx s)"
    "find_list RT_MATCH_FIRST (ra_heap ra) (ResourcePath_new mx s) (ra_tree ra) = []"
    "RegisterResource mx s units amount ra = (r, ra')"
  shows "acc_ok mx ra' \<and> GetResource mx s ra' = (Some r, ra') \<and>
    total (robj_of ra' r) = ConvertValue amount units \<and> rs_path (robj_of ra' r) = s \<and>
    Available sysv u v (robj_of ra' r) = ConvertValue amount units \<and>
    (\<forall>a<rnext (ra_heap ra). robj_of ra' a = robj_of ra a)"
  using RegisterResource_new [OF assms] find_first_mixed_numbered [OF assms(2)]
  by (simp add: GetResource_def GetPath_def GetResource_path_def)

definition ra0 :: ResourceAccounter where
  "ra0 = ResourceAccounter_new 31 heap0"

lemma acc_ok_ra0: "acc_ok 31 ra0"
  by (simp add: acc_ok_def ra0_def ResourceAccounter_new_def ResourceTree_new_def make_shared_def heap0_def
      tree_ok_def resource_ok_def Resource_new_path_def split: option.splits)

lemma ra0_register:
  "numbered_path (ResourcePath_new 31 ''sys0.cpu0.mem1'')"
  "find_list RT_MATCH_FIRST (ra_heap ra0) (ResourcePath_new 31 ''sys0.cpu0.mem1'') (ra_tree ra0) = []"
  "ConvertValue 4 ''Kb'' = 4096" "ConvertValue 1 ''Kb'' = 1024"
proof -
  show "numbered_path (ResourcePath_new 31 ''sys0.cpu0.mem1'')" by code_simp
  show "find_list RT_MATCH_FIRST (ra_heap ra0) (ResourcePath_new 31 ''sys0.cpu0.mem1'') (ra_tree ra0) = []"
    by (simp add: find_list_def ra0_def ResourceAccounter_new_def ResourceTree_new_def make_shared_def)
  show "ConvertValue 4 ''Kb'' = 4096" "ConvertValue 1 ''Kb'' = 1024" by code_simp+
qed

theorem register_then_lookup_witness:
  "\<exists>r ra. RegisterResource 31 ''sys0.cpu0.mem1'' ''Kb'' 4 ra0 = (r, ra) \<and>
     GetResource 31 ''sys0.cpu0.mem1'' ra = (Some r, ra) \<and> total (robj_of ra r) = 4096"
proof -
  obtain r ra where reg: "RegisterResource 31 ''sys0.cpu0.mem1'' ''Kb'' 4 ra0 = (r, ra)" by fastforce
  show ?thesis using register_then_lookup [OF acc_ok_ra0 ra0_register(1,2) reg] reg ra0_register(3) by auto
qed

text \<open>Registering a path that does not parse is not refused. A path in which a type occurs
  twice is empty after construction, and \<open>RegisterResource\<close> then overwrites the total and the
  path of the descriptor at the root of the tree.\<close>

theorem register_unparsable_path_hits_root:
  assumes "identifiers (ResourcePath_new mx s) = []"
    and "RegisterResource mx s units amount ra = (r, ra')"
  shows "r = nd_data (root (ra_tree ra)) \<and> total (robj_of ra' r) = ConvertValue amount units \<and>
    rs_path (robj_of ra' r) = s"
proof -
  have "tree_insert mx (ResourcePath_new mx s) (ra_tree ra) (ra_heap ra) =
      (nd_data (root (ra_tree ra)), (ra_tree ra)\<lparr>rt_count := rt_count (ra_tree ra) + 1\<rparr>, ra_heap ra)"
    using assms(1) by (simp add: tree_insert_def)
  from RegisterResource_fields(1,4) [OF assms(2) this] show ?thesis by (simp add: SetPath_def SetTotal_def)
qed

theorem register_unparsable_path_hits_root_witness:
  "fst (RegisterResource 31 ''sys0.cpu0.cpu1'' [] 8 ra0) = nd_data (root (ra_tree ra0))"
proof -
  have "identifiers (ResourcePath_new 31 ''sys0.cpu0.cpu1'') = []" by code_simp
  then show ?thesis
    using register_unparsable_path_hits_root [of 31 "''sys0.cpu0.cpu1''" "[]" 8 ra0] by (metis prod.collapse)
qed

text \<open>Looking up, by its text, whether a resource exists never answers no. For a path that is
  not in the registry's table and matches nothing, the null path object is dereferenced.\<close>

theorem exist_resource_never_false:
  assumes "r_paths ra s = None"
  shows "ExistResource mx s ra \<noteq> Inr (False, ra')"
  using assms
  by (auto simp: ExistResource_def GetPath_def ExistResource_path_def Let_def split: option.splits)

theorem exist_resource_never_false_witness:
  "ExistResource 31 ''sys0.cpu0'' ra0 \<noteq> Inr (False, ra0) \<and> ExistResource 31 ''sys0.cpu0'' ra0 = Inl NullDeref"
proof -
  have "r_paths ra0 ''sys0.cpu0'' = None"
    by (simp add: ra0_def ResourceAccounter_new_def split: prod.splits)
  moreover have "ExistResource 31 ''sys0.cpu0'' ra0 = Inl NullDeref"
    by (simp add: ExistResource_def GetPath_def ExistResource_path_def find_list_def ra0_def
        ResourceAccounter_new_def ResourceTree_new_def make_shared_def)
  ultimately show ?thesis using exist_resource_never_false by blast
qed

lemma SetOffOn [simp]: "\<not> offline (SetOnline x)" "rs_ident (SetOnline x) = rs_ident x"
  "rs_ident (SetOffline x) = rs_ident x"
  by (simp_all add: SetOnline_def SetOffline_def)

lemma ReserveResources_path_single:
  assumes "find_list RT_MATCH_MIXED (ra_heap ra) p (ra_tree ra) = [r]" "a \<le> total (robj_of ra r)"
  shows "ReserveResources_path p a ra = (RA_SUCCESS, upd_res r (\<lambda>_. (robj_of ra r)\<lparr>reserved := a\<rparr>) ra)"
  using assms by (simp add: ReserveResources_path_def Reserve_def)

text \<open>Updating the amount of one resource. When the platform is ready and the new amount does
  not exceed the registered total, \<open>UpdateResource\<close> on the path of a registered resource
  succeeds, the unreserved amount becomes the new amount, and no other descriptor changes. The
  resource is on-line afterwards, also when the amount is zero, for which the comment in the
  code says that it is taken off-line.\<close>

theorem update_sets_unreserved:
  assumes "acc_ok mx ra" "ra_status ra = RA_READY" "r_paths ra s = Some p" "numbered_path p"
    "find_list RT_MATCH_FIRST (ra_heap ra) p (ra_tree ra) = [r]" "ConvertValue amount units \<le> total (robj_of ra r)"
  shows "\<exists>ra'. UpdateResource mx s units amount ra = Inr (RA_SUCCESS, ra') \<and>
    Unreserved (robj_of ra' r) = ConvertValue amount units \<and> \<not> offline (robj_of ra' r) \<and>
    ra_status ra' = RA_READY \<and> (\<forall>a. a \<noteq> r \<longrightarrow> robj_of ra' a = robj_of ra a)"
proof -
  let ?ra2 = "if amount = 0 then upd_res r SetOffline (SetState RA_NOT_READY ra) else SetState RA_NOT_READY ra"
  let ?av = "ConvertValue amount units"
  have path: "GetPath mx s ra = (Some p, ra)" using assms(3) by (simp add: GetPath_def)
  have res: "GetResource_path p ra = Some r"
    using find_first_mixed_numbered [OF assms(4)] assms(5) by (simp add: GetResource_path_def)
  have same: "same_idents (ra_heap ra) (ra_heap ?ra2)" "ra_tree ?ra2 = ra_tree ra"
    by (simp_all add: same_idents_def SetState_def)
  have "tree_ok (ra_heap ra) (ra_tree ra)" using assms(1) by (simp add: acc_ok_def)
  then have found: "find_list RT_MATCH_MIXED (ra_heap ?ra2) p (ra_tree ?ra2) = [r]"
    unfolding same(2) find_list_same_idents [OF same(1)] by (rule find_mixed_numbered [OF _ assms(4,5)])
  have tot: "total (robj_of ?ra2 r) = total (robj_of ra r)"
    by (simp add: SetOffline_def SetState_def)
  have le: "total (robj_of ra r) - ?av \<le> total (robj_of ra r)"
    using assms(6) by (simp add: word_le_nat_alt unat_sub)
  have res2: "ReserveResources_path p (total (robj_of ?ra2 r) - ?av) ?ra2 =
      (RA_SUCCESS, upd_res r (\<lambda>_. (robj_of ?ra2 r)\<lparr>reserved := total (robj_of ra r) - ?av\<rparr>) ?ra2)"
    unfolding tot by (rule ReserveResources_path_single [OF found]) (use le tot in simp)
  let ?ra4 = "SetState RA_READY (upd_res r SetOnline (upd_res r (\<lambda>_. (robj_of ?ra2 r)
    \<lparr>reserved := total (robj_of ra r) - ?av\<rparr>) ?ra2))"
  have "UpdateResource mx s units amount ra = Inr (RA_SUCCESS, ?ra4)"
    unfolding UpdateResource_def path prod.case option.case res WaitForPlatformReady_def Let_def
    using assms(2) tot res2 leD [OF assms(6)]
    by (simp only: if_False simp_thms seq_fault.simps prod.case if_True)
  moreover have "Unreserved (robj_of ?ra4 r) = ?av \<and> \<not> offline (robj_of ?ra4 r) \<and> ra_status ?ra4 = RA_READY \<and>
      (\<forall>a. a \<noteq> r \<longrightarrow> robj_of ?ra4 a = robj_of ra a)"
    by (simp add: SetState_def Unreserved_def SetOnline_def SetOffline_def)
  ultimately show ?thesis by blast
qed

theorem update_sets_unreserved_witness:
  "\<exists>r ra ra'. RegisterResource 31 ''sys0.cpu0.mem1'' ''Kb'' 4 ra0 = (r, ra) \<and>
     UpdateResource 31 ''sys0.cpu0.mem1'' ''Kb'' 1 (SetState RA_READY ra) = Inr (RA_SUCCESS, ra') \<and>
     Unreserved (robj_of ra' r) = 1024"
proof -
  obtain r ra where reg: "RegisterResource 31 ''sys0.cpu0.mem1'' ''Kb'' 4 ra0 = (r, ra)" by fastforce
  note new = RegisterResource_new [OF acc_ok_ra0 ra0_register(1,2) reg]
  have "acc_ok 31 (SetState RA_READY ra)" using new by (simp add: acc_ok_def SetState_def)
  then show ?thesis
    using update_sets_unreserved [of 31 "SetState RA_READY ra" "''sys0.cpu0.mem1''" _ r 1 "''Kb''"]
      new reg ra0_register by (auto simp: SetState_def)
qed

text \<open>The amount of a type that a set of assignments gives, or that a request asks for, is
  counted by the type of the first level of the paths. For a type that is not the first level of
  any path of the map, it is zero whatever the map assigns.\<close>

theorem requested_amount_needs_first_level:
  assumes "\<forall>(p, a)\<in>set m. path_ok mx p \<and> identifiers p \<noteq> [] \<and> hd (path_types p) \<noteq> r_type"
  shows "GetRequestedAmount m r_type scope_type scope_id amount = Inr amount"
  using assms
proof (induction m)
  case (Cons e m)
  obtain p a where e: "e = (p, a)" by fastforce
  with Cons.prems have p: "path_ok mx p" "identifiers p \<noteq> []" "hd (path_types p) \<noteq> r_type" by auto
  have "Path_Type 0 p = Inr (hd (path_types p))"
    using p(2) by (cases "identifiers p") (auto simp: Path_Type_def)
  moreover obtain ins where "in_scope scope_type p = Inr ins"
    by (cases "scope_type = UNDEFINED") (auto simp: in_scope_def Path_GetIdentifier_find [OF p(1)])
  moreover obtain sid where "scope_id_matches scope_type scope_id p = Inr sid"
    by (cases "0 \<le> scope_id"; cases "List.find (\<lambda>ri. ri_type ri = scope_type) (identifiers p)")
      (auto simp: scope_id_matches_def Path_GetID_def Path_GetIdentifier_find [OF p(1)])
  moreover have "GetRequestedAmount m r_type scope_type scope_id amount = Inr amount"
    using Cons.prems by (intro Cons.IH) simp
  ultimately show ?case unfolding e using p(3) by (simp only: GetRequestedAmount.simps seq_fault.simps if_True if_False)
    (simp add: p(3))
qed simp

theorem requested_amount_needs_first_level_witness:
  "GetRequestedAmount [(ResourcePath_new 31 ''sys0.cpu1.pe'', ResourceAssignment_new 31 200 SEQUENTIAL)] PROC_ELEMENT CPU 1 0 = Inr 0"
proof -
  define p where "p = ResourcePath_new 31 ''sys0.cpu1.pe''"
  have "path_ok 31 p" unfolding p_def by (rule path_ok_new)
  moreover have "path_types p = [SYSTEM, CPU, PROC_ELEMENT]" unfolding p_def by code_simp
  moreover from this have "identifiers p \<noteq> []" by auto
  ultimately have "\<forall>(q, a)\<in>set [(p, ResourceAssignment_new 31 200 SEQUENTIAL)].
      path_ok 31 q \<and> identifiers q \<noteq> [] \<and> hd (path_types q) \<noteq> PROC_ELEMENT" by simp
  then show ?thesis
    unfolding p_def by (rule requested_amount_needs_first_level)
qed

end
