(* ===== verification/Accounter_Booking.thy ===== *)
theory Accounter_Booking
  imports Accounter_State
begin

text \<open>
  The booking of resources (\<^verbatim>\<open>bbque/resource_accounter.cc\<close>): \<open>BookResources\<close>,
  \<open>ReleaseResources\<close> and what they call. A booking walks the assignments of an application
  and, for each, the bound descriptors, and acquires from each of them; a release walks the
  same lists. The amount per resource of the balanced policy passes through an \<open>int\<close>
  (\<open>auto alloc_amount_per_resource = 0\<close>), which the model keeps.

  The lemmas reduce a booking to a plan, a list of descriptors with the amount taken from each,
  so that the laws of the interface \<open>ledger\<close> apply to it.
\<close>

section \<open>Operations\<close>

definition sched_amount :: "u64 \<Rightarrow> u64 \<Rightarrow> u64 \<Rightarrow> u64" where
  "sched_amount available requested alloc =
     (if alloc > 0 \<and> alloc \<le> available then alloc
      else if requested < available then requested
      else available)"

definition SchedResourceBooking :: "AppUid \<Rightarrow> rptr \<Rightarrow> RViewToken \<Rightarrow> u64 \<Rightarrow> u64 \<Rightarrow> ResourceAccounter \<Rightarrow>
    u64 \<times> ResourceAccounter" where
  "SchedResourceBooking papp rsrc status_view requested alloc ra =
     (let available = Available (sys_view_token ra) (Some papp) status_view (robj_of ra rsrc);
          (got, x) = Acquire (sys_view_token ra) papp (sched_amount available requested alloc) status_view
                       (robj_of ra rsrc)
      in (requested - got, upd_res rsrc (\<lambda>_. x) ra))"

definition SyncResourceBooking :: "AppUid \<Rightarrow> rptr \<Rightarrow> u64 \<Rightarrow> ResourceAccounter \<Rightarrow> u64 \<times> ResourceAccounter" where
  "SyncResourceBooking papp rsrc requested ra =
     (let sched_usage = ApplicationUsage (sys_view_token ra) (Some papp) (sch_view_token ra) (robj_of ra rsrc)
      in if sched_usage = 0 then (requested, ra)
         else let (got, x) = Acquire (sys_view_token ra) papp sched_usage (ss_view (sync_ssn ra)) (robj_of ra rsrc)
              in (requested - got, upd_res rsrc (\<lambda>_. x) ra))"

definition rsrc_set_insert :: "RViewToken \<Rightarrow> rptr \<Rightarrow> ResourceAccounter \<Rightarrow> ResourceAccounter" where
  "rsrc_set_insert v r ra =
     ra\<lparr>rsrc_per_views := (rsrc_per_views ra)(v := map_option (insert r) (rsrc_per_views ra v))\<rparr>"

definition rsrc_set_erase :: "RViewToken \<Rightarrow> rptr \<Rightarrow> ResourceAccounter \<Rightarrow> ResourceAccounter" where
  "rsrc_set_erase v r ra =
     ra\<lparr>rsrc_per_views := (rsrc_per_views ra)(v := map_option (\<lambda>s. s - {r}) (rsrc_per_views ra v))\<rparr>"

definition alloc_per_resource :: "Policy \<Rightarrow> u64 \<Rightarrow> u64 \<Rightarrow> u64" where
  "alloc_per_resource alloc_policy requested num_left =
     (if alloc_policy = BALANCED then scast (ucast (requested div num_left) :: 32 word) else 0)"

fun DoResourceBooking_loop :: "AppUid \<Rightarrow> Policy \<Rightarrow> RViewToken \<Rightarrow> rptr list \<Rightarrow> u64 \<Rightarrow> u64 \<Rightarrow> ResourceAccounter \<Rightarrow>
    u64 \<times> ResourceAccounter" where
  "DoResourceBooking_loop papp alloc_policy status_view [] requested num_left ra = (requested, ra)"
| "DoResourceBooking_loop papp alloc_policy status_view (r # rs) requested num_left ra =
     (if requested = 0 then (requested, ra)
      else let ra1 = rsrc_set_insert status_view r ra in
           if Synching ra1
           then let (requested', ra2) = SyncResourceBooking papp r requested ra1
                in DoResourceBooking_loop papp alloc_policy status_view rs requested' num_left ra2
           else let (requested', ra2) = SchedResourceBooking papp r status_view requested
                      (alloc_per_resource alloc_policy requested num_left) ra1
                in DoResourceBooking_loop papp alloc_policy status_view rs requested' (num_left - 1) ra2)"

definition DoResourceBooking :: "AppUid \<Rightarrow> ResourceAssignment \<Rightarrow> RViewToken \<Rightarrow> ResourceAccounter \<Rightarrow>
    RAExitCode \<times> ResourceAccounter" where
  "DoResourceBooking papp r_assign status_view ra =
     (let (requested, ra') = DoResourceBooking_loop papp (fill_policy r_assign) status_view (ra_resources r_assign)
            (ra_amount r_assign) (of_nat (length (ra_resources r_assign))) ra
      in if requested \<noteq> 0 \<and> fill_policy r_assign = BALANCED then (RA_ERR_USAGE_EXC, ra') else (RA_SUCCESS, ra'))"

fun IncBookingCounts_loop :: "AssignMap \<Rightarrow> AppUid \<Rightarrow> RViewToken \<Rightarrow> ResourceAccounter \<Rightarrow> ResourceAccounter" where
  "IncBookingCounts_loop [] papp status_view ra = ra"
| "IncBookingCounts_loop ((p, r_assign) # m) papp status_view ra =
     IncBookingCounts_loop m papp status_view (snd (DoResourceBooking papp r_assign status_view ra))"

definition assign_upd :: "aptr \<Rightarrow> (AppAssignments \<Rightarrow> AppAssignments) \<Rightarrow> ResourceAccounter \<Rightarrow> ResourceAccounter" where
  "assign_upd a f ra = ra\<lparr>assign_objs := hupd a f (assign_objs ra)\<rparr>"

definition IncBookingCounts :: "AssignMap \<Rightarrow> AppUid \<Rightarrow> RViewToken \<Rightarrow> ResourceAccounter \<Rightarrow> RAExitCode \<times> ResourceAccounter" where
  "IncBookingCounts assign_map papp status_view ra =
     (case rsrc_per_views ra status_view of
        None \<Rightarrow> (RA_ERR_MISS_VIEW, ra)
      | Some _ \<Rightarrow>
          (case GetAppAssignmentsByView status_view ra of
             Inl _ \<Rightarrow> (RA_ERR_MISS_APP, ra)
           | Inr apps_assign \<Rightarrow>
               if om_find (assign_objs ra apps_assign) papp \<noteq> None then (RA_ERR_APP_USAGES, ra)
               else (RA_SUCCESS, assign_upd apps_assign (om_set papp assign_map)
                                   (IncBookingCounts_loop assign_map papp status_view ra))))"

definition BookResources_unchecked :: "AppUid \<Rightarrow> AssignMap \<Rightarrow> RViewToken \<Rightarrow> ResourceAccounter \<Rightarrow>
    RAExitCode \<times> ResourceAccounter" where
  "BookResources_unchecked papp assign_map status_view ra = IncBookingCounts assign_map papp status_view ra"

definition BookResources :: "AppUid option \<Rightarrow> AssignMap option \<Rightarrow> RViewToken \<Rightarrow> ResourceAccounter \<Rightarrow>
    fault + RAExitCode \<times> ResourceAccounter" where
  "BookResources papp assign_map status_view ra =
     (case papp of
        None \<Rightarrow> Inl NullDeref
      | Some uid \<Rightarrow>
          (case assign_map of
             None \<Rightarrow> Inr (RA_ERR_MISS_USAGES, ra)
           | Some m \<Rightarrow>
               if m = [] then Inr (RA_ERR_MISS_USAGES, ra)
               else if \<not> Synching ra \<and> CheckAvailability m status_view None ra = RA_ERR_USAGE_EXC
               then Inr (RA_ERR_USAGE_EXC, ra)
               else Inr (IncBookingCounts m uid status_view ra)))"

fun UndoResourceBooking_loop :: "AppUid \<Rightarrow> u64 \<Rightarrow> RViewToken \<Rightarrow> rptr list \<Rightarrow> u64 \<Rightarrow> ResourceAccounter \<Rightarrow> ResourceAccounter" where
  "UndoResourceBooking_loop papp amount status_view [] usage_freed ra = ra"
| "UndoResourceBooking_loop papp amount status_view (r # rs) usage_freed ra =
     (if usage_freed = amount then ra
      else let (freed, x) = Release (sys_view_token ra) papp status_view (robj_of ra r);
               ra1 = upd_res r (\<lambda>_. x) ra;
               ra2 = (if fst (ApplicationsCount (sys_view_token ra1) 0 (robj_of ra1 r)) = 0
                      then rsrc_set_erase status_view r ra1 else ra1)
           in UndoResourceBooking_loop papp amount status_view rs (usage_freed + freed) ra2)"

definition UndoResourceBooking :: "AppUid \<Rightarrow> ResourceAssignment \<Rightarrow> RViewToken \<Rightarrow> ResourceAccounter \<Rightarrow> ResourceAccounter" where
  "UndoResourceBooking papp r_assign status_view ra =
     UndoResourceBooking_loop papp (ra_amount r_assign) status_view (ra_resources r_assign) 0 ra"

fun DecBookingCounts_loop :: "AssignMap \<Rightarrow> AppUid \<Rightarrow> RViewToken \<Rightarrow> ResourceAccounter \<Rightarrow> ResourceAccounter" where
  "DecBookingCounts_loop [] papp status_view ra = ra"
| "DecBookingCounts_loop ((p, r_assign) # m) papp status_view ra =
     DecBookingCounts_loop m papp status_view (UndoResourceBooking papp r_assign status_view ra)"

definition DecBookingCounts :: "AssignMap \<Rightarrow> AppUid \<Rightarrow> RViewToken \<Rightarrow> ResourceAccounter \<Rightarrow> ResourceAccounter" where
  "DecBookingCounts assign_map papp status_view ra =
     (case rsrc_per_views ra status_view of
        None \<Rightarrow> ra
      | Some _ \<Rightarrow> DecBookingCounts_loop assign_map papp status_view ra)"

definition ReleaseResources_view :: "AppUid \<Rightarrow> RViewToken \<Rightarrow> ResourceAccounter \<Rightarrow> ResourceAccounter" where
  "ReleaseResources_view papp status_view ra =
     (case GetAppAssignmentsByView status_view ra of
        Inl _ \<Rightarrow> ra
      | Inr apps_assign \<Rightarrow>
          (case om_find (assign_objs ra apps_assign) papp of
             None \<Rightarrow> ra
           | Some m \<Rightarrow> assign_upd apps_assign (om_erase papp) (DecBookingCounts m papp status_view ra)))"

definition ReleaseResources :: "AppUid option \<Rightarrow> RViewToken \<Rightarrow> ResourceAccounter \<Rightarrow> ResourceAccounter" where
  "ReleaseResources papp status_view ra =
     (case papp of
        None \<Rightarrow> ra
      | Some uid \<Rightarrow>
          if rsrc_per_views ra status_view = None then ra
          else let ra1 = (if status_view = 0 \<and> Synching ra
                          then ReleaseResources_view uid (ss_view (sync_ssn ra)) ra else ra)
               in if status_view \<noteq> ss_view (sync_ssn ra1) then ReleaseResources_view uid status_view ra1 else ra1)"

fun IsReshuffling :: "AssignMap \<Rightarrow> AssignMap \<Rightarrow> bool" where
  "IsReshuffling ((_, curr_assign) # cs) ((_, next_assign) # ns) =
     (if \<not> Bitset_eq (ra_mask curr_assign) (ra_mask next_assign) then True else IsReshuffling cs ns)"
| "IsReshuffling [] ns = False"
| "IsReshuffling cs [] = False"

section \<open>A booking as a plan\<close>

definition within :: "RViewToken \<Rightarrow> Resource \<Rightarrow> bool" where
  "within v r \<longleftrightarrow> load_of r v \<le> unat (Unreserved r)"

definition free_amount :: "RViewToken \<Rightarrow> Resource \<Rightarrow> nat" where
  "free_amount v r = (if offline r then 0 else unat (Unreserved r) - load_of r v)"

text \<open>The amount taken from one descriptor, and the plan of an assignment, by the free amounts.\<close>

definition take_amount :: "Policy \<Rightarrow> u64 \<Rightarrow> u64 \<Rightarrow> u64 \<Rightarrow> u64" where
  "take_amount pol available requested num_left =
     sched_amount available requested (alloc_per_resource pol requested num_left)"

fun booking_plan :: "Policy \<Rightarrow> (rptr \<Rightarrow> u64) \<Rightarrow> rptr list \<Rightarrow> u64 \<Rightarrow> u64 \<Rightarrow> (rptr \<times> u64) list" where
  "booking_plan pol av [] requested num_left = []"
| "booking_plan pol av (r # rs) requested num_left =
     (if requested = 0 then []
      else let t = take_amount pol (av r) requested num_left
           in (r, t) # booking_plan pol av rs (requested - t) (num_left - 1))"

abbreviation avail :: "RViewToken \<Rightarrow> (rptr \<Rightarrow> Resource) \<Rightarrow> rptr \<Rightarrow> u64" where
  "avail v h r \<equiv> of_nat (free_amount v (h r))"

definition entry_plan :: "RViewToken \<Rightarrow> (rptr \<Rightarrow> Resource) \<Rightarrow> ResourceAssignment \<Rightarrow> (rptr \<times> u64) list" where
  "entry_plan v h a =
     booking_plan (fill_policy a) (avail v h) (ra_resources a) (ra_amount a) (of_nat (length (ra_resources a)))"

definition map_plan :: "RViewToken \<Rightarrow> (rptr \<Rightarrow> Resource) \<Rightarrow> AssignMap \<Rightarrow> (rptr \<times> u64) list" where
  "map_plan v h m = concat (map (entry_plan v h \<circ> snd) m)"

definition map_resources :: "AssignMap \<Rightarrow> rptr list" where
  "map_resources m = concat (map (ra_resources \<circ> snd) m)"

text \<open>What a booking of an assignment map asks of the store: the books balance, what is used lies
  within what is not reserved, and the application holds none of the descriptors bound, which
  are all different.\<close>

definition can_book :: "AppUid \<Rightarrow> RViewToken \<Rightarrow> rptr list \<Rightarrow> (rptr \<Rightarrow> Resource) \<Rightarrow> bool" where
  "can_book u v rs h \<longleftrightarrow> v \<noteq> 0 \<and> (\<forall>r. resource_ok (h r)) \<and> distinct rs \<and>
     (\<forall>r\<in>set rs. within v (h r) \<and> usage_of (h r) v u = None)"

abbreviation book :: "RViewToken \<Rightarrow> AppUid \<Rightarrow> RViewToken \<Rightarrow> u64 \<Rightarrow> Resource \<Rightarrow> Resource" where
  "book sysv u v \<equiv> (\<lambda>a r. snd (Acquire sysv u a v r))"

lemma unreserved_le_total: "resource_ok r \<Longrightarrow> unat (Unreserved r) \<le> unat (total r)"
  by (simp add: resource_ok_def Unreserved_def word_le_nat_alt unat_sub)

lemma Available_free:
  assumes "v \<noteq> 0" "within v r" "usage_of r v u = None"
  shows "Available sysv (Some u) v r = of_nat (free_amount v r)"
proof (cases "state_views r v")
  case None
  then show ?thesis
    using assms by (simp add: Available_def GetStateView_def free_amount_def load_of_def)
next
  case (Some s)
  then have "used s \<le> Unreserved r" "om_find (apps s) u = None"
    using assms by (simp_all add: within_def load_of_def usage_of_def word_le_nat_alt)
  then show ?thesis
    using Some assms(1)
    by (simp add: Available_def GetStateView_def free_amount_def load_of_def ApplicationUsage_map_def of_nat_diff word_le_nat_alt)
qed

lemma unat_avail: "unat (of_nat (free_amount v r) :: u64) = free_amount v r"
proof -
  have "free_amount v r < 2 ^ 64"
    using unat_less_word [of "Unreserved r"] by (auto simp: free_amount_def)
  then show ?thesis by (simp add: unat_of_nat)
qed

lemma sched_amount_le: "sched_amount av req al \<le> av"
  by (auto simp: sched_amount_def)

lemma free_fits:
  fixes t :: u64
  assumes "resource_ok r" "within v r" "t \<le> of_nat (free_amount v r)"
  shows "load_of r v + unat t \<le> unat (total r)"
proof -
  have "unat t \<le> free_amount v r" using assms(3) by (simp add: word_le_nat_alt unat_avail)
  then show ?thesis
    using unreserved_le_total [OF assms(1)] assms(2) by (auto simp: free_amount_def within_def split: if_splits)
qed

lemma take_fits:
  assumes "resource_ok r" "within v r"
  shows "load_of r v + unat (take_amount pol (of_nat (free_amount v r)) req n) \<le> unat (total r)"
  by (rule free_fits [OF assms]) (simp add: take_amount_def sched_amount_le)

lemma booking_plan_fst:
  "map fst (booking_plan pol av rs req n) = take (length (booking_plan pol av rs req n)) rs"
  by (induction pol av rs req n rule: booking_plan.induct) (auto simp: Let_def)

lemma booking_plan_cong:
  "(\<And>r. r \<in> set rs \<Longrightarrow> av r = av' r) \<Longrightarrow> booking_plan pol av rs req n = booking_plan pol av' rs req n"
  by (induction rs arbitrary: req n) (auto simp: Let_def)

definition booked :: "AppUid \<Rightarrow> RViewToken \<Rightarrow> (rptr \<times> u64) list \<Rightarrow> ResourceAccounter \<Rightarrow> ResourceAccounter" where
  "booked u v ps ra =
     ra\<lparr>ra_heap := (ra_heap ra)\<lparr>robj := apply_plan (book (sys_view_token ra) u v) ps (robj (ra_heap ra))\<rparr>,
        rsrc_per_views := (rsrc_per_views ra)(v := map_option (\<lambda>s. s \<union> fst ` set ps) (rsrc_per_views ra v))\<rparr>"

lemma booked_Nil [simp]: "booked u v [] ra = ra"
  by (simp add: booked_def option.map_ident)

lemma booked_append: "booked u v (ps @ qs) ra = booked u v qs (booked u v ps ra)"
  by (simp add: booked_def option.map_comp o_def Un_assoc image_Un)

lemma booked_Cons: "booked u v ((r, t) # ps) ra = booked u v ps (booked u v [(r, t)] ra)"
  using booked_append [of u v "[(r, t)]" ps] by simp

lemma booked_fields [simp]:
  "ra_status (booked u v ps ra) = ra_status ra" "sys_view_token (booked u v ps ra) = sys_view_token ra"
  "assign_objs (booked u v ps ra) = assign_objs ra" "assign_per_views (booked u v ps ra) = assign_per_views ra"
  "sys_assign_view (booked u v ps ra) = sys_assign_view ra" "sync_ssn (booked u v ps ra) = sync_ssn ra"
  "rsrc_per_views (booked u v ps ra) w = None \<longleftrightarrow> rsrc_per_views ra w = None"
  "robj (ra_heap (booked u v ps ra)) = apply_plan (book (sys_view_token ra) u v) ps (robj (ra_heap ra))"
  "Synching (booked u v ps ra) = Synching ra"
  by (auto simp: booked_def Synching_def)

lemma Sched_booked:
  fixes req al :: u64
  assumes "v \<noteq> 0" "resource_ok (robj_of ra r)" "within v (robj_of ra r)" "usage_of (robj_of ra r) v u = None"
  defines "t \<equiv> sched_amount (avail v (robj (ra_heap ra)) r) req al"
  shows "SchedResourceBooking u r v req al (rsrc_set_insert v r ra) = (req - t, booked u v [(r, t)] ra)"
proof -
  have t: "t \<le> avail v (robj (ra_heap ra)) r" unfolding t_def by (rule sched_amount_le)
  have le: "load_of (robj_of ra r) v + unat t \<le> unat (total (robj_of ra r))"
    by (rule free_fits [OF assms(2,3) t])
  have "fst (Acquire (sys_view_token ra) u t v (robj_of ra r)) = t"
    by (rule Acquire_fits(1) [OF assms(2,1,4) le])
  then obtain x where x: "Acquire (sys_view_token ra) u t v (robj_of ra r) = (t, x)" by (metis prod.collapse)
  have "SchedResourceBooking u r v req al (rsrc_set_insert v r ra) =
      (req - t, upd_res r (\<lambda>_. x) (rsrc_set_insert v r ra))"
    using x [unfolded t_def]
    by (simp add: SchedResourceBooking_def Available_free [OF assms(1,3,4)] rsrc_set_insert_def t_def)
  moreover have "upd_res r (\<lambda>_. x) (rsrc_set_insert v r ra) = booked u v [(r, t)] ra"
    by (simp add: rsrc_set_insert_def upd_res_def booked_def hupd_def x)
  ultimately show ?thesis by simp
qed

lemma can_book_step:
  assumes "can_book u v (r # rs) h" "load_of (h r) v + unat t \<le> unat (total (h r))"
  shows "can_book u v rs (apply_plan (book sysv u v) [(r, t)] h)"
proof -
  have "resource_ok (book sysv u v t (h r))"
    using assms by (auto simp: can_book_def intro!: Acquire_fits)
  then show ?thesis using assms(1) by (auto simp: can_book_def)
qed

lemma DoResourceBooking_loop_plan:
  assumes "\<not> Synching ra" "can_book u v rs (robj (ra_heap ra))"
  shows "DoResourceBooking_loop u pol v rs req n ra =
    (req - sum_list (map snd (booking_plan pol (avail v (robj (ra_heap ra))) rs req n)),
     booked u v (booking_plan pol (avail v (robj (ra_heap ra))) rs req n) ra)"
  using assms
proof (induction rs arbitrary: req n ra)
  case (Cons r rs)
  show ?case
  proof (cases "req = 0")
    case False
    let ?av = "avail v (robj (ra_heap ra))"
    define t where "t = take_amount pol (?av r) req n"
    let ?ra = "booked u v [(r, t)] ra"
    have r: "v \<noteq> 0" "resource_ok (robj_of ra r)" "within v (robj_of ra r)" "usage_of (robj_of ra r) v u = None"
      using Cons.prems(2) by (simp_all add: can_book_def)
    have step: "SchedResourceBooking u r v req (alloc_per_resource pol req n) (rsrc_set_insert v r ra) = (req - t, ?ra)"
      unfolding t_def take_amount_def by (rule Sched_booked [OF r])
    have "can_book u v rs (robj (ra_heap ?ra))"
      unfolding booked_fields by (rule can_book_step [OF Cons.prems(2)]) (simp add: t_def take_fits r)
    note IH = Cons.IH [OF _ this, of "req - t" "n - 1"]
    have IH: "DoResourceBooking_loop u pol v rs (req - t) (n - 1) ?ra =
        (req - t - sum_list (map snd (booking_plan pol (avail v (robj (ra_heap ?ra))) rs (req - t) (n - 1))),
         booked u v (booking_plan pol (avail v (robj (ra_heap ?ra))) rs (req - t) (n - 1)) ?ra)"
      by (rule IH) (use Cons.prems(1) in simp)
    have same: "booking_plan pol (avail v (robj (ra_heap ?ra))) rs (req - t) (n - 1) =
        booking_plan pol ?av rs (req - t) (n - 1)"
      by (rule booking_plan_cong) (use Cons.prems(2) in \<open>auto simp: can_book_def\<close>)
    have plan: "booking_plan pol ?av (r # rs) req n = (r, t) # booking_plan pol ?av rs (req - t) (n - 1)"
      using False by (simp add: t_def Let_def)
    have "\<not> Synching (rsrc_set_insert v r ra)"
      using Cons.prems(1) by (simp add: Synching_def rsrc_set_insert_def)
    then have "DoResourceBooking_loop u pol v (r # rs) req n ra = DoResourceBooking_loop u pol v rs (req - t) (n - 1) ?ra"
      using False by (simp only: DoResourceBooking_loop.simps Let_def if_False step prod.case)
    then show ?thesis
      unfolding plan IH [unfolded same] booked_Cons [of u v r t "booking_plan pol ?av rs (req - t) (n - 1)" ra]
      by (simp only: list.map sum_list.Cons snd_conv diff_diff_eq)
  qed simp
qed simp

lemma DoResourceBooking_plan:
  assumes "\<not> Synching ra" "can_book u v (ra_resources a) (robj (ra_heap ra))"
  shows "snd (DoResourceBooking u a v ra) = booked u v (entry_plan v (robj (ra_heap ra)) a) ra"
  by (simp add: DoResourceBooking_def entry_plan_def DoResourceBooking_loop_plan [OF assms])

lemma booking_plan_fits:
  assumes "can_book u v rs h" "(p, t) \<in> set (booking_plan pol (avail v h) rs req n)"
  shows "p \<in> set rs \<and> usage_of (h p) v u = None \<and> load_of (h p) v + unat t \<le> unat (total (h p))"
  using assms
proof (induction rs arbitrary: req n)
  case (Cons r rs)
  have cb: "can_book u v rs h" and r: "usage_of (h r) v u = None" "resource_ok (h r)" "within v (h r)"
    using Cons.prems(1) by (simp_all add: can_book_def)
  let ?t = "take_amount pol (avail v h r) req n"
  have "(p, t) = (r, ?t) \<or> (p, t) \<in> set (booking_plan pol (avail v h) rs (req - ?t) (n - 1))"
    using Cons.prems(2) by (simp add: Let_def split: if_splits)
  then show ?case
  proof
    assume "(p, t) = (r, ?t)"
    then show ?thesis using r take_fits [OF r(2,3)] by simp
  next
    assume "(p, t) \<in> set (booking_plan pol (avail v h) rs (req - ?t) (n - 1))"
    from Cons.IH [OF cb this] show ?thesis by simp
  qed
qed simp

lemma booking_plan_distinct:
  "distinct rs \<Longrightarrow> distinct (map fst (booking_plan pol av rs req n))"
  by (simp add: booking_plan_fst)

lemma entry_plan_fits:
  assumes "can_book u v (ra_resources a) h" "(p, t) \<in> set (entry_plan v h a)"
  shows "p \<in> set (ra_resources a) \<and> usage_of (h p) v u = None \<and> load_of (h p) v + unat t \<le> unat (total (h p))"
  using booking_plan_fits assms unfolding entry_plan_def by blast

lemma apply_plan_other: "q \<notin> fst ` set ps \<Longrightarrow> apply_plan f ps h q = h q"
  by (induction ps arbitrary: h) auto

lemma can_book_append:
  "can_book u v (rs @ qs) h \<longleftrightarrow> can_book u v rs h \<and> can_book u v qs h \<and> set rs \<inter> set qs = {}"
  by (auto simp: can_book_def)

lemma can_book_after:
  assumes "can_book u v (ra_resources a @ qs) h"
  shows "can_book u v qs (apply_plan (book sysv u v) (entry_plan v h a) h)"
proof -
  let ?ps = "entry_plan v h a"
  have a: "can_book u v (ra_resources a) h" and qs: "can_book u v qs h" "set (ra_resources a) \<inter> set qs = {}"
    using assms by (simp_all add: can_book_append)
  have "resource_ok (apply_plan (book sysv u v) ?ps h r)" for r
    using led.acq_plan [of h v ?ps u sysv r] a entry_plan_fits [OF a]
      booking_plan_distinct by (auto simp: can_book_def entry_plan_def)
  moreover have "apply_plan (book sysv u v) ?ps h r = h r" if "r \<in> set qs" for r
    using entry_plan_fits [OF a] qs(2) that by (intro apply_plan_other) fastforce
  ultimately show ?thesis using qs(1) by (simp add: can_book_def)
qed

lemma entry_plan_cong:
  "(\<And>r. r \<in> set (ra_resources a) \<Longrightarrow> h r = h' r) \<Longrightarrow> entry_plan v h a = entry_plan v h' a"
  unfolding entry_plan_def by (rule booking_plan_cong) simp

lemma map_plan_cong:
  "(\<And>r. r \<in> set (map_resources m) \<Longrightarrow> h r = h' r) \<Longrightarrow> map_plan v h m = map_plan v h' m"
  unfolding map_plan_def map_resources_def
  by (intro arg_cong [of _ _ concat] map_cong) (auto intro!: entry_plan_cong)

lemma IncBookingCounts_loop_plan:
  assumes "\<not> Synching ra" "can_book u v (map_resources m) (robj (ra_heap ra))"
  shows "IncBookingCounts_loop m u v ra = booked u v (map_plan v (robj (ra_heap ra)) m) ra"
  using assms
proof (induction m arbitrary: ra)
  case (Cons e m)
  obtain p a where e: "e = (p, a)" by fastforce
  let ?h = "robj (ra_heap ra)" and ?ra = "booked u v (entry_plan v (robj (ra_heap ra)) a) ra"
  have cb: "can_book u v (ra_resources a @ map_resources m) ?h"
    using Cons.prems(2) e by (simp add: map_resources_def)
  then have a: "can_book u v (ra_resources a) ?h" by (simp add: can_book_append)
  have "can_book u v (map_resources m) (robj (ra_heap ?ra))"
    unfolding booked_fields by (rule can_book_after [OF cb])
  then have "IncBookingCounts_loop m u v ?ra = booked u v (map_plan v (robj (ra_heap ?ra)) m) ?ra"
    by (intro Cons.IH) (simp_all add: Cons.prems(1))
  moreover have "map_plan v (robj (ra_heap ?ra)) m = map_plan v ?h m"
  proof (rule map_plan_cong)
    fix r assume "r \<in> set (map_resources m)"
    then have "r \<notin> fst ` set (entry_plan v ?h a)"
      using entry_plan_fits [OF a] cb by (fastforce simp: can_book_append)
    then show "robj_of ?ra r = ?h r" by (simp add: apply_plan_other)
  qed
  ultimately show ?case
    by (simp add: e DoResourceBooking_plan [OF Cons.prems(1) a] map_plan_def booked_append)
qed (simp add: map_plan_def)

section \<open>A release as a list of descriptors\<close>

abbreviation unbook :: "RViewToken \<Rightarrow> AppUid \<Rightarrow> RViewToken \<Rightarrow> Resource \<Rightarrow> Resource" where
  "unbook sysv u v \<equiv> (\<lambda>r. snd (Release sysv u v r))"

text \<open>The state after releasing the descriptors \<open>rs\<close>; the sets of descriptors per view may have
  lost some.\<close>

definition released :: "AppUid \<Rightarrow> RViewToken \<Rightarrow> rptr list \<Rightarrow> ResourceAccounter \<Rightarrow> ResourceAccounter \<Rightarrow> bool" where
  "released u v rs ra ra' \<longleftrightarrow>
     (\<exists>views. ra' = ra\<lparr>ra_heap := (ra_heap ra)\<lparr>robj := apply_all (unbook (sys_view_token ra) u v) rs (robj (ra_heap ra))\<rparr>,
                      rsrc_per_views := views\<rparr> \<and>
              (\<forall>w. views w = None \<longleftrightarrow> rsrc_per_views ra w = None))"

lemma released_fields:
  assumes "released u v rs ra ra'"
  shows "sys_view_token ra' = sys_view_token ra" "assign_objs ra' = assign_objs ra"
    "rsrc_per_views ra' w = None \<longleftrightarrow> rsrc_per_views ra w = None" "ra_status ra' = ra_status ra"
    "robj (ra_heap ra') = apply_all (unbook (sys_view_token ra) u v) rs (robj (ra_heap ra))"
  using assms by (auto simp: released_def)

lemma released_Nil: "released u v [] ra ra"
  by (auto simp: released_def intro!: exI [of _ "rsrc_per_views ra"])

lemma released_append:
  assumes "released u v rs ra ra1" "released u v qs ra1 ra2"
  shows "released u v (rs @ qs) ra ra2"
  using assms by (auto simp: released_def)

lemma undo_step_released:
  assumes "Release (sys_view_token ra) u v (robj_of ra r) = (freed, x)"
  shows "released u v [r] ra (upd_res r (\<lambda>_. x) ra)"
    and "released u v [r] ra (rsrc_set_erase v r (upd_res r (\<lambda>_. x) ra))"
proof -
  show "released u v [r] ra (upd_res r (\<lambda>_. x) ra)"
    unfolding released_def
    by (rule exI [of _ "rsrc_per_views ra"]) (simp add: upd_res_def hupd_def assms)
  show "released u v [r] ra (rsrc_set_erase v r (upd_res r (\<lambda>_. x) ra))"
    unfolding released_def
    by (rule exI [of _ "(rsrc_per_views ra)(v := map_option (\<lambda>s. s - {r}) (rsrc_per_views ra v))"])
      (simp add: upd_res_def rsrc_set_erase_def hupd_def assms)
qed

lemma UndoResourceBooking_loop_released:
  assumes "\<And>p t. (p, t) \<in> set (booking_plan pol av rs req n) \<Longrightarrow> usage_of (robj_of ra p) v u = Some t"
    "\<And>r. resource_ok (robj_of ra r)" "v \<noteq> 0" "distinct rs"
  shows "\<exists>k. released u v (take k rs) ra (UndoResourceBooking_loop u amount v rs (amount - req) ra) \<and>
    length (booking_plan pol av rs req n) \<le> k"
  using assms
proof (induction rs arbitrary: req n ra)
  case (Cons r rs)
  show ?case
  proof (cases "req = 0")
    case True
    then show ?thesis by (intro exI [of _ 0]) (simp add: released_Nil)
  next
    case False
    let ?t = "take_amount pol (av r) req n"
    let ?ps = "booking_plan pol av rs (req - ?t) (n - 1)"
    have plan: "booking_plan pol av (r # rs) req n = (r, ?t) # ?ps" using False by (simp add: Let_def)
    obtain x where x: "Release (sys_view_token ra) u v (robj_of ra r) = (?t, x)"
      using Release_named(1) [OF Cons.prems(2,3), of "sys_view_token ra" u r] Cons.prems(1) [of r ?t] plan
      by (metis list.set_intros(1) option.case(2) prod.collapse)
    define ra2 where "ra2 = (let ra1 = upd_res r (\<lambda>_. x) ra in
      if fst (ApplicationsCount (sys_view_token ra1) 0 (robj_of ra1 r)) = 0 then rsrc_set_erase v r ra1 else ra1)"
    have step: "released u v [r] ra ra2" unfolding ra2_def using undo_step_released [OF x] by (simp add: Let_def)
    have "snd (Release (sys_view_token ra) u v (robj_of ra r)) = x" using x by simp
    then have h2: "robj_of ra2 q = (if q = r then x else robj_of ra q)" for q
      using released_fields(5) [OF step] by (simp add: fun_eq_iff)
    have "resource_ok x" using Release_named(2) [OF Cons.prems(2,3), of "sys_view_token ra" u r] x by simp
    then have ok: "resource_ok (robj_of ra2 q)" for q using h2 Cons.prems(2) by simp
    have "fst ` set ?ps \<subseteq> set rs"
      using booking_plan_fst [of pol av rs "req - ?t" "n - 1"] by (metis list.set_map set_take_subset)
    then have "usage_of (robj_of ra2 p) v u = Some t" if "(p, t) \<in> set ?ps" for p t
      using that Cons.prems(1) [of p t] Cons.prems(4) plan h2 by force
    from Cons.IH [OF this ok Cons.prems(3)] Cons.prems(4) obtain k where k:
      "released u v (take k rs) ra2 (UndoResourceBooking_loop u amount v rs (amount - (req - ?t)) ra2)" "length ?ps \<le> k"
      by auto
    have "UndoResourceBooking_loop u amount v (r # rs) (amount - req) ra =
        UndoResourceBooking_loop u amount v rs (amount - req + ?t) ra2"
      using False x by (simp add: ra2_def Let_def)
    then have "UndoResourceBooking_loop u amount v (r # rs) (amount - req) ra =
        UndoResourceBooking_loop u amount v rs (amount - (req - ?t)) ra2" by (simp add: algebra_simps)
    then show ?thesis
      using released_append [OF step k(1)] k(2) plan by (intro exI [of _ "Suc k"]) simp
  qed
qed (simp add: released_Nil)

lemma UndoResourceBooking_released:
  assumes "\<And>p t. (p, t) \<in> set (entry_plan w h a) \<Longrightarrow> usage_of (robj_of ra p) v u = Some t"
    "\<And>r. resource_ok (robj_of ra r)" "v \<noteq> 0" "distinct (ra_resources a)"
  shows "\<exists>qs. released u v qs ra (UndoResourceBooking u a v ra) \<and>
    fst ` set (entry_plan w h a) \<subseteq> set qs \<and> set qs \<subseteq> set (ra_resources a)"
proof -
  let ?rs = "ra_resources a"
  from UndoResourceBooking_loop_released [where amount = "ra_amount a" and req = "ra_amount a" and rs = ?rs and
      pol = "fill_policy a" and av = "avail w h" and n = "of_nat (length ?rs)",
      OF assms(1) [unfolded entry_plan_def] assms(2-4)]
  obtain k where k: "released u v (take k ?rs) ra (UndoResourceBooking u a v ra)" "length (entry_plan w h a) \<le> k"
    unfolding UndoResourceBooking_def entry_plan_def by auto
  have "map fst (entry_plan w h a) = take (length (entry_plan w h a)) ?rs"
    unfolding entry_plan_def by (rule booking_plan_fst)
  then have "fst ` set (entry_plan w h a) \<subseteq> set (take k ?rs)"
    using set_take_subset_set_take [OF k(2), of ?rs] by (metis list.set_map)
  then show ?thesis using k(1) set_take_subset [of k ?rs] by blast
qed

lemma map_plan_sub: "fst ` set (map_plan w h m) \<subseteq> set (map_resources m)"
proof (induction m)
  case (Cons e m)
  have "fst ` set (entry_plan w h (snd e)) \<subseteq> set (ra_resources (snd e))"
    unfolding entry_plan_def by (metis booking_plan_fst list.set_map set_take_subset)
  with Cons show ?case by (auto simp: map_plan_def map_resources_def)
qed (simp add: map_plan_def)

lemma DecBookingCounts_loop_released:
  assumes "\<And>p t. (p, t) \<in> set (map_plan w h m) \<Longrightarrow> usage_of (robj_of ra p) v u = Some t"
    "\<And>r. resource_ok (robj_of ra r)" "v \<noteq> 0" "distinct (map_resources m)"
  shows "\<exists>qs. released u v qs ra (DecBookingCounts_loop m u v ra) \<and>
    fst ` set (map_plan w h m) \<subseteq> set qs \<and> set qs \<subseteq> set (map_resources m)"
  using assms
proof (induction m arbitrary: ra)
  case Nil
  then show ?case by (intro exI [of _ "[]"]) (simp add: released_Nil map_plan_def)
next
  case (Cons e m)
  obtain p a where e: "e = (p, a)" by fastforce
  let ?ra = "UndoResourceBooking u a v ra"
  have split: "map_plan w h (e # m) = entry_plan w h a @ map_plan w h m"
    "map_resources (e # m) = ra_resources a @ map_resources m"
    by (simp_all add: e map_plan_def map_resources_def)
  have dis: "distinct (ra_resources a)" "distinct (map_resources m)" "set (ra_resources a) \<inter> set (map_resources m) = {}"
    using Cons.prems(4) unfolding split by auto
  obtain qs where qs: "released u v qs ra ?ra" "fst ` set (entry_plan w h a) \<subseteq> set qs" "set qs \<subseteq> set (ra_resources a)"
    using UndoResourceBooking_released [where w = w and h = h, OF Cons.prems(1) [unfolded split] Cons.prems(2,3) dis(1)]
    by auto
  have "usage_of (robj_of ?ra q) v u = Some t" if "(q, t) \<in> set (map_plan w h m)" for q t
  proof -
    have "q \<in> set (map_resources m)" using that map_plan_sub by (metis fst_conv image_eqI subsetD)
    then have "robj_of ?ra q = robj_of ra q"
      using released_fields(5) [OF qs(1)] dis(3) qs(3) by (auto intro!: apply_all_other)
    then show ?thesis using that Cons.prems(1) unfolding split by simp
  qed
  moreover have "resource_ok (robj_of ?ra r)" for r
    unfolding released_fields(5) [OF qs(1)]
    using led.rel_all [where h = "robj (ra_heap ra)" and ps = qs, OF Cons.prems(2,3)] by blast
  ultimately obtain qs' where "released u v qs' ?ra (DecBookingCounts_loop m u v ?ra)"
    "fst ` set (map_plan w h m) \<subseteq> set qs'" "set qs' \<subseteq> set (map_resources m)"
    using Cons.IH [OF _ _ Cons.prems(3) dis(2)] by blast
  then show ?case
    using released_append [OF qs(1)] qs(2,3) unfolding split
    by (intro exI [of _ "qs @ qs'"]) (auto simp: e)
qed

lemma map_plan_distinct: "distinct (map_resources m) \<Longrightarrow> distinct (map fst (map_plan w h m))"
proof (induction m)
  case (Cons e m)
  let ?a = "snd e"
  have res: "distinct (ra_resources ?a)" "distinct (map_resources m)" "set (ra_resources ?a) \<inter> set (map_resources m) = {}"
    using Cons.prems by (auto simp: map_resources_def)
  have fst_take: "map fst (entry_plan w h ?a) = take (length (entry_plan w h ?a)) (ra_resources ?a)"
    unfolding entry_plan_def by (rule booking_plan_fst)
  then have "distinct (map fst (entry_plan w h ?a))" using res(1) by simp
  moreover have "fst ` set (entry_plan w h ?a) \<subseteq> set (ra_resources ?a)"
    using fst_take by (metis list.set_map set_take_subset)
  then have "fst ` set (entry_plan w h ?a) \<inter> fst ` set (map_plan w h m) = {}"
    using map_plan_sub [of w h m] res(3) by blast
  ultimately show ?case
    using Cons.IH [OF res(2)] by (simp add: map_plan_def)
qed (simp add: map_plan_def)

lemma map_plan_fits:
  assumes "can_book u v (map_resources m) h" "(p, t) \<in> set (map_plan v h m)"
  shows "p \<in> set (map_resources m) \<and> usage_of (h p) v u = None \<and> load_of (h p) v + unat t \<le> unat (total (h p))"
  using assms
proof (induction m)
  case (Cons e m)
  have split: "map_resources (e # m) = ra_resources (snd e) @ map_resources m"
    "map_plan v h (e # m) = entry_plan v h (snd e) @ map_plan v h m"
    by (simp_all add: map_resources_def map_plan_def)
  from Cons.prems show ?case
    unfolding split using Cons.IH entry_plan_fits [of u v "snd e" h p t] by (auto simp: can_book_append)
qed (simp add: map_plan_def)

lemma booked_plan_usage:
  assumes "can_book u v (map_resources m) h"
  shows "resource_ok (apply_plan (book sysv u v) (map_plan v h m) h q) \<and>
    usage_of (apply_plan (book sysv u v) (map_plan v h m) h q) =
      (case map_of (map_plan v h m) q of
         None \<Rightarrow> usage_of (h q) | Some t \<Rightarrow> (usage_of (h q))(v := (usage_of (h q) v)(u \<mapsto> t)))"
proof (rule led.acq_plan)
  show "distinct (map fst (map_plan v h m))" using assms by (intro map_plan_distinct) (simp add: can_book_def)
  show "usage_of (h p) v u = None \<and> load_of (h p) v + unat t \<le> unat (total (h p))"
    if "(p, t) \<in> set (map_plan v h m)" for p t
    using map_plan_fits [OF assms that] by simp
qed (use assms in \<open>simp_all add: can_book_def\<close>)

text \<open>A view in which an application that holds nothing may book.\<close>

definition bookable :: "AppUid \<Rightarrow> RViewToken \<Rightarrow> AssignMap \<Rightarrow> ResourceAccounter \<Rightarrow> aptr \<Rightarrow> bool" where
  "bookable u v m ra a \<longleftrightarrow> \<not> Synching ra \<and> rsrc_per_views ra v \<noteq> None \<and>
     GetAppAssignmentsByView v ra = Inr a \<and> om_ok (assign_objs ra a) \<and> om_find (assign_objs ra a) u = None \<and>
     can_book u v (map_resources m) (robj (ra_heap ra))"

lemma IncBookingCounts_plan:
  assumes "bookable u v m ra a"
  shows "IncBookingCounts m u v ra =
    (RA_SUCCESS, assign_upd a (om_set u m) (booked u v (map_plan v (robj (ra_heap ra)) m) ra))"
  using assms IncBookingCounts_loop_plan [of ra u v m] by (auto simp: bookable_def IncBookingCounts_def)

lemma assign_upd_fields [simp]:
  "ra_heap (assign_upd a f ra) = ra_heap ra" "sys_view_token (assign_upd a f ra) = sys_view_token ra"
  "assign_per_views (assign_upd a f ra) = assign_per_views ra" "sys_assign_view (assign_upd a f ra) = sys_assign_view ra"
  "rsrc_per_views (assign_upd a f ra) = rsrc_per_views ra" "sync_ssn (assign_upd a f ra) = sync_ssn ra"
  "Synching (assign_upd a f ra) = Synching ra" "assign_objs (assign_upd a f ra) b = (if b = a then f (assign_objs ra a) else assign_objs ra b)"
  by (simp_all add: assign_upd_def Synching_def)

text \<open>C1: a booking takes from every bound descriptor exactly what the plan says and leaves the
  books of every descriptor balanced: the application gets the planned amount in the view, and
  no other application and no other view changes.\<close>

theorem booking_follows_plan:
  assumes "bookable u v m ra a"
  shows "\<exists>ra'. IncBookingCounts m u v ra = (RA_SUCCESS, ra') \<and> om_find (assign_objs ra' a) u = Some m \<and>
    (\<forall>r. resource_ok (robj_of ra' r) \<and>
       usage_of (robj_of ra' r) =
         (case map_of (map_plan v (robj (ra_heap ra)) m) r of
            None \<Rightarrow> usage_of (robj_of ra r)
          | Some t \<Rightarrow> (usage_of (robj_of ra r))(v := (usage_of (robj_of ra r) v)(u \<mapsto> t))))"
  using booked_plan_usage [of u v m "robj (ra_heap ra)"] assms
  unfolding IncBookingCounts_plan [OF assms] by (auto simp: bookable_def)

text \<open>C2: releasing undoes a booking of the scheduling. In a view that is neither the one named 0 nor the one
  of the last session, while no session is under way, an application that holds nothing there books
  and then releases. Under both filling policies, and whether or not the whole amount could be taken,
  the usage of every application of every descriptor in every view is
  what it was before the booking, the books balance, and the application is no longer in the
  table of assignments.\<close>

theorem release_undoes_booking:
  assumes "bookable u v m ra a" "v \<noteq> ss_view (sync_ssn ra)"
    "IncBookingCounts m u v ra = (res, ra1)" "ra2 = ReleaseResources (Some u) v ra1"
  shows "(\<forall>r. usage_of (robj_of ra2 r) = usage_of (robj_of ra r) \<and> resource_ok (robj_of ra2 r)) \<and>
    assign_objs ra2 a = assign_objs ra a"
proof -
  let ?h = "robj (ra_heap ra)" and ?sv = "sys_view_token ra"
  let ?ps = "map_plan v ?h m"
  have cb: "can_book u v (map_resources m) ?h" and v: "v \<noteq> 0" and dist: "distinct (map_resources m)"
    using assms(1) by (auto simp: bookable_def can_book_def)
  have ra1: "ra1 = assign_upd a (om_set u m) (booked u v ?ps ra)"
    using assms(3) IncBookingCounts_plan [OF assms(1)] by simp
  have h1: "robj (ra_heap ra1) = apply_plan (book ?sv u v) ?ps ?h" by (simp add: ra1)
  have ok1: "resource_ok (robj_of ra1 q)" for q unfolding h1 using booked_plan_usage [OF cb] by blast
  have "usage_of (robj_of ra1 p) v u = Some t" if "(p, t) \<in> set ?ps" for p t
  proof -
    have "map_of ?ps p = Some t" using that map_plan_distinct [OF dist] by simp
    then show ?thesis unfolding h1 using booked_plan_usage [OF cb, of ?sv p] by simp
  qed
  from DecBookingCounts_loop_released [OF this ok1 v dist]
  obtain qs where qs: "released u v qs ra1 (DecBookingCounts_loop m u v ra1)"
    "fst ` set ?ps \<subseteq> set qs" "set qs \<subseteq> set (map_resources m)" by blast
  have find1: "om_find (assign_objs ra1 a) u = Some m" using assms(1) by (simp add: ra1 bookable_def)
  have view1: "GetAppAssignmentsByView v ra1 = Inr a" "ss_view (sync_ssn ra1) = ss_view (sync_ssn ra)"
    using assms(1) v by (simp_all add: ra1 bookable_def GetAppAssignmentsByView_def)
  obtain rset where rset: "rsrc_per_views ra1 v = Some rset"
    using assms(1) by (cases "rsrc_per_views ra1 v") (auto simp: ra1 bookable_def)
  have "ra2 = assign_upd a (om_erase u) (DecBookingCounts_loop m u v ra1)"
    unfolding assms(4) ReleaseResources_def using v assms(2)
    by (simp add: rset view1 ReleaseResources_view_def DecBookingCounts_def find1)
  then have h2: "robj (ra_heap ra2) = apply_all (unbook ?sv u v) qs (robj (ra_heap ra1))"
    and a2: "assign_objs ra2 a = om_erase u (om_set u m (assign_objs ra a))"
    using released_fields [OF qs(1)] by (simp_all add: ra1)
  have "usage_of (robj_of ra2 r) = usage_of (?h r)" for r
    unfolding h2 h1
  proof (rule led.rel_all_acq_plan [OF _ v map_plan_distinct [OF dist] qs(2)])
    show "resource_ok (?h p)" for p using cb by (simp add: can_book_def)
    show "load_of (?h p) v + unat t \<le> unat (total (?h p))" if "(p, t) \<in> set ?ps" for p t
      using map_plan_fits [OF cb that] by simp
    show "usage_of (?h q) v u = None" if "q \<in> set qs" for q
      using cb qs(3) that by (auto simp: can_book_def)
  qed
  moreover have "resource_ok (robj_of ra2 r)" for r
    unfolding h2 using led.rel_all [where h = "robj (ra_heap ra1)", OF ok1 v] by blast
  moreover have "assign_objs ra2 a = assign_objs ra a"
    unfolding a2 by (rule om.ins_era_items) (use assms(1) in \<open>simp_all add: bookable_def\<close>)
  ultimately show ?thesis by blast
qed

text \<open>A registry with descriptors of ten units each, and a view with the token 5.\<close>

definition ra_ten :: ResourceAccounter where
  "ra_ten = ra0\<lparr>ra_status := RA_READY, ra_heap := \<lparr>robj = (\<lambda>r. Resource_new 31 CPU (int r) 10), rnext = 3\<rparr>,
     assign_per_views := [5 \<mapsto> 1], rsrc_per_views := [5 \<mapsto> {}]\<rparr>"

definition twelve :: "Policy \<Rightarrow> AssignMap" where
  "twelve pol = [(Path_empty, (ResourceAssignment_new 31 12 pol)\<lparr>ra_resources := [1, 2]\<rparr>)]"

lemma ra_ten_simps [simp]:
  "robj (ra_heap ra_ten) r = Resource_new 31 CPU (int r) 10" "Synching ra_ten = False"
  "rsrc_per_views ra_ten = [5 \<mapsto> {}]" "assign_per_views ra_ten = [5 \<mapsto> 1]" "assign_objs ra_ten a = []"
  "ss_view (sync_ssn ra_ten) = 0"
  by (simp_all add: ra_ten_def Synching_def ra0_def ResourceAccounter_new_def split: prod.splits)

lemma free_amount_new [simp]: "free_amount v (Resource_new mx t i tot) = unat tot"
  by (simp add: free_amount_def Resource_new_def Unreserved_def load_of_def)

lemma within_new [simp]: "within v (Resource_new mx t i tot)"
  by (simp add: within_def Resource_new_def load_of_def)

lemma bookable_ra_ten: "bookable 7 5 (twelve pol) ra_ten 1"
  by (auto simp: bookable_def can_book_def twelve_def map_resources_def GetAppAssignmentsByView_def
      usage_of_def Resource_new_def within_def load_of_def resource_ok_def)

lemma plan_ra_ten: "map_plan 5 (robj (ra_heap ra_ten)) (twelve SEQUENTIAL) = [(1, 10), (2, 2)]"
  by (simp add: map_plan_def twelve_def entry_plan_def ResourceAssignment_new_def take_amount_def sched_amount_def
      alloc_per_resource_def)

theorem booking_follows_plan_witness:
  "\<exists>ra'. IncBookingCounts (twelve SEQUENTIAL) 7 5 ra_ten = (RA_SUCCESS, ra') \<and>
     usage_of (robj_of ra' 1) 5 7 = Some 10 \<and> usage_of (robj_of ra' 2) 5 7 = Some 2"
  using booking_follows_plan [OF bookable_ra_ten [of SEQUENTIAL]] unfolding plan_ra_ten by auto

theorem release_undoes_booking_witness:
  "\<forall>r. usage_of (robj_of (ReleaseResources (Some 7) 5 (snd (IncBookingCounts (twelve BALANCED) 7 5 ra_ten))) r) =
     usage_of (Resource_new 31 CPU (int r) 10)"
  using release_undoes_booking [OF bookable_ra_ten [of BALANCED] _ surjective_pairing refl] by simp

section \<open>How much a booking takes\<close>

definition held :: "RViewToken \<Rightarrow> AppUid \<Rightarrow> Resource \<Rightarrow> nat" where
  "held v u r = (case usage_of r v u of None \<Rightarrow> 0 | Some t \<Rightarrow> unat t)"

lemma sum_map_of:
  assumes "distinct (map fst ps)" "distinct rs" "fst ` set ps \<subseteq> set rs"
  shows "(\<Sum>r\<leftarrow>rs. case map_of ps r of None \<Rightarrow> 0 | Some t \<Rightarrow> f t) = (\<Sum>p\<leftarrow>ps. f (snd p) :: nat)"
  using assms(1,3)
proof (induction ps)
  case (Cons pt ps)
  obtain p t where pt: "pt = (p, t)" by fastforce
  let ?g = "\<lambda>r. case map_of ps r of None \<Rightarrow> 0 | Some t \<Rightarrow> f t"
  have p: "p \<in> set rs" "map_of ps p = None" using Cons.prems pt by (auto simp: map_of_eq_None_iff)
  have "(\<Sum>r\<in>set rs. case map_of (pt # ps) r of None \<Rightarrow> 0 | Some t \<Rightarrow> f t) = f t + (\<Sum>r\<in>set rs - {p}. ?g r)"
    by (subst sum.remove [OF _ p(1)]) (auto simp: pt intro!: sum.cong)
  also have "(\<Sum>r\<in>set rs - {p}. ?g r) = (\<Sum>r\<in>set rs. ?g r)"
    using sum.remove [OF finite_set p(1), of ?g] by (simp add: p(2))
  finally show ?case
    using Cons pt by (simp add: sum_list_distinct_conv_sum_set assms(2))
qed simp

lemma seq_take: "take_amount SEQUENTIAL av req n = min av req"
  by (auto simp: take_amount_def sched_amount_def alloc_per_resource_def min_def)

lemma seq_plan_total:
  "(\<Sum>p\<leftarrow>booking_plan SEQUENTIAL av rs req n. unat (snd p)) = min (unat req) (\<Sum>r\<leftarrow>rs. unat (av r))"
proof (induction rs arbitrary: req n)
  case (Cons r rs)
  show ?case
  proof (cases "req = 0")
    case False
    have "unat (min (av r) req) = min (unat (av r)) (unat req)" by (simp add: min_def word_le_nat_alt)
    moreover have "unat (req - min (av r) req) = unat req - min (unat (av r)) (unat req)"
      by (subst unat_sub) (auto simp: min_def word_le_nat_alt)
    moreover have "min x y + min (y - min x y) z = min y (x + z)" for x y z :: nat by linarith
    ultimately show ?thesis using False Cons by (simp add: seq_take Let_def)
  qed simp
qed simp

text \<open>What an application holds of the descriptors of one assignment after the booking of a map.\<close>

lemma held_after_booking:
  assumes "can_book u v (map_resources m) h" "(p, a) \<in> set m"
  shows "(\<Sum>r\<leftarrow>ra_resources a. held v u (apply_plan (book sysv u v) (map_plan v h m) h r)) =
    (\<Sum>p\<leftarrow>entry_plan v h a. unat (snd p))"
proof -
  let ?ps = "map_plan v h m" and ?rs = "ra_resources a"
  have dist: "distinct (map_resources m)" using assms(1) by (simp add: can_book_def)
  obtain m1 m2 where m: "m = m1 @ (p, a) # m2" using assms(2) by (meson split_list)
  have plan: "?ps = map_plan v h m1 @ entry_plan v h a @ map_plan v h m2" by (simp add: m map_plan_def)
  have res: "map_resources m = map_resources m1 @ ?rs @ map_resources m2" by (simp add: m map_resources_def)
  have same: "map_of ?ps r = map_of (entry_plan v h a) r" if "r \<in> set ?rs" for r
  proof -
    have "r \<notin> fst ` set (map_plan v h m1)" "r \<notin> fst ` set (map_plan v h m2)"
      using that dist map_plan_sub [of v h m1] map_plan_sub [of v h m2] unfolding res by auto
    then show ?thesis
      unfolding plan by (cases "map_of (entry_plan v h a) r")
        (auto simp: map_add_def map_of_eq_None_iff [symmetric] split: option.splits)
  qed
  have none: "usage_of (h r) v u = None" if "r \<in> set ?rs" for r
    using assms(1) that unfolding res by (auto simp: can_book_def)
  have "held v u (apply_plan (book sysv u v) ?ps h r) = (case map_of (entry_plan v h a) r of None \<Rightarrow> 0 | Some t \<Rightarrow> unat t)"
    if "r \<in> set ?rs" for r
    using booked_plan_usage [OF assms(1), of sysv r] same [OF that] none [OF that]
    by (cases "map_of (entry_plan v h a) r") (simp_all add: held_def)
  then have "(\<Sum>r\<leftarrow>?rs. held v u (apply_plan (book sysv u v) ?ps h r)) =
      (\<Sum>r\<leftarrow>?rs. case map_of (entry_plan v h a) r of None \<Rightarrow> 0 | Some t \<Rightarrow> unat t)"
    by (intro arg_cong [of _ _ sum_list] map_cong) auto
  also have "\<dots> = (\<Sum>p\<leftarrow>entry_plan v h a. unat (snd p))"
  proof (rule sum_map_of)
    have "map fst (entry_plan v h a) = take (length (entry_plan v h a)) ?rs"
      unfolding entry_plan_def by (rule booking_plan_fst)
    then show "fst ` set (entry_plan v h a) \<subseteq> set ?rs" by (metis list.set_map set_take_subset)
    show "distinct ?rs" using dist unfolding res by simp
    then show "distinct (map fst (entry_plan v h a))" unfolding entry_plan_def by (rule booking_plan_distinct)
  qed
  finally show ?thesis .
qed

lemma Available_None_free:
  assumes "v \<noteq> 0" "within v r"
  shows "Available sysv None v r = of_nat (free_amount v r)"
  using assms
  by (cases "state_views r v")
    (simp_all add: Available_def GetStateView_def free_amount_def within_def load_of_def of_nat_diff)

lemma QueryStatus_free:
  assumes "v \<noteq> 0" "\<And>r. r \<in> set rs \<Longrightarrow> within v (robj_of ra r)"
  shows "QueryStatus_loop RA_AVAIL v None ra rs x = x + of_nat (\<Sum>r\<leftarrow>rs. free_amount v (robj_of ra r))"
  using assms(2) by (induction rs arbitrary: x) (simp_all add: Available_None_free [OF assms(1)])

lemma unat_of_nat_le: "unat (of_nat n :: u64) \<le> n"
  by (simp add: unat_of_nat)

lemma CheckAvailability_free:
  assumes "v \<noteq> 0" "\<And>r. r \<in> set (map_resources m) \<Longrightarrow> within v (robj_of ra r)"
    "CheckAvailability m v None ra \<noteq> RA_ERR_USAGE_EXC" "(p, a) \<in> set m"
  shows "unat (ra_amount a) \<le> (\<Sum>r\<leftarrow>ra_resources a. free_amount v (robj_of ra r))"
  using assms(2-)
proof (induction m)
  case (Cons e m)
  obtain p' a' where e: "e = (p', a')" by fastforce
  have "unat (ra_amount a') \<le> (\<Sum>r\<leftarrow>ra_resources a'. free_amount v (robj_of ra r))"
    using Cons.prems(1,2) e unat_of_nat_le [of "\<Sum>r\<leftarrow>ra_resources a'. free_amount v (robj_of ra r)"]
    by (simp add: map_resources_def QueryStatus_def QueryStatus_free [OF assms(1)] word_le_nat_alt not_less split: if_splits)
  then show ?case
    using Cons e by (auto simp: map_resources_def split: if_splits)
qed simp

text \<open>C5: a booking that passes the availability check gives the application what it asked for.
  For every assignment filled in sequence, the amounts the application then holds of its bound
  descriptors add up to the amount requested, and the call reports success.\<close>

theorem sequential_booking_meets_request:
  assumes "bookable u v m ra a" "m \<noteq> []" "CheckAvailability m v None ra \<noteq> RA_ERR_USAGE_EXC"
    "(p, e) \<in> set m" "fill_policy e = SEQUENTIAL"
  shows "\<exists>ra'. BookResources (Some u) (Some m) v ra = Inr (RA_SUCCESS, ra') \<and>
    (\<Sum>r\<leftarrow>ra_resources e. held v u (robj_of ra' r)) = unat (ra_amount e)"
proof -
  let ?h = "robj (ra_heap ra)"
  have cb: "can_book u v (map_resources m) ?h" and v: "v \<noteq> 0"
    using assms(1) by (simp_all add: bookable_def can_book_def)
  have "unat (ra_amount e) \<le> (\<Sum>r\<leftarrow>ra_resources e. free_amount v (?h r))"
    by (rule CheckAvailability_free [OF v _ assms(3,4)]) (use cb in \<open>simp add: can_book_def\<close>)
  then have "(\<Sum>p\<leftarrow>entry_plan v ?h e. unat (snd p)) = unat (ra_amount e)"
    by (simp add: entry_plan_def assms(5) seq_plan_total unat_avail)
  then show ?thesis
    using held_after_booking [OF cb assms(4)] IncBookingCounts_plan [OF assms(1)] assms(1-3)
    by (simp add: BookResources_def bookable_def)
qed

theorem sequential_booking_meets_request_witness:
  "\<exists>ra'. BookResources (Some 7) (Some (twelve SEQUENTIAL)) 5 ra_ten = Inr (RA_SUCCESS, ra') \<and>
     held 5 7 (robj_of ra' 1) + held 5 7 (robj_of ra' 2) = 12"
proof -
  define e where "e = (ResourceAssignment_new 31 12 SEQUENTIAL)\<lparr>ra_resources := [1, 2]\<rparr>"
  have e: "twelve SEQUENTIAL = [(Path_empty, e)]" "fill_policy e = SEQUENTIAL" "ra_resources e = [1, 2]"
    "ra_amount e = 12" "ra_resources (snd (Path_empty, e)) = [1, 2]"
    by (simp_all add: e_def twelve_def ResourceAssignment_new_def)
  have "CheckAvailability (twelve SEQUENTIAL) 5 None ra_ten \<noteq> RA_ERR_USAGE_EXC"
    by (simp add: e QueryStatus_def Available_None_free)
  then show ?thesis
    using sequential_booking_meets_request [OF bookable_ra_ten [of SEQUENTIAL], of Path_empty e] e by simp
qed

text \<open>The balanced policy: the share passes through an \<open>int\<close>, which is exact below \<open>2 ^ 31\<close>.\<close>

lemma int_share_exact:
  fixes q :: u64
  assumes "unat q < 2 ^ 31"
  shows "scast (ucast q :: 32 word) = q"
proof -
  have small: "signed_take_bit 31 (int n) = int n" if "n < 2 ^ 31" for n
    by (rule signed_take_bit_int_eq_self) (use that in simp_all)
  have "unat (ucast q :: 32 word) = unat q" using assms by (simp add: unsigned_ucast_eq take_bit_nat_eq_self)
  then have "uint (ucast q :: 32 word) = int (unat q)" by (metis uint_nat)
  then have "sint (ucast q :: 32 word) = int (unat q)"
    using small [OF assms] by (simp add: sint_uint)
  then show ?thesis by (metis of_int_of_nat_eq of_int_sint of_nat_unat ucast_id)
qed

lemma balanced_rest:
  fixes R k c :: nat
  assumes "R \<le> Suc k * c"
  shows "R - R div Suc k \<le> k * c"
proof (cases "c \<le> R div Suc k")
  case True
  then show ?thesis using assms by simp
next
  case False
  have "R = R div Suc k + k * (R div Suc k) + R mod Suc k" using mult_div_mod_eq [of "Suc k" R] by simp
  moreover have "R mod Suc k \<le> k" by (simp add: less_Suc_eq_le [symmetric])
  ultimately have "R - R div Suc k \<le> k + k * (R div Suc k)" by linarith
  also have "\<dots> = k * Suc (R div Suc k)" by simp
  also have "\<dots> \<le> k * c" using False by (intro mult_le_mono2) simp
  finally show ?thesis .
qed

lemma balanced_plan_total:
  fixes req :: u64
  assumes "\<And>r. r \<in> set rs \<Longrightarrow> c \<le> unat (av r)" "unat req \<le> length rs * c" "c < 2 ^ 31" "length rs < 2 ^ 64"
  shows "(\<Sum>p\<leftarrow>booking_plan BALANCED av rs req (of_nat (length rs)). unat (snd p)) = unat req"
  using assms(1,2,4)
proof (induction rs arbitrary: req)
  case (Cons r rs)
  show ?case
  proof (cases "req = 0")
    case False
    let ?N = "Suc (length rs)"
    let ?q = "req div of_nat ?N"
    have N: "unat (of_nat ?N :: u64) = ?N" using Cons.prems(3) unfolding unat_of_nat by simp
    have q: "unat ?q = unat req div ?N" using N by (simp add: unat_div)
    have "unat req div ?N \<le> c" using Cons.prems(2) by (metis length_Cons div_le_mono nonzero_mult_div_cancel_left nat.distinct(1))
    then have share: "alloc_per_resource BALANCED req (of_nat ?N) = ?q"
      unfolding alloc_per_resource_def using int_share_exact [of ?q] q assms(3) by simp
    define t where "t = take_amount BALANCED (av r) req (of_nat ?N)"
    have t: "unat t \<le> unat req \<and> unat req - unat t \<le> length rs * c"
    proof (cases "?q = 0")
      case True
      then have "t = min (av r) req"
        unfolding t_def take_amount_def share by (auto simp: sched_amount_def min_def)
      then have "unat t = min (unat (av r)) (unat req)" by (simp add: min_def word_le_nat_alt)
      then show ?thesis using Cons.prems(1) [of r] Cons.prems(2) by auto
    next
      case False
      have "?q \<le> av r" using \<open>unat req div ?N \<le> c\<close> Cons.prems(1) [of r] q by (simp add: word_le_nat_alt)
      then have "t = ?q"
        unfolding t_def take_amount_def share using False by (simp add: sched_amount_def word_neq_0_conv)
      then show ?thesis using q balanced_rest [of "unat req" "length rs" c] Cons.prems(2) by simp
    qed
    have sub: "unat (req - t) = unat req - unat t" using t by (simp add: unat_sub word_le_nat_alt)
    have "(\<Sum>p\<leftarrow>booking_plan BALANCED av rs (req - t) (of_nat (length rs)). unat (snd p)) = unat (req - t)"
      by (rule Cons.IH) (use Cons.prems t sub in simp_all)
    moreover have "take_amount BALANCED (av r) req (1 + of_nat (length rs)) = t" by (simp add: t_def)
    ultimately show ?thesis using False t sub by (simp add: Let_def)
  qed simp
qed simp

text \<open>C33: balanced filling gives the whole amount when every bound descriptor has its share free:
  if some \<open>c\<close> below \<open>2 ^ 31\<close> is free on each and the amount is at most \<open>c\<close> times their number,
  the amounts the application holds after the booking add up to the amount requested.\<close>

theorem balanced_booking_meets_request:
  assumes "bookable u v m ra a" "(p, e) \<in> set m" "fill_policy e = BALANCED"
    "\<forall>r\<in>set (ra_resources e). c \<le> free_amount v (robj_of ra r)" "unat (ra_amount e) \<le> length (ra_resources e) * c"
    "c < 2 ^ 31" "length (ra_resources e) < 2 ^ 64"
  shows "\<exists>ra'. IncBookingCounts m u v ra = (RA_SUCCESS, ra') \<and>
    (\<Sum>r\<leftarrow>ra_resources e. held v u (robj_of ra' r)) = unat (ra_amount e)"
proof -
  let ?h = "robj (ra_heap ra)"
  have cb: "can_book u v (map_resources m) ?h" using assms(1) by (simp add: bookable_def)
  have "(\<Sum>p\<leftarrow>entry_plan v ?h e. unat (snd p)) = unat (ra_amount e)"
    unfolding entry_plan_def assms(3)
    by (rule balanced_plan_total [OF _ assms(5-7)]) (use assms(4) in \<open>simp add: unat_avail\<close>)
  then show ?thesis
    using held_after_booking [OF cb assms(2)] IncBookingCounts_plan [OF assms(1)] by simp
qed

theorem balanced_booking_meets_request_witness:
  "\<exists>ra'. IncBookingCounts (twelve BALANCED) 7 5 ra_ten = (RA_SUCCESS, ra') \<and>
     held 5 7 (robj_of ra' 1) + held 5 7 (robj_of ra' 2) = 12"
proof -
  define e where "e = (ResourceAssignment_new 31 12 BALANCED)\<lparr>ra_resources := [1, 2]\<rparr>"
  have e: "twelve BALANCED = [(Path_empty, e)]" "fill_policy e = BALANCED" "ra_resources e = [1, 2]" "ra_amount e = 12"
    by (simp_all add: e_def twelve_def ResourceAssignment_new_def)
  show ?thesis
    using balanced_booking_meets_request [OF bookable_ra_ten [of BALANCED], of Path_empty e 10] e by simp
qed

definition ra_uneven :: ResourceAccounter where
  "ra_uneven = ra_ten\<lparr>ra_heap := \<lparr>robj = (\<lambda>r. Resource_new 31 CPU (int r) (if r = 1 then 9 else 2)), rnext = 3\<rparr>\<rparr>"

definition eleven_balanced :: ResourceAssignment where
  "eleven_balanced = (ResourceAssignment_new 31 11 BALANCED)\<lparr>ra_resources := [1, 2]\<rparr>"

lemma ra_uneven_simps [simp]:
  "robj (ra_heap ra_uneven) r = Resource_new 31 CPU (int r) (if r = 1 then 9 else 2)" "Synching ra_uneven = False"
  "rsrc_per_views ra_uneven = [5 \<mapsto> {}]" "assign_per_views ra_uneven = [5 \<mapsto> 1]" "assign_objs ra_uneven a = []"
  using ra_ten_simps by (simp_all add: ra_uneven_def Synching_def)

lemma uneven_plan: "entry_plan 5 (robj (ra_heap ra_uneven)) eleven_balanced = [(1, 5), (2, 2)]"
  by (simp add: entry_plan_def eleven_balanced_def ResourceAssignment_new_def take_amount_def sched_amount_def
      alloc_per_resource_def)

lemma uneven_can_book: "can_book 7 5 [1, 2] (robj (ra_heap ra_uneven))"
  by (auto simp: can_book_def usage_of_def Resource_new_def within_def load_of_def resource_ok_def)

text \<open>Balanced filling may give less than what was asked for, and the shortfall is lost. With
  nine units free on one descriptor and two on the other, a request of eleven passes the
  availability check, \<open>DoResourceBooking\<close> reports that it could not take it all, and
  \<open>BookResources\<close> nevertheless reports success with seven units held.\<close>

theorem balanced_shortfall_is_lost:
  "CheckAvailability [(Path_empty, eleven_balanced)] 5 None ra_uneven = RA_SUCCESS \<and>
   fst (DoResourceBooking 7 eleven_balanced 5 ra_uneven) = RA_ERR_USAGE_EXC \<and>
   (\<exists>ra'. BookResources (Some 7) (Some [(Path_empty, eleven_balanced)]) 5 ra_uneven = Inr (RA_SUCCESS, ra') \<and>
     held 5 7 (robj_of ra' 1) + held 5 7 (robj_of ra' 2) = 7)"
proof (intro conjI)
  have a: "ra_resources eleven_balanced = [1, 2]" "ra_amount eleven_balanced = 11" "fill_policy eleven_balanced = BALANCED"
    by (simp_all add: eleven_balanced_def ResourceAssignment_new_def)
  show check: "CheckAvailability [(Path_empty, eleven_balanced)] 5 None ra_uneven = RA_SUCCESS"
    by (simp add: a QueryStatus_def Available_None_free)
  have plan: "booking_plan BALANCED (avail 5 (robj (ra_heap ra_uneven))) [1, 2] 11 2 = [(1, 5), (2, 2)]"
    using uneven_plan by (simp add: entry_plan_def a)
  show "fst (DoResourceBooking 7 eleven_balanced 5 ra_uneven) = RA_ERR_USAGE_EXC"
    using DoResourceBooking_loop_plan [OF _ uneven_can_book, of BALANCED 11 2] plan
    by (simp add: DoResourceBooking_def a)
  have b: "bookable 7 5 [(Path_empty, eleven_balanced)] ra_uneven 1"
    using uneven_can_book by (simp add: bookable_def map_resources_def a GetAppAssignmentsByView_def)
  then have cb: "can_book 7 5 (map_resources [(Path_empty, eleven_balanced)]) (robj (ra_heap ra_uneven))"
    by (simp add: bookable_def)
  show "\<exists>ra'. BookResources (Some 7) (Some [(Path_empty, eleven_balanced)]) 5 ra_uneven = Inr (RA_SUCCESS, ra') \<and>
      held 5 7 (robj_of ra' 1) + held 5 7 (robj_of ra' 2) = 7"
    using IncBookingCounts_plan [OF b] check
      held_after_booking [OF cb, of Path_empty eleven_balanced "sys_view_token ra_uneven"] uneven_plan
    by (simp add: BookResources_def a)
qed

end
