(* ===== verification/Accounter_Views.thy ===== *)
theory Accounter_Views
  imports Accounter_Booking
begin

text \<open>
  The resource state views and the synchronisation sessions of the accounter
  (\<^verbatim>\<open>bbque/resource_accounter.cc\<close>). A view is a token with a map of assignments and a set of
  descriptors; one view is the system view. A session books the running and the scheduled
  applications in a view of its own, and a commit makes that view the system view.

  The token of a view is the hash of a text; the hash of the standard library is the parameter
  \<open>hsh\<close>. The running applications, with the assignments of their current working mode, are an
  argument of \<open>SyncStart\<close>, and the assignments of the next working mode one of
  \<open>SyncAcquireResources\<close>. The call \<open>UpdateBindingInfo\<close> that ends the latter recomputes masks
  and stores none of them, since its second argument is left at \<open>false\<close>.
\<close>

section \<open>Views\<close>

definition assign_views_emplace :: "RViewToken \<Rightarrow> ResourceAccounter \<Rightarrow> ResourceAccounter" where
  "assign_views_emplace token ra =
     (case assign_per_views ra token of
        Some _ \<Rightarrow> ra
      | None \<Rightarrow> ra\<lparr>assign_objs := (assign_objs ra)(assign_next ra := []),
                  assign_per_views := (assign_per_views ra)(token \<mapsto> assign_next ra),
                  assign_next := assign_next ra + 1\<rparr>)"

definition rsrc_views_emplace :: "RViewToken \<Rightarrow> ResourceAccounter \<Rightarrow> ResourceAccounter" where
  "rsrc_views_emplace token ra =
     (case rsrc_per_views ra token of
        Some _ \<Rightarrow> ra
      | None \<Rightarrow> ra\<lparr>rsrc_per_views := (rsrc_per_views ra)(token \<mapsto> {})\<rparr>)"

definition GetView_unlocked :: "(string \<Rightarrow> u64) \<Rightarrow> string \<Rightarrow> RViewToken \<Rightarrow> ResourceAccounter \<Rightarrow>
    RAExitCode \<times> RViewToken \<times> ResourceAccounter" where
  "GetView_unlocked hsh req_path token ra =
     (if req_path = [] then (RA_ERR_MISS_PATH, token, ra)
      else let token' = hsh req_path
           in (RA_SUCCESS, token', rsrc_views_emplace token' (assign_views_emplace token' ra)))"

definition GetView :: "(string \<Rightarrow> u64) \<Rightarrow> string \<Rightarrow> RViewToken \<Rightarrow> ResourceAccounter \<Rightarrow>
    fault + RAExitCode \<times> RViewToken \<times> ResourceAccounter" where
  "GetView hsh req_path token ra =
     seq_fault (WaitForPlatformReady ra) (\<lambda>_. Inr (GetView_unlocked hsh req_path token ra))"

definition PutView_unlocked :: "RViewToken \<Rightarrow> ResourceAccounter \<Rightarrow> RAExitCode \<times> ResourceAccounter" where
  "PutView_unlocked status_view ra =
     (if status_view = sys_view_token ra then (RA_ERR_UNAUTH_VIEW, ra)
      else case rsrc_per_views ra status_view of
        None \<Rightarrow> (RA_ERR_MISS_VIEW, ra)
      | Some rs \<Rightarrow>
          (RA_SUCCESS,
           ra\<lparr>ra_heap := (ra_heap ra)\<lparr>robj := (\<lambda>r.
                if r \<in> rs then DeleteView (sys_view_token ra) status_view (robj_of ra r) else robj_of ra r)\<rparr>,
              assign_per_views := (assign_per_views ra)(status_view := None),
              rsrc_per_views := (rsrc_per_views ra)(status_view := None)\<rparr>))"

definition PutView :: "RViewToken \<Rightarrow> ResourceAccounter \<Rightarrow> fault + RAExitCode \<times> ResourceAccounter" where
  "PutView status_view ra =
     seq_fault (WaitForPlatformReady ra) (\<lambda>_. Inr (PutView_unlocked status_view ra))"

definition SetView_unlocked :: "RViewToken \<Rightarrow> ResourceAccounter \<Rightarrow> RViewToken \<times> ResourceAccounter" where
  "SetView_unlocked status_view ra =
     (if status_view = sys_view_token ra then (sys_view_token ra, ra)
      else case assign_per_views ra status_view of
        None \<Rightarrow> (sys_view_token ra, ra)
      | Some a \<Rightarrow>
          let old = sys_view_token ra;
              ra1 = ra\<lparr>sys_view_token := status_view, sys_assign_view := a\<rparr>;
              ra2 = snd (PutView_unlocked old ra1);
              ra3 = ra2\<lparr>assign_per_views := (assign_per_views ra2)(status_view := None)\<rparr>
          in (sys_view_token ra3, ra3))"

definition SetView :: "RViewToken \<Rightarrow> ResourceAccounter \<Rightarrow> fault + RViewToken \<times> ResourceAccounter" where
  "SetView status_view ra =
     seq_fault (WaitForPlatformReady ra) (\<lambda>_. Inr (SetView_unlocked status_view ra))"

definition SetScheduledView :: "RViewToken \<Rightarrow> ResourceAccounter \<Rightarrow> ResourceAccounter" where
  "SetScheduledView svt ra =
     (let old_svt = sch_view_token ra;
          ra1 = ra\<lparr>sch_view_token := svt\<rparr>
      in if old_svt \<noteq> sys_view_token ra1 then snd (PutView_unlocked old_svt ra1) else ra1)"

section \<open>Synchronisation sessions\<close>

definition SyncFinalize :: "ResourceAccounter \<Rightarrow> RAExitCode \<times> ResourceAccounter" where
  "SyncFinalize ra = (if \<not> Synching ra then (RA_ERR_SYNC_START, ra) else (RA_SUCCESS, SetState RA_READY ra))"

definition SyncAbort :: "ResourceAccounter \<Rightarrow> ResourceAccounter" where
  "SyncAbort ra = snd (SyncFinalize (snd (PutView_unlocked (ss_view (sync_ssn ra)) ra)))"

fun SyncInit :: "(AppUid \<times> AssignMap) list \<Rightarrow> ResourceAccounter \<Rightarrow> RAExitCode \<times> ResourceAccounter" where
  "SyncInit [] ra = (RA_SUCCESS, ra)"
| "SyncInit ((papp, binding) # running) ra =
     (let (result, ra') = BookResources_unchecked papp binding (ss_view (sync_ssn ra)) ra
      in if result \<noteq> RA_SUCCESS then (RA_ERR_SYNC_INIT, SyncAbort ra') else SyncInit running ra')"

definition sync_token_path :: "u32 \<Rightarrow> string" where
  "sync_token_path count = take 29 (''ra.sync.'' @ to_string (sint count))"

definition SyncStart :: "(string \<Rightarrow> u64) \<Rightarrow> (AppUid \<times> AssignMap) list \<Rightarrow> ResourceAccounter \<Rightarrow>
    fault + RAExitCode \<times> ResourceAccounter" where
  "SyncStart hsh running ra =
     seq_fault (WaitForPlatformReady ra) (\<lambda>_.
       let ra1 = SetState RA_SYNC ra;
           ra2 = ra1\<lparr>sync_ssn := (sync_ssn ra1)\<lparr>ss_count := ss_count (sync_ssn ra1) + 1\<rparr>\<rparr>;
           (result, view, ra3) = GetView_unlocked hsh (sync_token_path (ss_count (sync_ssn ra2)))
                                   (ss_view (sync_ssn ra2)) ra2;
           ra4 = ra3\<lparr>sync_ssn := (sync_ssn ra3)\<lparr>ss_view := view\<rparr>\<rparr>
       in Inr (if result \<noteq> RA_SUCCESS then (RA_ERR_SYNC_VIEW, SyncAbort ra4) else SyncInit running ra4))"

definition SyncAcquireResources :: "AppUid \<Rightarrow> AssignMap option \<Rightarrow> ResourceAccounter \<Rightarrow>
    RAExitCode \<times> ResourceAccounter" where
  "SyncAcquireResources papp next_binding ra =
     (if \<not> Synching ra then (RA_ERR_SYNC_START, ra)
      else case next_binding of
        None \<Rightarrow> (RA_ERR_MISS_AWM, SyncAbort ra)
      | Some assign_map \<Rightarrow>
          let (result, ra') = BookResources_unchecked papp assign_map (ss_view (sync_ssn ra)) ra
          in if result \<noteq> RA_SUCCESS then (result, SyncAbort ra') else (result, ra'))"

definition SyncCommit :: "ResourceAccounter \<Rightarrow> RAExitCode \<times> ResourceAccounter" where
  "SyncCommit ra =
     (if \<not> Synching ra then (RA_ERR_SYNC_START, ra)
      else let (view, ra1) = SetView_unlocked (ss_view (sync_ssn ra)) ra
           in if view \<noteq> ss_view (sync_ssn ra1) then (RA_ERR_SYNC_VIEW, SyncAbort ra1)
              else (RA_SUCCESS, snd (SyncFinalize (SetScheduledView (sys_view_token ra1) ra1))))"

definition SyncWait :: "ResourceAccounter \<Rightarrow> fault + unit" where
  "SyncWait ra = (if ra_status ra = RA_SYNC then Inl WouldBlock else Inr ())"

section \<open>The tables of views\<close>

definition views_ok :: "ResourceAccounter \<Rightarrow> bool" where
  "views_ok ra \<longleftrightarrow>
     (\<forall>v a. assign_per_views ra v = Some a \<longrightarrow> a < assign_next ra) \<and> sys_assign_view ra < assign_next ra \<and>
     (\<forall>v w a. assign_per_views ra v = Some a \<longrightarrow> assign_per_views ra w = Some a \<longrightarrow> v = w) \<and>
     (\<forall>v. assign_per_views ra v = Some (sys_assign_view ra) \<longrightarrow> v = sys_view_token ra) \<and>
     (\<forall>v. rsrc_per_views ra v = None \<longrightarrow> assign_per_views ra v = None) \<and>
     rsrc_per_views ra (sys_view_token ra) \<noteq> None \<and> (\<forall>a. om_ok (assign_objs ra a))"

text \<open>An operation that keeps the tables: it creates and drops no view.\<close>

definition keeps_views :: "ResourceAccounter \<Rightarrow> ResourceAccounter \<Rightarrow> bool" where
  "keeps_views ra ra' \<longleftrightarrow> assign_per_views ra' = assign_per_views ra \<and> assign_next ra' = assign_next ra \<and>
     sys_assign_view ra' = sys_assign_view ra \<and> sys_view_token ra' = sys_view_token ra \<and>
     (\<forall>w. rsrc_per_views ra' w = None \<longleftrightarrow> rsrc_per_views ra w = None) \<and>
     ((\<forall>a. om_ok (assign_objs ra a)) \<longrightarrow> (\<forall>a. om_ok (assign_objs ra' a)))"

named_theorems keeps

lemma keeps_refl [simp, keeps]: "keeps_views ra ra"
  by (simp add: keeps_views_def)

lemma keeps_trans [trans]: "keeps_views ra ra1 \<Longrightarrow> keeps_views ra1 ra2 \<Longrightarrow> keeps_views ra ra2"
  by (simp add: keeps_views_def)

lemma views_ok_keeps: "keeps_views ra ra' \<Longrightarrow> views_ok ra \<Longrightarrow> views_ok ra'"
  unfolding keeps_views_def views_ok_def by metis

lemma keeps_upd_res [keeps]: "keeps_views ra (upd_res r f ra)"
  by (simp add: keeps_views_def upd_res_def)

lemma keeps_SetState [keeps]: "keeps_views ra (SetState s ra)"
  by (simp add: keeps_views_def SetState_def)

lemma keeps_rsrc_set [keeps]: "keeps_views ra (rsrc_set_insert v r ra)" "keeps_views ra (rsrc_set_erase v r ra)"
  by (simp_all add: keeps_views_def rsrc_set_insert_def rsrc_set_erase_def)

lemma keeps_assign_upd [keeps]:
  "(\<And>m. om_ok m \<Longrightarrow> om_ok (f m)) \<Longrightarrow> keeps_views ra (assign_upd a f ra)"
  by (simp add: keeps_views_def assign_upd_def)

lemma keeps_SchedResourceBooking [keeps]: "keeps_views ra (snd (SchedResourceBooking u r v req al ra))"
  by (auto simp: SchedResourceBooking_def keeps split: prod.splits)

lemma keeps_SyncResourceBooking [keeps]: "keeps_views ra (snd (SyncResourceBooking u r req ra))"
  by (auto simp: SyncResourceBooking_def keeps Let_def split: prod.splits)

lemma keeps_DoResourceBooking_loop [keeps]:
  "keeps_views ra (snd (DoResourceBooking_loop u pol v rs req n ra))"
proof (induction rs arbitrary: req n ra)
  case (Cons r rs)
  let ?ra1 = "rsrc_set_insert v r ra"
  show ?case
  proof (cases "req = 0")
    case False
    obtain q1 ra2 where s: "SyncResourceBooking u r req ?ra1 = (q1, ra2)" by fastforce
    obtain q2 ra3 where b: "SchedResourceBooking u r v req (alloc_per_resource pol req n) ?ra1 = (q2, ra3)" by fastforce
    have k: "keeps_views ra ra2" "keeps_views ra ra3"
      using keeps_SyncResourceBooking [of ?ra1 u r req] keeps_SchedResourceBooking [of ?ra1 u r v req "alloc_per_resource pol req n"]
        keeps_trans [OF keeps_rsrc_set(1) [of ra v r]] s b by simp_all
    show ?thesis
      using False s b by (simp add: Let_def keeps_trans [OF k(1) Cons.IH] keeps_trans [OF k(2) Cons.IH])
  qed simp
qed simp

lemma keeps_DoResourceBooking [keeps]: "keeps_views ra (snd (DoResourceBooking u a v ra))"
  using keeps_DoResourceBooking_loop by (auto simp: DoResourceBooking_def split: prod.splits) (metis snd_conv)+

lemma keeps_IncBookingCounts_loop [keeps]: "keeps_views ra (IncBookingCounts_loop m u v ra)"
  by (induction m u v ra rule: IncBookingCounts_loop.induct)
    (simp_all add: keeps_trans [OF keeps_DoResourceBooking])

lemma keeps_IncBookingCounts [keeps]: "keeps_views ra (snd (IncBookingCounts m u v ra))"
  by (cases "rsrc_per_views ra v"; cases "GetAppAssignmentsByView v ra")
    (simp_all add: IncBookingCounts_def keeps_trans [OF keeps_IncBookingCounts_loop keeps_assign_upd])

lemma keeps_UndoResourceBooking_loop [keeps]: "keeps_views ra (UndoResourceBooking_loop u am v rs freed ra)"
proof (induction rs arbitrary: freed ra)
  case (Cons r rs)
  obtain f x where "Release (sys_view_token ra) u v (robj_of ra r) = (f, x)" by fastforce
  then show ?case
    by (simp add: Let_def keeps_trans [OF keeps_trans [OF keeps_upd_res keeps_rsrc_set(2)] Cons.IH]
        keeps_trans [OF keeps_upd_res Cons.IH])
qed simp

lemma keeps_DecBookingCounts_loop [keeps]: "keeps_views ra (DecBookingCounts_loop m u v ra)"
  by (induction m u v ra rule: DecBookingCounts_loop.induct) (simp_all add: UndoResourceBooking_def keeps_trans [OF keeps_UndoResourceBooking_loop])

lemma keeps_ReleaseResources_view [keeps]: "keeps_views ra (ReleaseResources_view u v ra)"
proof -
  have d: "keeps_views ra (DecBookingCounts m u v ra)" for m
    by (cases "rsrc_per_views ra v") (simp_all add: DecBookingCounts_def keeps)
  have "keeps_views ra (assign_upd a (om_erase u) (DecBookingCounts m u v ra))" for a m
    by (rule keeps_trans [OF d keeps_assign_upd]) simp
  then show ?thesis by (simp add: ReleaseResources_view_def split: option.splits sum.splits)
qed

lemma keeps_ReleaseResources [keeps]: "keeps_views ra (ReleaseResources p v ra)"
  by (cases p) (simp_all add: ReleaseResources_def Let_def keeps_ReleaseResources_view
      keeps_trans [OF keeps_ReleaseResources_view keeps_ReleaseResources_view])

lemma keeps_BookResources [keeps]: "BookResources p m v ra = Inr (c, ra') \<Longrightarrow> keeps_views ra ra'"
  using keeps_IncBookingCounts by (auto simp: BookResources_def split: option.splits if_splits) (metis snd_conv)+

lemma keeps_RegisterResource [keeps]: "RegisterResource mx s units am ra = (r, ra') \<Longrightarrow> keeps_views ra ra'"
  by (auto simp: RegisterResource_def Let_def keeps_views_def upd_res_def split: prod.splits)

lemma keeps_GetPath [keeps]: "keeps_views ra (snd (GetPath mx s ra))"
  by (auto simp: GetPath_def Let_def keeps_views_def split: option.splits)

lemma keeps_reserve_loop [keeps]: "keeps_views ra (snd (reserve_loop am rs ra))"
proof (induction rs arbitrary: ra)
  case (Cons r rs)
  obtain c x where "Reserve am (robj_of ra r) = (c, x)" by fastforce
  then show ?case by (simp add: Let_def keeps_upd_res keeps_trans [OF keeps_upd_res Cons.IH])
qed simp

lemma keeps_ReserveResources_path [keeps]: "keeps_views ra (snd (ReserveResources_path p am ra))"
  by (simp add: ReserveResources_path_def Let_def keeps)

lemma keeps_ReserveResources [keeps]: "keeps_views ra (snd (ReserveResources mx s am ra))"
  using keeps_GetPath [of ra mx s] keeps_trans [OF _ keeps_ReserveResources_path]
  by (auto simp: ReserveResources_def split: prod.splits option.splits)

lemma keeps_upd_all [keeps]: "keeps_views ra (upd_all f rs ra)"
proof (induction rs arbitrary: ra)
  case (Cons r rs)
  show ?case using keeps_trans [OF keeps_upd_res Cons.IH] by simp
qed simp

lemma keeps_Offline [keeps]: "keeps_views ra (snd (OfflineResources mx s ra))"
  using keeps_GetPath [of ra mx s] keeps_trans [OF _ keeps_upd_all]
  by (auto simp: OfflineResources_def GetResources_def Let_def split: prod.splits option.splits)

lemma keeps_Online [keeps]: "keeps_views ra (snd (OnlineResources mx s ra))"
  using keeps_GetPath [of ra mx s] keeps_trans [OF _ keeps_upd_all]
  by (auto simp: OnlineResources_def GetResources_def Let_def split: prod.splits option.splits)

lemma keeps_UpdateResource [keeps]:
  assumes "UpdateResource mx s units am ra = Inr (c, ra')"
  shows "keeps_views ra ra'"
proof -
  obtain po ra1 where gp: "GetPath mx s ra = (po, ra1)" by fastforce
  have k1: "keeps_views ra ra1" using keeps_GetPath [of ra mx s] gp by simp
  show ?thesis
  proof (cases po)
    case None
    then show ?thesis using assms gp k1 by (simp add: UpdateResource_def)
  next
    case (Some p)
    show ?thesis
    proof (cases "GetResource_path p ra1")
      case None
      then show ?thesis using assms gp k1 Some by (simp add: UpdateResource_def)
    next
      case r: (Some r)
      define ra2 where "ra2 = (if am = 0 then upd_res r SetOffline (SetState RA_NOT_READY ra1) else SetState RA_NOT_READY ra1)"
      have k2: "keeps_views ra ra2"
        unfolding ra2_def using k1 keeps_trans [OF k1 keeps_SetState] keeps_trans [OF keeps_trans [OF k1 keeps_SetState] keeps_upd_res]
        by simp
      let ?rr = "total (robj_of ra2 r) - ConvertValue am units"
      have "ra' = SetState RA_READY ra2 \<or> ra' = SetState RA_READY (upd_res r SetOnline (snd (ReserveResources_path p ?rr ra2)))"
        using assms gp Some r unfolding UpdateResource_def ra2_def
        by (cases "WaitForPlatformReady ra1") (auto simp: Let_def split: prod.splits if_splits)
      then show ?thesis
        using keeps_trans [OF k2 keeps_SetState]
          keeps_trans [OF keeps_trans [OF keeps_trans [OF k2 keeps_ReserveResources_path] keeps_upd_res] keeps_SetState]
        by auto
    qed
  qed
qed

section \<open>The views of reachable states\<close>

lemma views_ok_new: "views_ok (ResourceAccounter_new mx H)"
  by (simp add: views_ok_def ResourceAccounter_new_def split: prod.splits)

lemma views_ok_assign_emplace: "views_ok ra \<Longrightarrow> views_ok (rsrc_views_emplace t (assign_views_emplace t ra))"
proof -
  assume ok: "views_ok ra"
  have lt: "assign_per_views ra v \<noteq> Some (assign_next ra)" "sys_assign_view ra \<noteq> assign_next ra" for v
    using ok by (auto simp: views_ok_def)
  show ?thesis
  proof (cases "assign_per_views ra t")
    case (Some a)
    then have "rsrc_per_views ra t \<noteq> None" using ok by (auto simp: views_ok_def)
    then show ?thesis using Some ok by (auto simp: assign_views_emplace_def rsrc_views_emplace_def)
  next
    case None
    then show ?thesis
      using ok lt by (cases "rsrc_per_views ra t")
        (auto simp: views_ok_def assign_views_emplace_def rsrc_views_emplace_def less_Suc_eq)
  qed
qed

lemma views_ok_GetView:
  "views_ok ra \<Longrightarrow> GetView_unlocked hsh s t ra = (c, t', ra') \<Longrightarrow> views_ok ra'"
  using views_ok_assign_emplace by (auto simp: GetView_unlocked_def Let_def split: if_splits)

lemma views_ok_PutView: "views_ok ra \<Longrightarrow> views_ok (snd (PutView_unlocked v ra))"
  by (cases "rsrc_per_views ra v") (auto simp: views_ok_def PutView_unlocked_def)

lemma views_ok_SetView: "views_ok ra \<Longrightarrow> views_ok (snd (SetView_unlocked v ra))"
proof (cases "v = sys_view_token ra \<or> assign_per_views ra v = None")
  case False
  assume ok: "views_ok ra"
  from False obtain a where a: "v \<noteq> sys_view_token ra" "assign_per_views ra v = Some a" by auto
  let ?ra1 = "ra\<lparr>sys_view_token := v, sys_assign_view := a\<rparr>"
  have "views_ok ?ra1" using ok a unfolding views_ok_def by auto
  then have "views_ok (snd (PutView_unlocked (sys_view_token ra) ?ra1))" by (rule views_ok_PutView)
  then show ?thesis using a by (auto simp: SetView_unlocked_def Let_def views_ok_def)
qed (auto simp: SetView_unlocked_def)


text \<open>The operations of the accounter, in any order.\<close>

inductive acc_step :: "(string \<Rightarrow> u64) \<Rightarrow> int \<Rightarrow> ResourceAccounter \<Rightarrow> ResourceAccounter \<Rightarrow> bool" for hsh mx where
  step_Register: "RegisterResource mx s units am ra = (r, ra') \<Longrightarrow> acc_step hsh mx ra ra'"
| step_Update: "UpdateResource mx s units am ra = Inr (c, ra') \<Longrightarrow> acc_step hsh mx ra ra'"
| step_Reserve: "ReserveResources mx s am ra = (c, ra') \<Longrightarrow> acc_step hsh mx ra ra'"
| step_Offline: "OfflineResources mx s ra = (c, ra') \<Longrightarrow> acc_step hsh mx ra ra'"
| step_Online: "OnlineResources mx s ra = (c, ra') \<Longrightarrow> acc_step hsh mx ra ra'"
| step_Ready: "SetPlatformReady ra = Inr ra' \<Longrightarrow> acc_step hsh mx ra ra'"
| step_NotReady: "SetPlatformNotReady ra = Inr ra' \<Longrightarrow> acc_step hsh mx ra ra'"
| step_Book: "BookResources p m v ra = Inr (c, ra') \<Longrightarrow> acc_step hsh mx ra ra'"
| step_Release: "ReleaseResources p v ra = ra' \<Longrightarrow> acc_step hsh mx ra ra'"
| step_GetView: "GetView hsh s t ra = Inr (c, t', ra') \<Longrightarrow> acc_step hsh mx ra ra'"
| step_PutView: "PutView v ra = Inr (c, ra') \<Longrightarrow> acc_step hsh mx ra ra'"
| step_SetView: "SetView v ra = Inr (w, ra') \<Longrightarrow> acc_step hsh mx ra ra'"
| step_SetScheduledView: "SetScheduledView v ra = ra' \<Longrightarrow> acc_step hsh mx ra ra'"
| step_SyncStart: "SyncStart hsh running ra = Inr (c, ra') \<Longrightarrow> acc_step hsh mx ra ra'"
| step_SyncAcquire: "SyncAcquireResources u b ra = (c, ra') \<Longrightarrow> acc_step hsh mx ra ra'"
| step_SyncAbort: "SyncAbort ra = ra' \<Longrightarrow> acc_step hsh mx ra ra'"
| step_SyncCommit: "SyncCommit ra = (c, ra') \<Longrightarrow> acc_step hsh mx ra ra'"

text \<open>A property of states that the primitive changes of the tables keep is kept by every
  operation.\<close>

locale views_invariant =
  fixes P :: "ResourceAccounter \<Rightarrow> bool" and hsh :: "string \<Rightarrow> u64"
  assumes P_keeps: "keeps_views ra ra' \<Longrightarrow> P ra \<Longrightarrow> P ra'"
    and P_emplace: "P ra \<Longrightarrow> P (rsrc_views_emplace (hsh s) (assign_views_emplace (hsh s) ra))"
    and P_put: "P ra \<Longrightarrow> P (snd (PutView_unlocked v ra))"
    and P_set: "P ra \<Longrightarrow> P (snd (SetView_unlocked v ra))"
begin

lemma P_tokens: "P ra \<Longrightarrow> P (ra\<lparr>sync_ssn := x\<rparr>)" "P ra \<Longrightarrow> P (ra\<lparr>sch_view_token := v\<rparr>)" "P ra \<Longrightarrow> P (SetState s ra)"
  by (rule P_keeps; simp add: keeps_views_def SetState_def)+

lemma P_GetView: "P ra \<Longrightarrow> GetView_unlocked hsh s t ra = (c, t', ra') \<Longrightarrow> P ra'"
  using P_emplace by (auto simp: GetView_unlocked_def Let_def split: if_splits)

lemma P_SetScheduledView: "P ra \<Longrightarrow> P (SetScheduledView v ra)"
  using P_tokens(2) P_put by (simp add: SetScheduledView_def Let_def)

lemma P_SyncFinalize: "P ra \<Longrightarrow> P (snd (SyncFinalize ra))"
  using P_tokens(3) by (simp add: SyncFinalize_def)

lemma P_SyncAbort: "P ra \<Longrightarrow> P (SyncAbort ra)"
  using P_put P_SyncFinalize by (simp add: SyncAbort_def)

lemma P_BookResources_unchecked: "P ra \<Longrightarrow> P (snd (BookResources_unchecked u m v ra))"
  using P_keeps [OF keeps_IncBookingCounts] by (simp add: BookResources_unchecked_def)

lemma P_SyncInit: "P ra \<Longrightarrow> P (snd (SyncInit running ra))"
proof (induction running ra rule: SyncInit.induct)
  case (2 u m running ra)
  obtain c ra' where b: "BookResources_unchecked u m (ss_view (sync_ssn ra)) ra = (c, ra')" by fastforce
  have "P ra'" using P_BookResources_unchecked [OF "2.prems", of u m "ss_view (sync_ssn ra)"] b by simp
  then show ?case using "2.IH" [OF b [symmetric]] b P_SyncAbort by auto
qed simp

lemma P_SyncStart:
  assumes "P ra" "SyncStart hsh running ra = Inr (c, ra')"
  shows "P ra'"
proof -
  let ?ra2 = "(SetState RA_SYNC ra)\<lparr>sync_ssn := (sync_ssn (SetState RA_SYNC ra))\<lparr>ss_count := ss_count (sync_ssn (SetState RA_SYNC ra)) + 1\<rparr>\<rparr>"
  obtain r view ra3 where g: "GetView_unlocked hsh (sync_token_path (ss_count (sync_ssn ?ra2))) (ss_view (sync_ssn ?ra2)) ?ra2 = (r, view, ra3)"
    by (metis prod_cases3)
  have "P ?ra2" by (intro P_tokens assms(1))
  from P_tokens(1) [OF P_GetView [OF this g]] have ok3: "P (ra3\<lparr>sync_ssn := x\<rparr>)" for x by simp
  show ?thesis
    using assms(2) g P_SyncInit [OF ok3] P_SyncAbort [OF ok3]
    by (cases "WaitForPlatformReady ra") (auto simp: SyncStart_def Let_def split: if_splits, (metis snd_conv)+)
qed

lemma P_SyncAcquireResources: "P ra \<Longrightarrow> P (snd (SyncAcquireResources u b ra))"
  using P_BookResources_unchecked P_SyncAbort
  by (auto simp: SyncAcquireResources_def Let_def split: option.splits prod.splits) (metis snd_conv)+

lemma P_SyncCommit: "P ra \<Longrightarrow> P (snd (SyncCommit ra))"
proof -
  assume ok: "P ra"
  obtain w ra1 where s: "SetView_unlocked (ss_view (sync_ssn ra)) ra = (w, ra1)" by fastforce
  have ok1: "P ra1" using P_set [OF ok] s by (metis snd_conv)
  then show ?thesis
    using ok s P_SyncAbort [OF ok1] P_SyncFinalize [OF P_SetScheduledView [OF ok1]] by (simp add: SyncCommit_def)
qed

lemma P_step:
  assumes "acc_step hsh mx ra ra'" "P ra"
  shows "P ra'"
  using assms
proof (cases rule: acc_step.cases)
  case step_Register
  then show ?thesis using P_keeps [OF keeps_RegisterResource] assms(2) by blast
next
  case step_Update
  then show ?thesis using P_keeps [OF keeps_UpdateResource] assms(2) by blast
next
  case step_Reserve
  then show ?thesis using P_keeps [OF keeps_ReserveResources] assms(2) by (metis snd_conv)
next
  case step_Offline
  then show ?thesis using P_keeps [OF keeps_Offline] assms(2) by (metis snd_conv)
next
  case step_Online
  then show ?thesis using P_keeps [OF keeps_Online] assms(2) by (metis snd_conv)
next
  case step_Book
  then show ?thesis using P_keeps [OF keeps_BookResources] assms(2) by blast
next
  case step_Release
  then show ?thesis using P_keeps [OF keeps_ReleaseResources] assms(2) by blast
next
  case (step_GetView s t c t')
  then show ?thesis
    using P_GetView [OF assms(2)] by (cases "WaitForPlatformReady ra") (auto simp: GetView_def)
next
  case (step_PutView v c)
  then show ?thesis
    using P_put [OF assms(2), of v] by (cases "WaitForPlatformReady ra") (auto simp: PutView_def)
next
  case (step_SetView v w)
  then show ?thesis
    using P_set [OF assms(2), of v] by (cases "WaitForPlatformReady ra") (auto simp: SetView_def)
next
  case step_SyncStart
  then show ?thesis using P_SyncStart assms(2) by blast
next
  case step_SyncAcquire
  then show ?thesis using P_SyncAcquireResources assms(2) by (metis snd_conv)
next
  case step_SyncCommit
  then show ?thesis using P_SyncCommit assms(2) by (metis snd_conv)
qed (use assms(2) P_tokens P_SetScheduledView P_SyncAbort in
    \<open>auto simp: SetPlatformReady_def SetPlatformNotReady_def split: if_splits\<close>)

lemma P_steps: "(acc_step hsh mx)\<^sup>*\<^sup>* ra ra' \<Longrightarrow> P ra \<Longrightarrow> P ra'"
  by (induction rule: rtranclp_induct) (auto intro: P_step)

end

interpretation vok: views_invariant views_ok hsh for hsh
  by unfold_locales (auto intro: views_ok_keeps views_ok_assign_emplace views_ok_PutView views_ok_SetView)

text \<open>A second invariant: the token 0, once it names no view, names none again, provided the hash
  of no text is 0.\<close>

definition zero_gone :: "(string \<Rightarrow> u64) \<Rightarrow> ResourceAccounter \<Rightarrow> bool" where
  "zero_gone hsh ra \<longleftrightarrow> (\<forall>s. hsh s \<noteq> 0) \<longrightarrow> rsrc_per_views ra 0 = None"

interpretation vzero: views_invariant "zero_gone hsh" hsh for hsh
proof (unfold_locales, goal_cases)
  case (1 ra ra')
  then show ?case by (auto simp: zero_gone_def keeps_views_def)
next
  case (2 ra s)
  then show ?case by (auto simp: zero_gone_def rsrc_views_emplace_def assign_views_emplace_def split: option.splits)
next
  case (3 ra v)
  then show ?case by (auto simp: zero_gone_def PutView_unlocked_def split: option.splits)
next
  case (4 ra v)
  then show ?case by (auto simp: zero_gone_def SetView_unlocked_def PutView_unlocked_def Let_def split: option.splits)
qed

section \<open>Properties\<close>

lemma same_assigns [simp]:
  "assign_objs (upd_res r f ra) = assign_objs ra" "assign_objs (rsrc_set_insert v r ra) = assign_objs ra"
  "assign_objs (rsrc_set_erase v r ra) = assign_objs ra"
  by (simp_all add: upd_res_def rsrc_set_insert_def rsrc_set_erase_def)

lemma booking_assigns:
  "assign_objs (snd (DoResourceBooking_loop u pol v rs req n ra)) = assign_objs ra"
proof (induction rs arbitrary: req n ra)
  case (Cons r rs)
  have "assign_objs (snd (SyncResourceBooking u r req x)) = assign_objs x"
    "assign_objs (snd (SchedResourceBooking u r v req al x)) = assign_objs x" for x al
    by (auto simp: SyncResourceBooking_def SchedResourceBooking_def Let_def split: prod.splits)
  then show ?case using Cons by (auto simp: Let_def split: prod.splits) (metis same_assigns(2) snd_conv)+
qed simp

lemma inc_loop_assigns: "assign_objs (IncBookingCounts_loop m u v ra) = assign_objs ra"
proof (induction m u v ra rule: IncBookingCounts_loop.induct)
  case (2 p a m u v ra)
  have "assign_objs (snd (DoResourceBooking u a v ra)) = assign_objs ra"
    using booking_assigns by (auto simp: DoResourceBooking_def split: prod.splits) (metis snd_conv)+
  then show ?case using 2 by simp
qed simp

lemma undo_loop_assigns: "assign_objs (UndoResourceBooking_loop u am v rs freed ra) = assign_objs ra"
  by (induction rs arbitrary: freed ra) (simp_all add: Let_def split: prod.splits)

lemma dec_loop_assigns: "assign_objs (DecBookingCounts_loop m u v ra) = assign_objs ra"
  by (induction m u v ra rule: DecBookingCounts_loop.induct)
    (simp_all add: UndoResourceBooking_def undo_loop_assigns)

lemma views_distinct:
  assumes "views_ok ra" "view_key (sys_view_token ra) v \<noteq> view_key (sys_view_token ra) w"
    "GetAppAssignmentsByView v ra = Inr a" "GetAppAssignmentsByView w ra = Inr b"
  shows "a \<noteq> b"
  using assms
  by (auto simp: views_ok_def GetAppAssignmentsByView_def view_key_def split: if_splits option.splits)

lemma SyncCommit_succeeds:
  assumes "Synching ra" "ss_view (sync_ssn ra) \<noteq> sys_view_token ra" "assign_per_views ra (ss_view (sync_ssn ra)) \<noteq> None"
  shows "\<exists>ra'. SyncCommit ra = (RA_SUCCESS, ra')"
proof -
  have "fst (SetView_unlocked (ss_view (sync_ssn ra)) ra) = ss_view (sync_ssn ra)"
    "sync_ssn (snd (SetView_unlocked (ss_view (sync_ssn ra)) ra)) = sync_ssn ra"
    using assms(2,3) by (auto simp: SetView_unlocked_def PutView_unlocked_def Let_def split: option.splits)
  then show ?thesis
    using assms(1) by (cases "SetView_unlocked (ss_view (sync_ssn ra)) ra") (simp add: SyncCommit_def)
qed

text \<open>A session opened on a new registry, with the length of a text, plus one, for its hash.\<close>

definition hsh1 :: "string \<Rightarrow> u64" where
  "hsh1 s = of_nat (length s mod 2 ^ 60 + 1)"

definition ra_session :: ResourceAccounter where
  "ra_session = (SetState RA_SYNC ra0)\<lparr>
     assign_objs := (\<lambda>_. []), assign_next := 2, assign_per_views := [0 \<mapsto> 0, 10 \<mapsto> 1],
     rsrc_per_views := [0 \<mapsto> {}, 10 \<mapsto> {}], sync_ssn := \<lparr>ss_view = 10, ss_count = 1\<rparr>\<rparr>"

lemma hsh1_nonzero: "hsh1 s \<noteq> 0"
proof -
  have "unat (hsh1 s) = length s mod 2 ^ 60 + 1"
    unfolding hsh1_def unat_of_nat using mod_less_divisor [of "2 ^ 60" "length s"] by simp
  then show ?thesis by (metis add_is_0 unat_0 zero_neq_one)
qed

lemma ra_session_start: "SyncStart hsh1 [] (SetState RA_READY ra0) = Inr (RA_SUCCESS, ra_session)"
proof -
  have "sync_token_path 1 = ''ra.sync.1''"
    by code_simp
  then show ?thesis
    by (simp add: SyncStart_def WaitForPlatformReady_def SetState_def ra0_def ResourceAccounter_new_def Let_def
        GetView_unlocked_def hsh1_def rsrc_views_emplace_def assign_views_emplace_def ra_session_def fun_upd_idem split: prod.splits)
qed

lemma ra_session_reachable: "(acc_step hsh1 31)\<^sup>*\<^sup>* (ResourceAccounter_new 31 heap0) ra_session"
proof -
  have "acc_step hsh1 31 ra0 (SetState RA_READY ra0)"
    by (rule step_Ready) (simp add: SetPlatformReady_def ra0_def ResourceAccounter_new_def split: prod.splits)
  moreover have "acc_step hsh1 31 (SetState RA_READY ra0) ra_session"
    by (rule step_SyncStart [OF ra_session_start])
  ultimately show ?thesis
    unfolding ra0_def [symmetric] by (rule converse_rtranclp_into_rtranclp [OF _ r_into_rtranclp])
qed

lemma ra_session_fields:
  "sys_view_token ra_session = 0" "ss_view (sync_ssn ra_session) = 10" "Synching ra_session"
  "assign_per_views ra_session 10 = Some 1" "views_ok ra_session"
  using vok.P_steps [OF ra_session_reachable views_ok_new]
  by (simp_all add: ra_session_def Synching_def SetState_def ra0_def ResourceAccounter_new_def split: prod.splits)

text \<open>C3: views are isolated. In every state the operations can reach, two tokens that stand for
  different views have different tables of assignments, so that booking or releasing in one
  view leaves the table of the other as it is.\<close>

theorem booking_isolates_views:
  assumes "(acc_step hsh mx)\<^sup>*\<^sup>* (ResourceAccounter_new mx H) ra"
    "view_key (sys_view_token ra) v \<noteq> view_key (sys_view_token ra) w" "GetAppAssignmentsByView w ra = Inr b"
  shows "assign_objs (snd (IncBookingCounts m u v ra)) b = assign_objs ra b \<and>
    assign_objs (ReleaseResources_view u v ra) b = assign_objs ra b"
proof -
  have ok: "views_ok ra" by (rule vok.P_steps [OF assms(1) views_ok_new])
  have ne: "a \<noteq> b" if "GetAppAssignmentsByView v ra = Inr a" for a
    by (rule views_distinct [OF ok assms(2) that assms(3)])
  have "assign_objs (DecBookingCounts m' u v ra) = assign_objs ra" for m'
    by (simp add: DecBookingCounts_def dec_loop_assigns split: option.splits)
  then show ?thesis
    using ne by (auto simp: IncBookingCounts_def ReleaseResources_view_def inc_loop_assigns split: option.splits sum.splits)
qed

theorem booking_isolates_views_witness:
  "assign_objs (snd (IncBookingCounts (twelve BALANCED) 7 0 ra_session)) 1 = assign_objs ra_session 1"
  using booking_isolates_views [OF ra_session_reachable, of 0 10 1] ra_session_fields
  by (simp add: view_key_def GetAppAssignmentsByView_def)

text \<open>C4: a commit makes the session's view the system view. From then on the token 0 stands for
  it: the table of assignments of the system is the session's, every application's usage of
  every descriptor in the system view is what it was in the session's view, the old system
  view is gone, and the platform is ready again.\<close>

theorem commit_installs_session_view:
  assumes "views_ok ra" "Synching ra" "ss_view (sync_ssn ra) \<noteq> sys_view_token ra" "ss_view (sync_ssn ra) \<noteq> 0"
    "assign_per_views ra (ss_view (sync_ssn ra)) = Some a"
  shows "\<exists>ra'. SyncCommit ra = (RA_SUCCESS, ra') \<and> sys_view_token ra' = ss_view (sync_ssn ra) \<and>
    ra_status ra' = RA_READY \<and> GetAppAssignmentsByView 0 ra' = Inr a \<and> assign_objs ra' = assign_objs ra \<and>
    rsrc_per_views ra' (sys_view_token ra) = None \<and>
    (\<forall>r papp. ApplicationUsage (sys_view_token ra') papp 0 (robj_of ra' r) =
       ApplicationUsage (sys_view_token ra) papp (ss_view (sync_ssn ra)) (robj_of ra r))"
proof -
  let ?v = "ss_view (sync_ssn ra)" and ?old = "sys_view_token ra"
  define ra1 where "ra1 = snd (SetView_unlocked ?v ra)"
  obtain rs where rs: "rsrc_per_views ra ?old = Some rs" using assms(1) by (auto simp: views_ok_def)
  have ra1: "SetView_unlocked ?v ra = (?v, ra1)" "sys_view_token ra1 = ?v" "sys_assign_view ra1 = a"
    "sync_ssn ra1 = sync_ssn ra" "assign_objs ra1 = assign_objs ra" "ra_status ra1 = ra_status ra"
    "rsrc_per_views ra1 ?old = None"
    using assms(3,5) rs by (simp_all add: ra1_def SetView_unlocked_def Let_def PutView_unlocked_def)
  have keep1: "state_views (robj_of ra1 r) ?v = state_views (robj_of ra r) ?v" for r
    using assms(3,5) rs by (simp add: ra1_def SetView_unlocked_def Let_def PutView_unlocked_def DeleteView_def)
  define ra2 where "ra2 = SetScheduledView ?v ra1"
  have ra2: "sys_view_token ra2 = ?v" "sys_assign_view ra2 = a" "assign_objs ra2 = assign_objs ra"
    "ra_status ra2 = ra_status ra" "rsrc_per_views ra2 ?old = None"
    using ra1 by (simp_all add: ra2_def SetScheduledView_def Let_def PutView_unlocked_def split: option.splits)
  have keep2: "state_views (robj_of ra2 r) ?v = state_views (robj_of ra1 r) ?v" for r
    using ra1(2) by (simp add: ra2_def SetScheduledView_def Let_def PutView_unlocked_def DeleteView_def split: option.splits)
  have "SyncCommit ra = (RA_SUCCESS, SetState RA_READY ra2)"
    using assms(2) ra1 ra2 by (simp add: SyncCommit_def ra2_def [symmetric] SyncFinalize_def Synching_def)
  then show ?thesis
    using ra2 keep1 keep2 assms(4)
    by (simp add: SetState_def GetAppAssignmentsByView_def ApplicationUsage_def GetStateView_def view_key_def)
qed

theorem commit_installs_session_view_witness:
  "\<exists>ra'. SyncCommit ra_session = (RA_SUCCESS, ra') \<and> sys_view_token ra' = 10 \<and> GetAppAssignmentsByView 0 ra' = Inr 1"
  using commit_installs_session_view [OF ra_session_fields(5,3)] ra_session_fields by auto

text \<open>Once a session has replaced the initial system view, an application's resources in the
  system view are never released by \<open>ReleaseResources\<close> with its default view. Whatever
  operations follow that commit, the call returns at once without any change, given that no
  text hashes to the token 0.\<close>

theorem default_release_is_lost:
  assumes "\<forall>s. hsh s \<noteq> 0" "(acc_step hsh mx)\<^sup>*\<^sup>* (ResourceAccounter_new mx H) ra" "sys_view_token ra = 0"
    "ss_view (sync_ssn ra) \<noteq> 0" "SyncCommit ra = (RA_SUCCESS, ra1)" "(acc_step hsh mx)\<^sup>*\<^sup>* ra1 ra2"
  shows "ReleaseResources (Some u) 0 ra2 = ra2"
proof -
  let ?v = "ss_view (sync_ssn ra)"
  have ok: "views_ok ra" by (rule vok.P_steps [OF assms(2) views_ok_new])
  then obtain rs where rs: "rsrc_per_views ra 0 = Some rs" using assms(3) by (auto simp: views_ok_def)
  have syn: "Synching ra" using assms(5) by (auto simp: SyncCommit_def split: if_splits)
  obtain w rb where s: "SetView_unlocked ?v ra = (w, rb)" by fastforce
  have ssb: "sync_ssn rb = sync_ssn ra"
    using s by (auto simp: SetView_unlocked_def PutView_unlocked_def Let_def split: option.splits if_splits)
  have w: "w = ?v" using assms(5) syn s ssb by (auto simp: SyncCommit_def split: if_splits)
  then have gone: "rsrc_per_views rb 0 = None"
    using s assms(3,4) rs by (auto simp: SetView_unlocked_def PutView_unlocked_def Let_def split: option.splits if_splits)
  have "zero_gone hsh ra1"
    using assms(5) syn s w ssb vzero.P_SyncFinalize [OF vzero.P_SetScheduledView, of hsh rb "sys_view_token rb"] gone
    by (auto simp: SyncCommit_def zero_gone_def split: if_splits)
  then have "zero_gone hsh ra2" by (rule vzero.P_steps [OF assms(6)])
  then show ?thesis using assms(1) by (simp add: zero_gone_def ReleaseResources_def)
qed

theorem default_release_is_lost_witness:
  "\<exists>ra1. SyncCommit ra_session = (RA_SUCCESS, ra1) \<and> ReleaseResources (Some 7) 0 ra1 = ra1"
proof -
  obtain ra1 where "SyncCommit ra_session = (RA_SUCCESS, ra1)"
    using SyncCommit_succeeds [OF ra_session_fields(3)] ra_session_fields by auto
  then show ?thesis
    using default_release_is_lost [OF _ ra_session_reachable, of ra1 ra1] hsh1_nonzero ra_session_fields by auto
qed

end
