(* ===== verification/Binder.thy ===== *)
theory Binder
  imports Accounter_State
begin

text \<open>
  \<open>ResourceBinder\<close> (\<^verbatim>\<open>include/bbque/res/binder.h\<close>, \<^verbatim>\<open>bbque/res/binder.cc\<close>): it replaces the
  identifiers in the paths of a map of requests by those of system resources, attaches the
  matching descriptors, and computes masks of the descriptors an application uses.

  \<open>Bind\<close> is called either with an empty output map or with the source map itself as output. In
  the second case the loop walks a map that it changes. The model of that case is
  \<open>Bind_in_place\<close>, which follows the iterator through the map; it takes fuel, and
  \<open>bind_fuel\<close>, twice the size of the map plus one, is what \<open>Bind_same\<close> gives it.
\<close>

section \<open>Binding\<close>

datatype BinderExitCode = BIND_OK | BIND_NOT_COMPATIBLE

datatype bind_action = Bind_continue | Bind_return | Bind_put ResourcePath ResourceAssignment

definition bind_entry :: "int \<Rightarrow> ResourceAccounter \<Rightarrow> ResourceType \<Rightarrow> rid \<Rightarrow> rid \<Rightarrow> ResourceType \<Rightarrow>
    ResourceBitset option \<Rightarrow> ResourcePath \<times> ResourceAssignment \<Rightarrow> fault + bind_action" where
  "bind_entry mx ra r_type source_id out_id filter_rtype filter_mask e =
     (let (source_path, source_assign) = e in
      if \<not> Path_IncludesType r_type source_path then Inr Bind_continue
      else let out_path = ResourcePath_new mx (Path_ToString source_path) in
        if length (identifiers out_path) = 0 then Inr Bind_return
        else seq_fault (Path_ReplaceID mx r_type source_id out_id out_path) (\<lambda>(rp_result, out_path).
          let out_assign = ResourceAssignment_new mx (ra_amount source_assign) (fill_policy source_assign);
              r_bindings = GetResources_path out_path ra
          in seq_fault
               (case filter_mask of
                  Some fmask \<Rightarrow>
                    if filter_rtype \<noteq> UNDEFINED
                    then SetResourcesList_by_type (ra_heap ra) r_bindings filter_rtype fmask out_assign
                    else SetResourcesList mx (ra_heap ra) r_bindings out_assign
                | None \<Rightarrow> SetResourcesList mx (ra_heap ra) r_bindings out_assign)
               (\<lambda>out_assign. Inr (Bind_put out_path out_assign))))"

fun Bind :: "int \<Rightarrow> ResourceAccounter \<Rightarrow> ResourceType \<Rightarrow> rid \<Rightarrow> rid \<Rightarrow> ResourceType \<Rightarrow>
    ResourceBitset option \<Rightarrow> AssignMap \<Rightarrow> AssignMap \<Rightarrow> fault + AssignMap" where
  "Bind mx ra r_type source_id out_id filter_rtype filter_mask [] out_map = Inr out_map"
| "Bind mx ra r_type source_id out_id filter_rtype filter_mask (e # source_map) out_map =
     seq_fault (bind_entry mx ra r_type source_id out_id filter_rtype filter_mask e) (\<lambda>act.
       case act of
         Bind_continue \<Rightarrow> Bind mx ra r_type source_id out_id filter_rtype filter_mask source_map out_map
       | Bind_return \<Rightarrow> Inr out_map
       | Bind_put p a \<Rightarrow>
           Bind mx ra r_type source_id out_id filter_rtype filter_mask source_map (am_set p a out_map))"

text \<open>Where the entry at position \<open>i\<close> is after \<open>m[p] = a\<close>.\<close>

definition moved_index :: "ResourcePath \<Rightarrow> nat \<Rightarrow> AssignMap \<Rightarrow> nat" where
  "moved_index p i m =
     (if list_ex (\<lambda>e. path_equiv (fst e) p) m then i
      else if length (takeWhile (\<lambda>e. \<not> Path_lt p (fst e)) m) \<le> i then i + 1 else i)"

fun Bind_in_place :: "nat \<Rightarrow> int \<Rightarrow> ResourceAccounter \<Rightarrow> ResourceType \<Rightarrow> rid \<Rightarrow> rid \<Rightarrow> ResourceType \<Rightarrow>
    ResourceBitset option \<Rightarrow> nat \<Rightarrow> AssignMap \<Rightarrow> fault + AssignMap option" where
  "Bind_in_place 0 mx ra r_type source_id out_id filter_rtype filter_mask i m = Inr None"
| "Bind_in_place (Suc fuel) mx ra r_type source_id out_id filter_rtype filter_mask i m =
     (if length m \<le> i then Inr (Some m)
      else seq_fault (bind_entry mx ra r_type source_id out_id filter_rtype filter_mask (m ! i)) (\<lambda>act.
        case act of
          Bind_continue \<Rightarrow> Bind_in_place fuel mx ra r_type source_id out_id filter_rtype filter_mask (i + 1) m
        | Bind_return \<Rightarrow> Inr (Some m)
        | Bind_put p a \<Rightarrow>
            Bind_in_place fuel mx ra r_type source_id out_id filter_rtype filter_mask (moved_index p i m + 1)
              (am_set p a m)))"

definition bind_fuel :: "AssignMap \<Rightarrow> nat" where
  "bind_fuel m = 2 * length m + 1"

definition Bind_same :: "int \<Rightarrow> ResourceAccounter \<Rightarrow> ResourceType \<Rightarrow> rid \<Rightarrow> rid \<Rightarrow> ResourceType \<Rightarrow>
    ResourceBitset option \<Rightarrow> AssignMap \<Rightarrow> fault + AssignMap option" where
  "Bind_same mx ra r_type source_id out_id filter_rtype filter_mask m =
     Bind_in_place (bind_fuel m) mx ra r_type source_id out_id filter_rtype filter_mask 0 m"

definition Bind_path :: "int \<Rightarrow> ResourceAccounter \<Rightarrow> AssignMap \<Rightarrow> ResourcePath \<Rightarrow> ResourceBitset \<Rightarrow> AssignMap \<Rightarrow>
    fault + AssignMap" where
  "Bind_path mx ra source_map resource_path filter_mask out_map =
     (case am_find source_map resource_path of
        None \<Rightarrow> Inr out_map
      | Some source_assign \<Rightarrow>
          let out_assign = ResourceAssignment_new mx (ra_amount source_assign) SEQUENTIAL;
              r_list = GetResources_path resource_path ra
          in seq_fault (SetResourcesList_by_mask mx (ra_heap ra) r_list filter_mask out_assign) (\<lambda>out_assign.
               Inr (am_set resource_path out_assign out_map)))"

fun compatible_path :: "ResourcePath \<Rightarrow> AssignMap \<Rightarrow> ResourcePath option \<Rightarrow> fault + ResourcePath option" where
  "compatible_path out_path [] replace_path = Inr replace_path"
| "compatible_path out_path ((p, a) # m) replace_path =
     seq_fault (Path_Compare p out_path) (\<lambda>c.
       compatible_path out_path m (if c = PATH_EQUAL_TYPES then Some p else replace_path))"

definition RemoveCompatibleAssignments :: "AssignMap \<Rightarrow> ResourcePath \<Rightarrow> fault + AssignMap" where
  "RemoveCompatibleAssignments out_map out_path =
     seq_fault (compatible_path out_path out_map None) (\<lambda>replace_path.
       Inr (case replace_path of None \<Rightarrow> out_map | Some p \<Rightarrow> am_erase p out_map))"

section \<open>Masks\<close>

definition SetBit :: "int \<Rightarrow> ResourcePath option \<Rightarrow> ResourceType \<Rightarrow> ResourceBitset \<Rightarrow> fault + ResourceBitset" where
  "SetBit mx ppath r_type r_mask =
     (case ppath of
        None \<Rightarrow> Inl NullDeref
      | Some p \<Rightarrow>
          seq_fault (Path_GetID r_type p) (\<lambda>r_id.
            if r_id = R_ID_NONE \<or> r_id = R_ID_ANY then Inr r_mask
            else seq_fault (Bitset_Set mx r_id r_mask) (\<lambda>(_, r_mask'). Inr r_mask')))"

fun mask_of_list :: "int \<Rightarrow> ResourceType \<Rightarrow> rptr list \<Rightarrow> ResourceAccounter \<Rightarrow> ResourceBitset \<Rightarrow>
    fault + ResourceBitset \<times> ResourceAccounter" where
  "mask_of_list mx r_type [] ra r_mask = Inr (r_mask, ra)"
| "mask_of_list mx r_type (r # rs) ra r_mask =
     (let (ppath, ra') = GetPath mx (rs_path (robj_of ra r)) ra in
      seq_fault (SetBit mx ppath r_type r_mask) (mask_of_list mx r_type rs ra'))"

fun GetMask_loop :: "int \<Rightarrow> AssignMap \<Rightarrow> ResourceType \<Rightarrow> ResourceAccounter \<Rightarrow> ResourceBitset \<Rightarrow>
    fault + ResourceBitset \<times> ResourceAccounter" where
  "GetMask_loop mx [] r_type ra r_mask = Inr (r_mask, ra)"
| "GetMask_loop mx ((p, a) # m) r_type ra r_mask =
     seq_fault (SetBit mx (Some p) r_type r_mask) (\<lambda>r_mask.
       seq_fault (mask_of_list mx r_type (ra_resources a) ra r_mask) (\<lambda>(r_mask, ra').
         GetMask_loop mx m r_type ra' r_mask))"

definition GetMask :: "int \<Rightarrow> AssignMap \<Rightarrow> ResourceType \<Rightarrow> ResourceAccounter \<Rightarrow>
    fault + ResourceBitset \<times> ResourceAccounter" where
  "GetMask mx assign_map r_type ra = GetMask_loop mx assign_map r_type ra (ResourceBitset_new mx)"

fun GetMask_used_loop :: "int \<Rightarrow> rptr list \<Rightarrow> ResourceType \<Rightarrow> ResourceType \<Rightarrow> rid \<Rightarrow> AppUid \<Rightarrow> RViewToken \<Rightarrow>
    ResourceAccounter \<Rightarrow> ResourceBitset \<Rightarrow> fault + ResourceBitset \<times> ResourceAccounter" where
  "GetMask_used_loop mx [] r_type scope_type scope_id papp v ra r_mask = Inr (r_mask, ra)"
| "GetMask_used_loop mx (r # rs) r_type scope_type scope_id papp v ra r_mask =
     (if ri_type (rs_ident (robj_of ra r)) \<noteq> r_type
      then GetMask_used_loop mx rs r_type scope_type scope_id papp v ra r_mask
      else if ApplicationUsage (sys_view_token ra) (Some papp) v (robj_of ra r) = 0
      then GetMask_used_loop mx rs r_type scope_type scope_id papp v ra r_mask
      else case GetPath mx (rs_path (robj_of ra r)) ra of
        (None, _) \<Rightarrow> Inl NullDeref
      | (Some p, ra') \<Rightarrow>
          seq_fault (Path_ParentType r_type p) (\<lambda>parent.
            if parent \<noteq> scope_type then GetMask_used_loop mx rs r_type scope_type scope_id papp v ra' r_mask
            else seq_fault (Path_GetID scope_type p) (\<lambda>i.
              if i = scope_id \<or> scope_id = R_ID_ANY
              then seq_fault (SetBit mx (Some p) r_type r_mask)
                     (GetMask_used_loop mx rs r_type scope_type scope_id papp v ra')
              else GetMask_used_loop mx rs r_type scope_type scope_id papp v ra' r_mask)))"

definition GetMask_used :: "int \<Rightarrow> rptr list \<Rightarrow> ResourceType \<Rightarrow> ResourceType \<Rightarrow> rid \<Rightarrow> AppUid option \<Rightarrow>
    RViewToken \<Rightarrow> ResourceAccounter \<Rightarrow> fault + ResourceBitset \<times> ResourceAccounter" where
  "GetMask_used mx rpl r_type scope_type scope_id papp v ra =
     (case papp of
        None \<Rightarrow> Inr (ResourceBitset_new mx, ra)
      | Some uid \<Rightarrow> GetMask_used_loop mx rpl r_type scope_type scope_id uid v ra (ResourceBitset_new mx))"

fun GetMask_scoped_loop :: "int \<Rightarrow> AssignMap \<Rightarrow> ResourceType \<Rightarrow> ResourceType \<Rightarrow> rid \<Rightarrow> AppUid option \<Rightarrow>
    RViewToken \<Rightarrow> ResourceAccounter \<Rightarrow> ResourceBitset \<Rightarrow> fault + ResourceBitset \<times> ResourceAccounter" where
  "GetMask_scoped_loop mx [] r_type scope_type scope_id papp v ra r_mask = Inr (r_mask, ra)"
| "GetMask_scoped_loop mx ((p, a) # m) r_type scope_type scope_id papp v ra r_mask =
     seq_fault (Path_GetID scope_type p) (\<lambda>found_scope_id.
       seq_fault (Path_Type 0 p) (\<lambda>found_rsrc_type.
         seq_fault (Path_ParentType found_rsrc_type p) (\<lambda>found_scope_type.
           if found_scope_type \<noteq> scope_type \<or> found_rsrc_type \<noteq> r_type
           then GetMask_scoped_loop mx m r_type scope_type scope_id papp v ra r_mask
           else if scope_id < 0 \<or> found_scope_id < 0 \<or> found_scope_id = scope_id
           then seq_fault (GetMask_used mx (ra_resources a) r_type scope_type scope_id papp v ra) (\<lambda>(found, ra').
                  seq_fault (Bitset_or mx r_mask found) (\<lambda>r_mask'.
                    GetMask_scoped_loop mx m r_type scope_type scope_id papp v ra' r_mask'))
           else GetMask_scoped_loop mx m r_type scope_type scope_id papp v ra r_mask)))"

definition GetMask_scoped :: "int \<Rightarrow> AssignMap \<Rightarrow> ResourceType \<Rightarrow> ResourceType \<Rightarrow> rid \<Rightarrow> AppUid option \<Rightarrow>
    RViewToken \<Rightarrow> ResourceAccounter \<Rightarrow> fault + ResourceBitset \<times> ResourceAccounter" where
  "GetMask_scoped mx assign_map r_type scope_type scope_id papp v ra =
     GetMask_scoped_loop mx assign_map r_type scope_type scope_id papp v ra (ResourceBitset_new mx)"

fun GetMaskInRange_loop :: "int \<Rightarrow> RHeap \<Rightarrow> rptr list \<Rightarrow> nat \<Rightarrow> nat \<Rightarrow> nat \<Rightarrow> ResourceBitset \<Rightarrow>
    fault + ResourceBitset" where
  "GetMaskInRange_loop mx H [] begin_pos end_pos count r_mask = Inr r_mask"
| "GetMaskInRange_loop mx H (r # rs) begin_pos end_pos count r_mask =
     seq_fault (if count \<ge> begin_pos \<and> count \<le> end_pos
                then seq_fault (Bitset_Set mx (ri_id (ident_of H r)) r_mask) (\<lambda>(_, m). Inr m)
                else Inr r_mask)
       (\<lambda>r_mask'. if count = end_pos then Inr r_mask'
                  else GetMaskInRange_loop mx H rs begin_pos end_pos (count + 1) r_mask')"

definition GetMaskInRange :: "int \<Rightarrow> RHeap \<Rightarrow> rptr list \<Rightarrow> nat \<Rightarrow> nat \<Rightarrow> fault + ResourceBitset" where
  "GetMaskInRange mx H resources_list begin_pos end_pos =
     GetMaskInRange_loop mx H resources_list begin_pos end_pos 0 (ResourceBitset_new mx)"

text \<open>The second overload moves an iterator, here the number of descriptors in front of it.\<close>

fun GetMaskFrom_loop :: "int \<Rightarrow> RHeap \<Rightarrow> rptr list \<Rightarrow> nat \<Rightarrow> nat \<Rightarrow> ResourceBitset \<Rightarrow>
    fault + ResourceBitset \<times> nat" where
  "GetMaskFrom_loop mx H [] iter count r_mask = Inr (r_mask, iter)"
| "GetMaskFrom_loop mx H (r # rs) iter count r_mask =
     (if count > 0
      then seq_fault (Bitset_Set mx (ri_id (ident_of H r)) r_mask) (\<lambda>(_, m).
             if count - 1 = 0 then Inr (m, iter) else GetMaskFrom_loop mx H rs (iter + 1) (count - 1) m)
      else Inr (r_mask, iter))"

definition GetMaskFrom :: "int \<Rightarrow> RHeap \<Rightarrow> rptr list \<Rightarrow> nat \<Rightarrow> nat \<Rightarrow> fault + ResourceBitset \<times> nat" where
  "GetMaskFrom mx H resources_list iter count =
     (let iter' = (if iter = length resources_list then 0 else iter)
      in GetMaskFrom_loop mx H (drop iter' resources_list) iter' count (ResourceBitset_new mx))"

text \<open>\<open>Compatible\<close> compares its iterator with one that is never set, so that it does not stop at
  the end of the maps.\<close>

fun Compatible_loop :: "AssignMap \<Rightarrow> AssignMap \<Rightarrow> fault + BinderExitCode" where
  "Compatible_loop ((p, _) # ss) ((q, _) # ds) =
     seq_fault (Path_Compare p q) (\<lambda>c.
       if c = PATH_NOT_EQUAL then Inr BIND_NOT_COMPATIBLE else Compatible_loop ss ds)"
| "Compatible_loop _ _ = Inl OutOfRange"

definition Compatible :: "AssignMap \<Rightarrow> AssignMap \<Rightarrow> fault + BinderExitCode" where
  "Compatible source_map out_map =
     (if length source_map \<noteq> length out_map then Inr BIND_NOT_COMPATIBLE else Compatible_loop source_map out_map)"

section \<open>Properties\<close>

lemma set_resources_loop_Inr:
  "set_resources_loop mx H rs a = Inr b \<Longrightarrow>
     ra_resources b = ra_resources a @ rs \<and> ra_amount b = ra_amount a \<and> fill_policy b = fill_policy a"
proof (induction rs arbitrary: a)
  case (Cons r rs)
  from Cons.prems obtain z where z: "Bitset_Set mx (ri_id (ident_of H r)) (ra_mask a) = Inr z"
    "set_resources_loop mx H rs (a\<lparr>ra_resources := ra_resources a @ [r], ra_mask := snd z\<rparr>) = Inr b"
    by (auto simp: case_prod_unfold elim: seq_fault_InrE)
  from Cons.IH [OF z(2)] show ?case by simp
qed simp

lemma SetResourcesList_Inr:
  assumes "SetResourcesList mx H rs (ResourceAssignment_new mx am pol) = Inr b"
  shows "ra_resources b = rs \<and> ra_amount b = am \<and> fill_policy b = pol"
  using assms set_resources_loop_Inr [of mx H rs _ b]
  by (auto simp: SetResourcesList_def ResourceAssignment_new_def split: if_splits)

text \<open>The identifiers of a path with the number of a type of resource replaced.\<close>

definition renumbered :: "int \<Rightarrow> ResourceType \<Rightarrow> rid \<Rightarrow> rid \<Rightarrow> ResourceIdentifier list \<Rightarrow> ResourceIdentifier list" where
  "renumbered mx r_type source_id out_id ris =
     map (\<lambda>ri. if ri_type ri = r_type \<and> (source_id = R_ID_ANY \<or> ri_id ri = source_id) then SetID mx out_id ri else ri) ris"

lemma ReplaceID_renumbered:
  assumes "path_ok mx p" "Path_ReplaceID mx t a i p = Inr (c, q)"
  shows "identifiers q = renumbered mx t a i (identifiers p)"
proof (cases "List.find (\<lambda>ri. ri_type ri = t) (identifiers p)")
  case None
  then have "q = p" using assms by (simp add: Path_ReplaceID_def Path_GetIdentifier_find)
  then show ?thesis using None by (auto simp: renumbered_def find_None_iff intro!: map_idI [symmetric])
next
  case (Some ri)
  then obtain k where k: "k < length (identifiers p)" "identifiers p ! k = ri" "ri_type ri = t" by (auto simp: find_Some_iff)
  have lev: "Path_GetLevel t p = int k" using Path_GetLevel_nth [OF assms(1) k(1)] k by simp
  have other: "ri_type (identifiers p ! j) \<noteq> t" if "j < length (identifiers p)" "j \<noteq> k" for j
  proof -
    have "distinct (map ri_type (identifiers p))" using assms(1) by (simp add: path_ok_def index_ok_def)
    then show ?thesis using nth_eq_iff_index_eq [of "map ri_type (identifiers p)" j k] that k by simp
  qed
  show ?thesis
  proof (rule nth_equalityI)
    fix j assume "j < length (identifiers q)"
    then have j: "j < length (identifiers p)"
      using assms Some lev by (auto simp: Path_ReplaceID_def Path_GetIdentifier_find split: if_splits)
    show "identifiers q ! j = renumbered mx t a i (identifiers p) ! j"
      using assms Some lev k j other [OF j]
      by (cases "j = k") (auto simp: Path_ReplaceID_def Path_GetIdentifier_find renumbered_def split: if_splits)
  qed (use assms Some lev in \<open>auto simp: Path_ReplaceID_def Path_GetIdentifier_find renumbered_def split: if_splits\<close>)
qed

text \<open>What \<open>Bind\<close> without a filter puts in the output map for a source entry: under the renumbered path, or
  one that the map takes for the same, the amount and policy of the entry with the descriptors of
  the renumbered path.\<close>

definition bound_to :: "int \<Rightarrow> ResourceAccounter \<Rightarrow> ResourceType \<Rightarrow> rid \<Rightarrow> rid \<Rightarrow> ResourcePath \<times> ResourceAssignment \<Rightarrow>
    ResourcePath \<times> ResourceAssignment \<Rightarrow> bool" where
  "bound_to mx ra r_type source_id out_id src out \<longleftrightarrow>
     Path_IncludesType r_type (fst src) \<and> ra_amount (snd out) = ra_amount (snd src) \<and>
     fill_policy (snd out) = fill_policy (snd src) \<and>
     (\<exists>q. path_equiv (fst out) q \<and> identifiers q = renumbered mx r_type source_id out_id (identifiers (fst src)) \<and>
        ra_resources (snd out) = GetResources_path q ra)"

definition covered :: "int \<Rightarrow> ResourceType \<Rightarrow> rid \<Rightarrow> rid \<Rightarrow> ResourcePath \<Rightarrow> AssignMap \<Rightarrow> bool" where
  "covered mx r_type source_id out_id p m \<longleftrightarrow>
     (\<exists>e\<in>set m. \<exists>q. path_equiv (fst e) q \<and> identifiers q = renumbered mx r_type source_id out_id (identifiers p))"

definition bindable :: "int \<Rightarrow> AssignMap \<Rightarrow> bool" where
  "bindable mx m \<longleftrightarrow> mx < 32768 \<and> (\<forall>(p, a)\<in>set m. path_ok mx p \<and> path_printable p)"

lemma bind_entry_cases:
  assumes "bind_entry mx ra r_type source_id out_id filter_rtype None src = Inr act"
    "mx < 32768" "path_ok mx (fst src)" "path_printable (fst src)"
  obtains (skipped) "act = Bind_continue" "\<not> Path_IncludesType r_type (fst src)"
  | (put) p a where "act = Bind_put p a" "identifiers p = renumbered mx r_type source_id out_id (identifiers (fst src))"
      "\<And>q. path_equiv q p \<Longrightarrow> bound_to mx ra r_type source_id out_id src (q, a)"
proof (cases "Path_IncludesType r_type (fst src)")
  case True
  obtain sp sa where e: "src = (sp, sa)" by fastforce
  have rb: "ResourcePath_new mx (Path_ToString sp) = sp" using path_read_back assms(2-4) by (simp add: e)
  have ne: "identifiers sp \<noteq> []" using assms(4) by (simp add: e path_printable_def)
  obtain c p a where r: "Path_ReplaceID mx r_type source_id out_id sp = Inr (c, p)" and act: "act = Bind_put p a"
    and l: "SetResourcesList mx (ra_heap ra) (GetResources_path p ra) (ResourceAssignment_new mx (ra_amount sa) (fill_policy sa)) = Inr a"
    using assms(1) True ne by (auto simp: bind_entry_def e rb Let_def elim!: seq_fault_InrE)
  have ids: "identifiers p = renumbered mx r_type source_id out_id (identifiers sp)"
    using ReplaceID_renumbered [OF _ r] assms(3) by (simp add: e)
  show thesis
    using put [OF act] ids SetResourcesList_Inr [OF l] True by (auto simp: bound_to_def e)
qed (use assms(1) that(1) in \<open>auto simp: bind_entry_def Let_def split: prod.splits\<close>)

lemma am_set_bound:
  assumes "\<And>e. e \<in> set m \<Longrightarrow> Q e" "\<And>q. path_equiv q p \<Longrightarrow> Q (q, a)" "e \<in> set (am_set p a m)"
  shows "Q e"
proof (cases "list_ex (\<lambda>e. path_equiv (fst e) p) m")
  case True
  then have "e \<in> (\<lambda>e. if path_equiv (fst e) p then (fst e, a) else e) ` set m"
    using assms(3) by (simp add: am_set_def)
  then obtain e' where "e' \<in> set m" "e = (if path_equiv (fst e') p then (fst e', a) else e')" by blast
  then show ?thesis using assms(1,2) by simp
next
  case False
  then have "e = (p, a) \<or> e \<in> set m" using assms(3) by (auto simp: am_set_def am_insert_set)
  then show ?thesis using assms(1) assms(2) [OF path_equiv_refl] by blast
qed

lemma am_set_covers: "fst ` set m \<subseteq> fst ` set (am_set p a m)" "\<exists>k\<in>fst ` set (am_set p a m). path_equiv k p"
proof -
  have "fst ` set m \<subseteq> fst ` set (am_set p a m) \<and> (\<exists>k\<in>fst ` set (am_set p a m). path_equiv k p)"
  proof (cases "list_ex (\<lambda>e. path_equiv (fst e) p) m")
    case True
    have "map fst (am_set p a m) = map fst m" using True by (simp add: am_set_def)
    then have "fst ` set (am_set p a m) = fst ` set m" by (metis set_map)
    then show ?thesis using True by (auto simp: list_ex_iff)
  next
    case False
    then show ?thesis using path_equiv_refl by (auto simp: am_set_def am_insert_set)
  qed
  then show "fst ` set m \<subseteq> fst ` set (am_set p a m)" "\<exists>k\<in>fst ` set (am_set p a m). path_equiv k p" by blast+
qed

text \<open>The loop from any output map: entries stand for sources, keys are kept, sources have entries.\<close>

lemma Bind_result:
  assumes "Bind mx ra r_type source_id out_id filter_rtype None source_map out = Inr out_map" "bindable mx source_map"
  shows "(\<forall>e\<in>set out_map. e \<in> set out \<or> (\<exists>src\<in>set source_map. bound_to mx ra r_type source_id out_id src e)) \<and>
    fst ` set out \<subseteq> fst ` set out_map \<and>
    (\<forall>src\<in>set source_map. Path_IncludesType r_type (fst src) \<longrightarrow> covered mx r_type source_id out_id (fst src) out_map)"
  using assms
proof (induction source_map arbitrary: out)
  case (Cons src source_map)
  from Cons.prems(1) obtain act where act: "bind_entry mx ra r_type source_id out_id filter_rtype None src = Inr act"
    by (auto elim: seq_fault_InrE)
  have src: "mx < 32768" "path_ok mx (fst src)" "path_printable (fst src)" "bindable mx source_map"
    using Cons.prems(2) by (simp_all add: bindable_def case_prod_unfold)
  from act src(1-3) show ?case
  proof (cases rule: bind_entry_cases)
    case skipped
    then have b: "Bind mx ra r_type source_id out_id filter_rtype None source_map out = Inr out_map"
      using Cons.prems(1) act by simp
    show ?thesis using Cons.IH [OF b src(4)] skipped(2) by (simp add: disj_assoc) blast
  next
    case (put p a)
    have b: "Bind mx ra r_type source_id out_id filter_rtype None source_map (am_set p a out) = Inr out_map"
      using Cons.prems(1) act put(1) by simp
    note ih = Cons.IH [OF b src(4)]
    have e: "e \<in> set out \<or> bound_to mx ra r_type source_id out_id src e" if "e \<in> set (am_set p a out)" for e
      by (rule am_set_bound [OF _ _ that]) (use put(3) in blast)+
    have sub: "fst ` set (am_set p a out) \<subseteq> fst ` set out_map" using ih by (rule conjunct1 [OF conjunct2])
    then obtain k where k: "k \<in> fst ` set out_map" "path_equiv k p" using am_set_covers(2) [of p a out] by blast
    then have "covered mx r_type source_id out_id (fst src) out_map" using put(2) by (auto simp: covered_def)
    moreover have "fst ` set out \<subseteq> fst ` set out_map" using am_set_covers(1) sub by (rule subset_trans)
    moreover have "\<forall>e\<in>set out_map. e \<in> set out \<or> (\<exists>s\<in>set (src # source_map). bound_to mx ra r_type source_id out_id s e)"
    proof
      fix x assume "x \<in> set out_map"
      then consider "x \<in> set (am_set p a out)" | s where "s \<in> set source_map" "bound_to mx ra r_type source_id out_id s x"
        using ih by blast
      then show "x \<in> set out \<or> (\<exists>s\<in>set (src # source_map). bound_to mx ra r_type source_id out_id s x)"
        by cases (use e [of x] in auto)
    qed
    ultimately show ?thesis using ih by simp
  qed
qed auto

text \<open>C29: binding keeps the requests. Let the paths of the source map be well formed and printable. Then \<open>Bind\<close>
  without a filter and into an empty map gives every request whose path has the type to bind an entry under the
  path with that type renumbered, and puts nothing else in the map: an entry has the amount and the filling
  policy of a request with such a path, and its descriptors are exactly those that the registry finds for the
  renumbered path. (Of two requests with the same renumbered path one entry is left.)\<close>

theorem bind_keeps_requests:
  assumes "Bind mx ra r_type source_id out_id filter_rtype None source_map [] = Inr out_map" "bindable mx source_map"
  shows "(\<forall>e\<in>set out_map. \<exists>src\<in>set source_map. bound_to mx ra r_type source_id out_id src e) \<and>
    (\<forall>src\<in>set source_map. Path_IncludesType r_type (fst src) \<longrightarrow> covered mx r_type source_id out_id (fst src) out_map)"
  using Bind_result [OF assms] by simp

definition ra_pe :: ResourceAccounter where
  "ra_pe = snd (RegisterResource 31 ''sys0.cpu1.pe2'' [] 100 ra0)"

definition pe_request :: AssignMap where
  "pe_request = [(ResourcePath_new 31 ''sys0.cpu0.pe'', ResourceAssignment_new 31 80 SEQUENTIAL)]"

lemma pe_bound:
  "(case Bind 31 ra_pe CPU 0 1 UNDEFINED None pe_request [] of
      Inl _ \<Rightarrow> [] | Inr out \<Rightarrow> map (\<lambda>(p, a). (Path_ToString p, ra_amount a, length (ra_resources a))) out)
   = [(''sys0.cpu1.pe'', 80, 1)]"
  by code_simp

theorem bind_keeps_requests_witness:
  "\<exists>out e. Bind 31 ra_pe CPU 0 1 UNDEFINED None pe_request [] = Inr out \<and> e \<in> set out \<and>
     Path_ToString (fst e) = ''sys0.cpu1.pe'' \<and> (\<exists>src\<in>set pe_request. bound_to 31 ra_pe CPU 0 1 src e)"
proof -
  obtain out where out: "Bind 31 ra_pe CPU 0 1 UNDEFINED None pe_request [] = Inr out"
    using pe_bound by (cases "Bind 31 ra_pe CPU 0 1 UNDEFINED None pe_request []") simp_all
  then obtain e where "e \<in> set out" "Path_ToString (fst e) = ''sys0.cpu1.pe''"
    using pe_bound by (cases out) auto
  moreover have "path_printable (ResourcePath_new 31 ''sys0.cpu0.pe'')" by code_simp
  then have "bindable 31 pe_request" by (simp add: bindable_def pe_request_def)
  ultimately show ?thesis using bind_keeps_requests [OF out] out by blast
qed

text \<open>The scoped mask of a map of assignments is always empty. The type of a path is read with
  the call \<open>Type()\<close> that yields its first level, which has no parent, so that for a scope type
  other than the undefined one every entry is skipped, whatever the application uses.\<close>

theorem scoped_mask_is_empty:
  assumes "\<forall>(p, a)\<in>set m. path_ok mx p \<and> identifiers p \<noteq> []" "scope_type \<noteq> UNDEFINED"
  shows "GetMask_scoped mx m r_type scope_type scope_id papp v ra = Inr (ResourceBitset_new mx, ra)"
proof -
  have "GetMask_scoped_loop mx m r_type scope_type scope_id papp v ra b = Inr (b, ra)" for b
    using assms(1)
  proof (induction m)
    case (Cons e m)
    obtain p a where e: "e = (p, a)" by fastforce
    with Cons.prems have p: "path_ok mx p" "identifiers p \<noteq> []" by auto
    let ?t = "ri_type (identifiers p ! 0)"
    have t: "Path_Type 0 p = Inr ?t" using p(2) by (simp add: Path_Type_def)
    have "Path_GetLevel ?t p = 0" using Path_GetLevel_nth [OF p(1), of 0] p(2) by simp
    then have parent: "Path_ParentType ?t p = Inr UNDEFINED" by (simp add: Path_ParentType_def)
    obtain i where "Path_GetID scope_type p = Inr i"
      using Path_GetIdentifier_find [OF p(1), of scope_type]
      by (cases "List.find (\<lambda>ri. ri_type ri = scope_type) (identifiers p)") (auto simp: Path_GetID_def)
    then show ?case using Cons t parent assms(2) by (simp add: e)
  qed simp
  then show ?thesis by (simp add: GetMask_scoped_def)
qed

theorem scoped_mask_is_empty_witness:
  "GetMask_scoped 31 pe_request PROC_ELEMENT CPU R_ID_ANY (Some 7) 5 ra_pe = Inr (ResourceBitset_new 31, ra_pe)"
proof -
  have "length (identifiers (ResourcePath_new 31 ''sys0.cpu0.pe'')) = 3" by code_simp
  then have "identifiers (ResourcePath_new 31 ''sys0.cpu0.pe'') \<noteq> []" by (metis list.size(3) zero_neq_numeral)
  then have "\<forall>(p, a)\<in>set pe_request. path_ok 31 p \<and> identifiers p \<noteq> []" by (simp add: pe_request_def)
  then show ?thesis by (rule scoped_mask_is_empty) simp
qed

section \<open>The in-place loop returns\<close>

lemma am_insert_split:
  "am_insert p a m = takeWhile (\<lambda>e. \<not> Path_lt p (fst e)) m @ (p, a) # dropWhile (\<lambda>e. \<not> Path_lt p (fst e)) m"
  by (induction m) auto

lemma am_set_keys: "list_ex (\<lambda>e. path_equiv (fst e) p) m \<Longrightarrow> map fst (am_set p a m) = map fst m"
  by (simp add: am_set_def)

lemma moved_index_same_key:
  assumes "i < length m"
  shows "fst (am_set p a m ! moved_index p i m) = fst (m ! i)"
proof (cases "list_ex (\<lambda>e. path_equiv (fst e) p) m")
  case True
  then show ?thesis using am_set_keys [OF True, of a] assms by (simp add: moved_index_def) (metis length_map nth_map)
next
  case False
  let ?tw = "takeWhile (\<lambda>e. \<not> Path_lt p (fst e)) m" and ?dw = "dropWhile (\<lambda>e. \<not> Path_lt p (fst e)) m"
  have m: "m ! i = (?tw @ ?dw) ! i" by simp
  show ?thesis
    using False unfolding m
    by (simp add: am_set_def am_insert_split moved_index_def nth_append del: takeWhile_dropWhile_id)
qed

definition good_path :: "int \<Rightarrow> ResourcePath \<Rightarrow> bool" where
  "good_path mx p \<longleftrightarrow> path_ok mx p \<and> path_printable p"

definition settled :: "int \<Rightarrow> ResourceType \<Rightarrow> rid \<Rightarrow> rid \<Rightarrow> ResourcePath \<Rightarrow> bool" where
  "settled mx r_type source_id out_id p \<longleftrightarrow>
     (case Path_ReplaceID mx r_type source_id out_id p of Inl _ \<Rightarrow> True | Inr (_, q) \<Rightarrow> path_equiv q p)"

lemma SetID_idem: "SetID mx i (SetID mx i ri) = SetID mx i ri"
  by (simp add: SetID_def Let_def)

lemma SetID_not_any: "ri_id (SetID mx i ri) \<noteq> R_ID_ANY"
  by (auto simp: SetID_def Let_def R_ID_NONE_def R_ID_ANY_def)

lemma ReplaceID_good_settled:
  assumes "good_path mx p" "R_ID_NONE \<le> out_id" "Path_ReplaceID mx r_type source_id out_id p = Inr (c, q)"
  shows "good_path mx q \<and> settled mx r_type source_id out_id q"
proof -
  have ok: "path_ok mx p" using assms(1) by (simp add: good_path_def)
  have okq: "path_ok mx q" by (rule path_ok_ReplaceID [OF ok assms(3,2)])
  let ?k = "nat (Path_GetLevel r_type p)"
  show ?thesis
  proof (cases "q = p")
    case True
    then show ?thesis using assms(1,3) by (simp add: settled_def)
  next
    case False
    then obtain ri where ri: "Path_GetIdentifier r_type p = Inr (Some ri)" "q = p\<lparr>identifiers := (identifiers p)[?k := SetID mx out_id ri]\<rparr>"
      using assms(3) by (auto simp: Path_ReplaceID_def elim!: seq_fault_InrE split: option.splits if_splits)
    have k: "?k < length (identifiers p)" "ri = identifiers p ! ?k" "\<not> Path_GetLevel r_type p < 0"
      using ri(1) by (auto simp: Path_GetIdentifier_def Let_def split: if_splits)
    have lev: "Path_GetLevel r_type q = Path_GetLevel r_type p" by (simp add: ri(2) Path_GetLevel_def)
    have "set (identifiers q) \<subseteq> insert (SetID mx out_id ri) (set (identifiers p))"
      unfolding ri(2) by (simp add: set_update_subset_insert)
    then have "path_printable q"
      using assms(1) k SetID_not_any unfolding path_printable_def good_path_def by (auto simp: ri(2))
    moreover have "Path_GetIdentifier r_type q = Inr (Some (SetID mx out_id ri))"
      using k lev by (simp add: Path_GetIdentifier_def ri(2))
    then have "settled mx r_type source_id out_id q"
      unfolding settled_def Path_ReplaceID_def by (simp add: SetID_idem lev) (simp add: ri(2) SetID_idem)
    ultimately show ?thesis using okq by (simp add: good_path_def)
  qed
qed

lemma bind_entry_good:
  assumes "good_path mx (fst e)" "mx < 32768" "R_ID_NONE \<le> out_id"
    "bind_entry mx ra r_type source_id out_id ft fm e = Inr (Bind_put q b)"
  shows "good_path mx q \<and> settled mx r_type source_id out_id q \<and>
    (settled mx r_type source_id out_id (fst e) \<longrightarrow> path_equiv (fst e) q)"
proof -
  have "ResourcePath_new mx (Path_ToString (fst e)) = fst e"
    using assms(1,2) path_read_back by (simp add: good_path_def)
  then obtain c where "Path_ReplaceID mx r_type source_id out_id (fst e) = Inr (c, q)"
    using assms(4) by (auto simp: bind_entry_def Let_def case_prod_unfold split: if_splits elim!: seq_fault_InrE)
  then show ?thesis
    using ReplaceID_good_settled [OF assms(1,3)] by (auto simp: settled_def path_equiv_def)
qed

definition work_left :: "int \<Rightarrow> ResourceType \<Rightarrow> rid \<Rightarrow> rid \<Rightarrow> AssignMap \<Rightarrow> nat" where
  "work_left mx r_type source_id out_id m =
     length m + length (filter (\<lambda>e. \<not> settled mx r_type source_id out_id (fst e)) m)"

lemma work_left_keys: "map fst m = map fst m' \<Longrightarrow> work_left mx t s out_id m = work_left mx t s out_id m'"
proof -
  assume "map fst m = map fst m'"
  then have "length m = length m'" "filter (Not \<circ> settled mx t s out_id) (map fst m) = filter (Not \<circ> settled mx t s out_id) (map fst m')"
    by (metis length_map, simp)
  then show ?thesis by (simp add: work_left_def filter_map o_def) (metis length_map)
qed

lemma work_left_step:
  assumes "i < length m" "good_path mx (fst (m ! i))" "mx < 32768" "R_ID_NONE \<le> out_id"
    "bind_entry mx ra r_type source_id out_id ft fm (m ! i) = Inr (Bind_put q b)"
  shows "work_left mx r_type source_id out_id (drop (moved_index q i m + 1) (am_set q b m)) <
    work_left mx r_type source_id out_id (drop i m)"
proof -
  let ?w = "work_left mx r_type source_id out_id" and ?S = "settled mx r_type source_id out_id"
  note good = bind_entry_good [OF assms(2-5)]
  have drop: "drop i m = m ! i # drop (i + 1) m" using assms(1) by (simp add: Cons_nth_drop_Suc)
  show ?thesis
  proof (cases "list_ex (\<lambda>e. path_equiv (fst e) q) m")
    case True
    have "map fst (drop (i + 1) (am_set q b m)) = map fst (drop (i + 1) m)"
      using am_set_keys [OF True, of b] by (metis drop_map)
    then have "?w (drop (i + 1) (am_set q b m)) = ?w (drop (i + 1) m)" by (rule work_left_keys)
    then show ?thesis using True unfolding drop by (simp add: moved_index_def work_left_def)
  next
    case False
    let ?tw = "takeWhile (\<lambda>e. \<not> Path_lt q (fst e)) m" and ?dw = "dropWhile (\<lambda>e. \<not> Path_lt q (fst e)) m"
    have ins: "am_set q b m = ?tw @ (q, b) # ?dw" using False by (simp add: am_set_def am_insert_split)
    have m: "m = ?tw @ ?dw" by simp
    have uns: "\<not> ?S (fst (m ! i))" using False good assms(1) by (auto simp: list_ex_iff)
    show ?thesis
    proof (cases "length ?tw \<le> i")
      case True
      have "drop (i + 1) m = drop (i + 1) (?tw @ ?dw)" by simp
      also have "\<dots> = drop (i + 1 - length ?tw) ?dw"
        using True unfolding drop_append by (simp del: takeWhile_dropWhile_id)
      finally have "drop (i + 2) (am_set q b m) = drop (i + 1) m"
        using True unfolding ins by (simp add: Suc_diff_le)
      then show ?thesis using True False unfolding drop by (simp add: moved_index_def work_left_def)
    next
      case lt: False
      have "drop (i + 1) (am_set q b m) = drop (i + 1) ?tw @ (q, b) # ?dw" using lt unfolding ins by simp
      moreover have "drop (i + 1) (?tw @ ?dw) = drop (i + 1) ?tw @ ?dw"
        using lt unfolding drop_append by (simp del: takeWhile_dropWhile_id)
      then have "drop (i + 1) m = drop (i + 1) ?tw @ ?dw" by simp
      ultimately have "?w (drop (i + 1) (am_set q b m)) = ?w (drop (i + 1) m) + 1"
        using good by (simp add: work_left_def)
      then show ?thesis using lt False uns unfolding drop by (simp add: moved_index_def work_left_def)
    qed
  qed
qed

lemma Bind_in_place_returns:
  assumes "\<forall>e\<in>set m. good_path mx (fst e)" "mx < 32768" "R_ID_NONE \<le> out_id"
    "work_left mx r_type source_id out_id (drop i m) < fuel"
  shows "Bind_in_place fuel mx ra r_type source_id out_id ft fm i m \<noteq> Inr None"
  using assms(1,4)
proof (induction fuel arbitrary: i m)
  case (Suc fuel)
  show ?case
  proof (cases "length m \<le> i")
    case False
    then have i: "i < length m" and drop: "drop i m = m ! i # drop (i + 1) m" by (simp_all add: Cons_nth_drop_Suc)
    have gi: "good_path mx (fst (m ! i))" using Suc.prems(1) i by simp
    show ?thesis
    proof (cases "bind_entry mx ra r_type source_id out_id ft fm (m ! i)")
      case (Inr act)
      show ?thesis
      proof (cases act)
        case Bind_continue
        have "work_left mx r_type source_id out_id (drop (i + 1) m) < fuel"
          using Suc.prems(2) unfolding drop by (simp add: work_left_def split: if_splits)
        then show ?thesis using False Inr Bind_continue Suc.IH [OF Suc.prems(1)] by simp
      next
        case (Bind_put q b)
        note step = work_left_step [OF i gi assms(2,3) Inr [unfolded Bind_put]]
        have "\<forall>e\<in>set (am_set q b m). good_path mx (fst e)"
          using Suc.prems(1) bind_entry_good [OF gi assms(2,3) Inr [unfolded Bind_put]]
          by (auto simp: am_set_def am_insert_set)
        then show ?thesis using False Inr Bind_put Suc.IH step Suc.prems(2) by simp
      qed (use False Inr in simp)
    qed (use False in simp)
  qed simp
qed simp

text \<open>C28: the loop of \<open>Bind\<close> that walks the map it inserts into ends. When the paths of the map are
  well formed and carry no \<open>R_ID_ANY\<close>, and the number to bind to is not below \<open>R_ID_NONE\<close>,
  every path the loop adds is one it will not renumber again, so that it stops after at most
  twice as many rounds as the map has entries.\<close>

theorem bind_in_place_terminates:
  assumes "\<forall>(p, a)\<in>set m. path_ok mx p \<and> path_printable p" "mx < 32768" "R_ID_NONE \<le> out_id"
  shows "Bind_same mx ra r_type source_id out_id filter_rtype filter_mask m \<noteq> Inr None"
proof -
  have "\<forall>e\<in>set m. good_path mx (fst e)" using assms(1) by (auto simp: good_path_def)
  moreover have "work_left mx r_type source_id out_id (drop 0 m) < bind_fuel m"
    using length_filter_le [of "\<lambda>e. \<not> settled mx r_type source_id out_id (fst e)" m]
    by (simp add: work_left_def bind_fuel_def less_Suc_eq_le)
  ultimately show ?thesis unfolding Bind_same_def by (rule Bind_in_place_returns [OF _ assms(2,3)])
qed

theorem bind_in_place_terminates_witness:
  "Bind_same 31 ra_pe CPU 0 1 UNDEFINED None pe_request \<noteq> Inr None"
proof -
  have "path_printable (ResourcePath_new 31 ''sys0.cpu0.pe'')" by code_simp
  then have "\<forall>(p, a)\<in>set pe_request. path_ok 31 p \<and> path_printable p" by (simp add: pe_request_def)
  then show ?thesis by (rule bind_in_place_terminates) (simp_all add: R_ID_NONE_def)
qed

end
