(* ===== verification/Working_Mode.thy ===== *)
theory Working_Mode
  imports Complex_Main Binder
begin

text \<open>
  \<open>WorkingMode\<close> (\<^verbatim>\<open>include/bbque/app/working_mode.h\<close>, \<^verbatim>\<open>bbque/app/working_mode.cc\<close>): the
  resource requests of an application working mode (AWM), their binding to system resources,
  and the masks of what is bound.

  A \<open>float\<close> that is compared and stored is a rational number here, the exact value of a finite
  one. The path prefix of the build configuration is the argument \<open>prefix\<close>. A binding that
  continues an earlier one works on the map of the earlier one in place.
\<close>

section \<open>State\<close>

datatype WMExitCode =
    WM_SUCCESS | WM_NOT_FOUND | WM_RSRC_NOT_FOUND | WM_RSRC_USAGE_EXCEEDS | WM_RSRC_ERR_TYPE
  | WM_RSRC_MISS_BIND | WM_BIND_ID_OVERFLOW | WM_BIND_FAILED

record BindingInfo =
  bi_prev :: ResourceBitset
  bi_curr :: ResourceBitset
  bi_changed :: bool

record RuntimeProfiling =
  rp_exec_time :: u32
  rp_exec_time_tot :: u32
  rp_mem_time :: u32
  rp_mem_time_tot :: u32
  rp_sync_time :: u32

record WorkingMode =
  wm_owner :: "AppUid option"
  wm_id :: int
  wm_name :: string
  wm_hidden :: bool
  value_recipe :: u32
  value_normal :: rat
  config_recipe :: u32
  config_normal :: rat
  config_runtime :: u32
  rt_prof :: RuntimeProfiling
  sched_count :: u32
  requested :: AssignMap
  sched_bindings :: "AssignMap list"
  sync_bindings :: "AssignMap option"
  sync_refn :: nat
  binding_masks :: "ResourceType \<rightharpoonup> BindingInfo"

definition BindingInfo_new :: "int \<Rightarrow> BindingInfo" where
  "BindingInfo_new mx = \<lparr>bi_prev = ResourceBitset_new mx, bi_curr = ResourceBitset_new mx, bi_changed = False\<rparr>"

definition SetCurrentSet :: "ResourceBitset \<Rightarrow> BindingInfo \<Rightarrow> BindingInfo" where
  "SetCurrentSet b bi =
     \<lparr>bi_prev = bi_curr bi, bi_curr = b, bi_changed = (\<not> Bitset_eq b (bi_curr bi))\<rparr>"

definition RestorePreviousSet :: "BindingInfo \<Rightarrow> BindingInfo" where
  "RestorePreviousSet bi = bi\<lparr>bi_curr := bi_prev bi, bi_changed := False\<rparr>"

text \<open>Storing a float in a \<open>uint32_t\<close> drops the fraction.\<close>

definition float_to_u32 :: "rat \<Rightarrow> u32" where
  "float_to_u32 x = word_of_int (if x < 0 then - \<lfloor>- x\<rfloor> else \<lfloor>x\<rfloor>)"

definition WorkingMode_new :: "int \<Rightarrow> string \<Rightarrow> rat \<Rightarrow> AppUid option \<Rightarrow> WorkingMode" where
  "WorkingMode_new i name value owner =
     \<lparr>wm_owner = owner, wm_id = i, wm_name = name, wm_hidden = False,
      value_recipe = (if value > 0 then float_to_u32 value else 0), value_normal = 0,
      config_recipe = 0, config_normal = - 1, config_runtime = 0,
      rt_prof = \<lparr>rp_exec_time = 0, rp_exec_time_tot = 0, rp_mem_time = 0, rp_mem_time_tot = 0, rp_sync_time = 0\<rparr>,
      sched_count = 0, requested = [], sched_bindings = [], sync_bindings = None, sync_refn = 0,
      binding_masks = Map.empty\<rparr>"

section \<open>Attributes\<close>

definition SetRecipeValue :: "rat \<Rightarrow> WorkingMode \<Rightarrow> WorkingMode" where
  "SetRecipeValue r_value wm =
     (if r_value < 0 then wm\<lparr>value_recipe := 0\<rparr> else wm\<lparr>value_recipe := float_to_u32 r_value\<rparr>)"

definition SetRecipeConfigTime :: "u32 \<Rightarrow> WorkingMode \<Rightarrow> WorkingMode" where
  "SetRecipeConfigTime r_time wm = (if r_time > 0 then wm\<lparr>config_recipe := r_time\<rparr> else wm)"

definition SetNormalValue :: "rat \<Rightarrow> WorkingMode \<Rightarrow> WorkingMode" where
  "SetNormalValue n_value wm =
     (if n_value < 0 \<or> n_value > 1 then wm\<lparr>value_normal := 0\<rparr> else wm\<lparr>value_normal := n_value\<rparr>)"

definition SetNormalConfigTime :: "rat \<Rightarrow> WorkingMode \<Rightarrow> WorkingMode" where
  "SetNormalConfigTime norm_time wm =
     (if norm_time < 0 \<or> norm_time > 1 then wm\<lparr>config_normal := 0\<rparr> else wm\<lparr>config_normal := norm_time\<rparr>)"

definition IncSchedulingCount :: "WorkingMode \<Rightarrow> WorkingMode" where
  "IncSchedulingCount wm = wm\<lparr>sched_count := sched_count wm + 1\<rparr>"

definition SetRuntimeProfExecTime :: "u32 \<Rightarrow> WorkingMode \<Rightarrow> WorkingMode" where
  "SetRuntimeProfExecTime t wm =
     wm\<lparr>rt_prof := (rt_prof wm)\<lparr>rp_exec_time := t, rp_exec_time_tot := rp_exec_time_tot (rt_prof wm) + t\<rparr>\<rparr>"

definition SetRuntimeProfMemTime :: "u32 \<Rightarrow> WorkingMode \<Rightarrow> WorkingMode" where
  "SetRuntimeProfMemTime t wm =
     wm\<lparr>rt_prof := (rt_prof wm)\<lparr>rp_mem_time := t, rp_mem_time_tot := rp_mem_time_tot (rt_prof wm) + t\<rparr>\<rparr>"

definition SetRuntimeProfSyncTime :: "u32 \<Rightarrow> WorkingMode \<Rightarrow> WorkingMode" where
  "SetRuntimeProfSyncTime t wm = wm\<lparr>rt_prof := (rt_prof wm)\<lparr>rp_sync_time := t\<rparr>\<rparr>"

section \<open>Requests\<close>

fun has_substr :: "string \<Rightarrow> string \<Rightarrow> bool" where
  "has_substr pat [] = (pat = [])"
| "has_substr pat (c # s) = (take (length pat) (c # s) = pat \<or> has_substr pat s)"

definition AddResourceRequest :: "int \<Rightarrow> string \<Rightarrow> string \<Rightarrow> u64 \<Rightarrow> Policy \<Rightarrow> ResourceAccounter \<Rightarrow> WorkingMode \<Rightarrow>
    ResourceAssignment option \<times> ResourceAccounter \<times> WorkingMode" where
  "AddResourceRequest mx prefix str_path amount split_policy ra wm =
     (let prefix_str = Path_ToString (ResourcePath_new mx prefix);
          abs_str_path = (if \<not> has_substr prefix_str str_path then prefix_str @ ''.'' @ str_path else str_path)
      in case GetPath mx abs_str_path ra of
           (None, ra') \<Rightarrow> (None, ra', wm)
         | (Some p, ra') \<Rightarrow>
             let r_assign = ResourceAssignment_new mx amount split_policy
             in (Some r_assign, ra', wm\<lparr>requested := am_emplace p r_assign (requested wm)\<rparr>))"

definition GetResourceRequest_path :: "ResourcePath \<Rightarrow> WorkingMode \<Rightarrow> ResourceAssignment option" where
  "GetResourceRequest_path p wm = am_find (requested wm) p"

definition GetResourceRequest :: "int \<Rightarrow> string \<Rightarrow> ResourceAccounter \<Rightarrow> WorkingMode \<Rightarrow>
    ResourceAssignment option \<times> ResourceAccounter" where
  "GetResourceRequest mx str_path ra wm =
     (case GetPath mx str_path ra of
        (None, ra') \<Rightarrow> (None, ra')
      | (Some p, ra') \<Rightarrow> (GetResourceRequest_path p wm, ra'))"

definition ClearResourceRequests :: "WorkingMode \<Rightarrow> WorkingMode" where
  "ClearResourceRequests wm = wm\<lparr>requested := []\<rparr>"

fun Validate_loop :: "AssignMap \<Rightarrow> ResourceAccounter \<Rightarrow> bool" where
  "Validate_loop [] ra = True"
| "Validate_loop ((p, a) # m) ra =
     (if Total_path p RP_TEMPLATE ra < ra_amount a then False else Validate_loop m ra)"

definition Validate :: "ResourceAccounter \<Rightarrow> WorkingMode \<Rightarrow> WMExitCode \<times> WorkingMode" where
  "Validate ra wm =
     (if Validate_loop (requested wm) ra then (WM_SUCCESS, wm\<lparr>wm_hidden := False\<rparr>)
      else (WM_RSRC_USAGE_EXCEEDS, wm\<lparr>wm_hidden := True\<rparr>))"

fun RequestedAmount_loop :: "ResourcePath \<Rightarrow> AssignMap \<Rightarrow> fault + u64" where
  "RequestedAmount_loop p [] = Inr 0"
| "RequestedAmount_loop p ((q, a) # m) =
     seq_fault (Path_Compare p q) (\<lambda>c.
       if c = PATH_NOT_EQUAL then RequestedAmount_loop p m else Inr (ra_amount a))"

definition RequestedAmount :: "ResourcePath \<Rightarrow> WorkingMode \<Rightarrow> fault + u64" where
  "RequestedAmount p wm = RequestedAmount_loop p (requested wm)"

section \<open>Binding\<close>

definition GetSchedResourceBinding :: "nat \<Rightarrow> WorkingMode \<Rightarrow> AssignMap option" where
  "GetSchedResourceBinding b_refn wm =
     (if b_refn \<ge> length (sched_bindings wm) then None else Some (sched_bindings wm ! b_refn))"

fun is_matched :: "ResourceType \<Rightarrow> ResourcePath \<Rightarrow> AssignMap \<Rightarrow> fault + bool" where
  "is_matched r_type p [] = Inr False"
| "is_matched r_type p ((q, a) # bound_map) =
     seq_fault (Path_Compare p q) (\<lambda>cmp.
       if cmp = PATH_EQUAL then Inr True
       else if cmp = PATH_EQUAL_TYPES then
         seq_fault (Path_GetID r_type p) (\<lambda>i.
           seq_fault (Path_GetID r_type q) (\<lambda>j.
             if i = j then Inr True else is_matched r_type p bound_map))
       else is_matched r_type p bound_map)"

fun AddMissingResourceRequests :: "ResourceType \<Rightarrow> AssignMap \<Rightarrow> AssignMap \<Rightarrow> fault + AssignMap" where
  "AddMissingResourceRequests r_type [] bound_map = Inr bound_map"
| "AddMissingResourceRequests r_type ((p, a) # reqs) bound_map =
     seq_fault (is_matched r_type p bound_map) (\<lambda>matched.
       AddMissingResourceRequests r_type reqs (if matched then bound_map else am_emplace p a bound_map))"

definition StoreBinding :: "AssignMap \<Rightarrow> int \<Rightarrow> WorkingMode \<Rightarrow> int \<times> WorkingMode" where
  "StoreBinding out_map prev_refn wm =
     (if prev_refn < 0 then (0, wm\<lparr>sched_bindings := sched_bindings wm @ [out_map]\<rparr>)
      else if prev_refn < int (length (sched_bindings wm))
      then (prev_refn, wm\<lparr>sched_bindings := (sched_bindings wm)[nat prev_refn := out_map]\<rparr>)
      else (- 1, wm))"

definition complete_map :: "ResourceType \<Rightarrow> WorkingMode \<Rightarrow> AssignMap \<Rightarrow> fault + AssignMap" where
  "complete_map r_type wm out_map =
     (if length out_map \<noteq> length (requested wm) then AddMissingResourceRequests r_type (requested wm) out_map
      else Inr out_map)"

text \<open>The two overloads. The first part of each result is the reference number; it is absent when
  the in-place loop runs out of fuel.\<close>

definition BindResource :: "int \<Rightarrow> ResourceAccounter \<Rightarrow> ResourceType \<Rightarrow> rid \<Rightarrow> rid \<Rightarrow> int \<Rightarrow> ResourceType \<Rightarrow>
    ResourceBitset option \<Rightarrow> WorkingMode \<Rightarrow> fault + (int \<times> WorkingMode) option" where
  "BindResource mx ra r_type source_id out_id prev_refn filter_rtype filter_mask wm =
     (if prev_refn < 0 then
        seq_fault (complete_map r_type wm []) (\<lambda>out_map.
          seq_fault (Bind mx ra r_type source_id out_id filter_rtype filter_mask (requested wm) out_map) (\<lambda>out_map.
            Inr (Some (if out_map = [] then (- 1, wm) else StoreBinding out_map prev_refn wm))))
      else case GetSchedResourceBinding (nat prev_refn) wm of
        None \<Rightarrow> Inr (Some (- 1, wm))
      | Some m \<Rightarrow>
          seq_fault (complete_map r_type wm m) (\<lambda>m.
            seq_fault (Bind_same mx ra r_type source_id out_id filter_rtype filter_mask m) (\<lambda>res.
              Inr (case res of
                     None \<Rightarrow> None
                   | Some m \<Rightarrow>
                       let wm' = wm\<lparr>sched_bindings := (sched_bindings wm)[nat prev_refn := m]\<rparr>
                       in Some (if m = [] then (- 1, wm') else StoreBinding m prev_refn wm')))))"

definition BindResource_path :: "int \<Rightarrow> ResourceAccounter \<Rightarrow> ResourcePath \<Rightarrow> ResourceBitset \<Rightarrow> int \<Rightarrow> WorkingMode \<Rightarrow>
    fault + int \<times> WorkingMode" where
  "BindResource_path mx ra p filter_mask prev_refn wm =
     (if prev_refn < 0 then
        seq_fault (if requested wm \<noteq> [] then seq_fault (Path_Type 0 p) (\<lambda>t. complete_map t wm []) else Inr [])
          (\<lambda>out_map.
            seq_fault (Bind_path mx ra (requested wm) p filter_mask out_map) (\<lambda>out_map.
              Inr (if out_map = [] then (- 1, wm) else StoreBinding out_map prev_refn wm)))
      else case GetSchedResourceBinding (nat prev_refn) wm of
        None \<Rightarrow> Inr (- 1, wm)
      | Some m \<Rightarrow>
          seq_fault (if length m \<noteq> length (requested wm) then seq_fault (Path_Type 0 p) (\<lambda>t. complete_map t wm m) else Inr m)
            (\<lambda>m.
              seq_fault (Bind_path mx ra m p filter_mask m) (\<lambda>m'.
                let wm' = wm\<lparr>sched_bindings := (sched_bindings wm)[nat prev_refn := m']\<rparr>
                in Inr (if m' = [] then (- 1, wm') else StoreBinding m' prev_refn wm'))))"

text \<open>What an index outside of the vector reads is not defined; the argument \<open>beyond\<close> says what
  the platform gives, \<open>None\<close> for an abort.\<close>

definition sync_sched_binding :: "(nat \<Rightarrow> AssignMap option) \<Rightarrow> WorkingMode \<Rightarrow> fault + AssignMap" where
  "sync_sched_binding beyond wm =
     (if sync_refn wm < length (sched_bindings wm) then Inr (sched_bindings wm ! sync_refn wm)
      else case beyond (sync_refn wm) of None \<Rightarrow> Inl OutOfRange | Some m \<Rightarrow> Inr m)"

definition new_binding_mask :: "(nat \<Rightarrow> AssignMap option) \<Rightarrow> int \<Rightarrow> ResourceType \<Rightarrow> RViewToken \<Rightarrow> ResourceAccounter \<Rightarrow> WorkingMode \<Rightarrow>
    fault + ResourceBitset \<times> ResourceAccounter" where
  "new_binding_mask beyond mx r_type status_view ra wm =
     seq_fault (sync_sched_binding beyond wm) (\<lambda>m.
       if r_type = PROC_ELEMENT \<or> r_type = MEMORY
       then GetMask_scoped mx m r_type CPU R_ID_ANY (wm_owner wm) status_view ra
       else GetMask mx m r_type ra)"

fun UpdateBindingInfo_loop :: "(nat \<Rightarrow> AssignMap option) \<Rightarrow> int \<Rightarrow> RViewToken \<Rightarrow> bool \<Rightarrow> ResourceType list \<Rightarrow>
    ResourceAccounter \<Rightarrow> WorkingMode \<Rightarrow> fault + ResourceAccounter \<times> WorkingMode" where
  "UpdateBindingInfo_loop beyond mx status_view update_changed [] ra wm = Inr (ra, wm)"
| "UpdateBindingInfo_loop beyond mx status_view update_changed (r_type # ts) ra wm =
     seq_fault (new_binding_mask beyond mx r_type status_view ra wm) (\<lambda>(new_mask, ra').
       if \<not> update_changed \<or> bs_count new_mask = 0
       then UpdateBindingInfo_loop beyond mx status_view update_changed ts ra' wm
       else let bi = (case binding_masks wm r_type of None \<Rightarrow> BindingInfo_new mx | Some bi \<Rightarrow> bi)
            in UpdateBindingInfo_loop beyond mx status_view update_changed ts ra'
                 (wm\<lparr>binding_masks := (binding_masks wm)(r_type \<mapsto> SetCurrentSet new_mask bi)\<rparr>))"

definition UpdateBindingInfo :: "(nat \<Rightarrow> AssignMap option) \<Rightarrow> int \<Rightarrow> RViewToken \<Rightarrow> bool \<Rightarrow> ResourceAccounter \<Rightarrow> WorkingMode \<Rightarrow>
    fault + ResourceAccounter \<times> WorkingMode" where
  "UpdateBindingInfo beyond mx status_view update_changed ra wm =
     UpdateBindingInfo_loop beyond mx status_view update_changed r_type_list ra wm"

definition SetResourceBinding :: "(nat \<Rightarrow> AssignMap option) \<Rightarrow> int \<Rightarrow> RViewToken \<Rightarrow> nat \<Rightarrow> ResourceAccounter \<Rightarrow> WorkingMode \<Rightarrow>
    fault + WMExitCode \<times> ResourceAccounter \<times> WorkingMode" where
  "SetResourceBinding beyond mx status_view b_refn ra wm =
     (let wm1 = wm\<lparr>sync_bindings := GetSchedResourceBinding b_refn wm\<rparr> in
      case sync_bindings wm1 of
        None \<Rightarrow> Inr (WM_BIND_FAILED, ra, wm1)
      | Some _ \<Rightarrow>
          seq_fault (UpdateBindingInfo beyond mx status_view True ra (wm1\<lparr>sync_refn := b_refn, sched_bindings := []\<rparr>))
            (\<lambda>(ra', wm2). Inr (WM_SUCCESS, ra', wm2)))"

definition ClearResourceBinding :: "int \<Rightarrow> WorkingMode \<Rightarrow> WorkingMode" where
  "ClearResourceBinding mx wm =
     (case sync_bindings wm of
        None \<Rightarrow> wm
      | Some _ \<Rightarrow>
          wm\<lparr>sync_bindings := Some [],
             binding_masks := (\<lambda>t. Some (RestorePreviousSet
               (case binding_masks wm t of None \<Rightarrow> BindingInfo_new mx | Some bi \<Rightarrow> bi)))\<rparr>)"

definition ClearSchedResourceBinding :: "WorkingMode \<Rightarrow> WorkingMode" where
  "ClearSchedResourceBinding wm = wm\<lparr>sched_bindings := []\<rparr>"

definition BindingSet :: "int \<Rightarrow> ResourceType \<Rightarrow> WorkingMode \<Rightarrow> ResourceBitset" where
  "BindingSet mx r_type wm =
     (case binding_masks wm r_type of None \<Rightarrow> ResourceBitset_new mx | Some bi \<Rightarrow> bi_curr bi)"

definition BindingSetPrev :: "int \<Rightarrow> ResourceType \<Rightarrow> WorkingMode \<Rightarrow> ResourceBitset" where
  "BindingSetPrev mx r_type wm =
     (case binding_masks wm r_type of None \<Rightarrow> ResourceBitset_new mx | Some bi \<Rightarrow> bi_prev bi)"

definition BindingChanged :: "ResourceType \<Rightarrow> WorkingMode \<Rightarrow> bool" where
  "BindingChanged r_type wm = (case binding_masks wm r_type of None \<Rightarrow> False | Some bi \<Rightarrow> bi_changed bi)"

section \<open>Properties\<close>

text \<open>Taking a binding for synchronisation reads a list that was just emptied. For every valid
  reference number, \<open>SetResourceBinding\<close> clears the list of scheduled bindings and then, to
  compute the masks, indexes it with that number. Where such a read aborts, so does the call.\<close>

theorem set_binding_reads_emptied_list:
  assumes "b_refn < length (sched_bindings wm)" "beyond b_refn = None"
  shows "SetResourceBinding beyond mx status_view b_refn ra wm = Inl OutOfRange"
  using assms
  by (simp add: SetResourceBinding_def GetSchedResourceBinding_def UpdateBindingInfo_def r_type_list_def
      new_binding_mask_def sync_sched_binding_def)

definition wm_bound :: WorkingMode where
  "wm_bound = (WorkingMode_new 1 ''awm'' 10 (Some 7))\<lparr>requested := pe_request, sched_bindings := [pe_request]\<rparr>"

theorem set_binding_reads_emptied_list_witness:
  "SetResourceBinding (\<lambda>_. None) 31 5 0 ra_pe wm_bound = Inl OutOfRange"
  by (rule set_binding_reads_emptied_list) (simp_all add: wm_bound_def)

text \<open>A first binding that renumbers a resource leaves the request behind. The output map is
  filled with the requests before the binding adds the renumbered paths to it. With a request
  on \<open>sys0.cpu0.pe\<close> bound from CPU 0 to CPU 1, the stored map holds both paths, the first with
  no descriptor, and the availability check of a booking with it fails although the bound
  descriptor has the whole amount free.\<close>

theorem renumbering_leaves_unbound_request:
  "\<exists>wm m. BindResource 31 ra_pe CPU 0 1 (- 1) UNDEFINED None (wm_bound\<lparr>sched_bindings := []\<rparr>) = Inr (Some (0, wm)) \<and>
     sched_bindings wm = [m] \<and>
     map (\<lambda>(p, a). (Path_ToString p, ra_amount a, length (ra_resources a))) m =
       [(''sys0.cpu0.pe'', 80, 0), (''sys0.cpu1.pe'', 80, 1)] \<and>
     CheckAvailability m 5 None ra_pe = RA_ERR_USAGE_EXC"
proof -
  let ?b = "BindResource 31 ra_pe CPU 0 1 (- 1) UNDEFINED None (wm_bound\<lparr>sched_bindings := []\<rparr>)"
  have run: "(case ?b of
      Inr (Some (i, wm)) \<Rightarrow>
        i = 0 \<and> length (sched_bindings wm) = 1 \<and>
        map (\<lambda>(p, a). (Path_ToString p, ra_amount a, length (ra_resources a))) (hd (sched_bindings wm)) =
          [(''sys0.cpu0.pe'', 80, 0), (''sys0.cpu1.pe'', 80, 1)] \<and>
        CheckAvailability (hd (sched_bindings wm)) 5 None ra_pe = RA_ERR_USAGE_EXC
    | _ \<Rightarrow> False)"
    by code_simp
  then obtain i wm where b: "?b = Inr (Some (i, wm))" by (auto split: sum.splits option.splits)
  with run have "i = 0" "length (sched_bindings wm) = 1" by simp_all
  then obtain m where "sched_bindings wm = [m]" by (cases "sched_bindings wm") auto
  with run b \<open>i = 0\<close> show ?thesis by auto
qed

end
