(* ===== verification/Schedulable.thy ===== *)
theory Schedulable
  imports Accounter_Views Working_Mode
begin

text \<open>
  \<open>Schedulable\<close> (\<^verbatim>\<open>include/bbque/app/schedulable.h\<close>, \<^verbatim>\<open>bbque/app/schedulable.cc\<close>), the state machine
  that applications and processes share, and the constructor of \<open>Process\<close>
  (\<^verbatim>\<open>bbque/app/process.cc\<close>).

  A class that derives from \<open>Schedulable\<close> extends the record, and the operations of the base class
  work on every extension. Working modes are shared by pointer between the recipe vector, the
  enabled list and the schedule of one application; they live in the store \<open>awm_objs\<close> of their
  owner, and a pointer is a number. The mutex of the schedule is recursive and held by each
  operation from its first to its last access, so operations are atomic steps.
\<close>

section \<open>State\<close>

datatype AppExitCode =
    APP_SUCCESS | APP_DISABLED | APP_FINISHED | APP_STATUS_NOT_EXP | APP_SYNC_NOT_EXP | APP_RECP_NULL
  | APP_WM_NOT_FOUND | APP_RSRC_NOT_FOUND | APP_CONS_NOT_FOUND | APP_WM_REJECTED | APP_WM_ENAB_CHANGED
  | APP_WM_ENAB_UNCHANGED | APP_TG_SEM_ERROR | APP_TG_FILE_ERROR | APP_ABORT

datatype State = NEW | READY | SYNC | RUNNING | FINISHED

text \<open>\<open>SYNC_NONE\<close> is the count of the synchronisation states.\<close>

datatype SyncState = STARTING | RECONF | MIGREC | MIGRATE | BLOCKED | DISABLED | SYNC_NONE

datatype SchedType = ADAPTIVE | PROCESS

type_synonym awmptr = nat

record Schedulable =
  sch_name :: string
  sch_pid :: u32
  sch_priority :: u16
  sch_type :: SchedType
  sch_state :: State
  preSyncState :: State
  syncState :: SyncState
  awm :: "awmptr option"
  next_awm :: "awmptr option"
  sch_count :: u64
  remote :: bool
  sch_value :: rat
  awm_objs :: "awmptr \<Rightarrow> WorkingMode"

section \<open>Operations\<close>

definition SetSyncState :: "SyncState \<Rightarrow> 'a Schedulable_scheme \<Rightarrow> 'a Schedulable_scheme" where
  "SetSyncState sync s = s\<lparr>syncState := sync\<rparr>"

text \<open>The end of a transition to a stable state: the working modes that the new state leaves.\<close>

definition settle_awms :: "State \<Rightarrow> SyncState \<Rightarrow> 'a Schedulable_scheme \<Rightarrow> fault + AppExitCode \<times> 'a Schedulable_scheme" where
  "settle_awms next_state next_sync s =
     (if next_sync = DISABLED \<or> next_sync = BLOCKED \<or> next_state = READY
      then Inr (APP_SUCCESS, s\<lparr>awm := None, next_awm := None\<rparr>)
      else if next_state = RUNNING
      then (case next_awm s of
              None \<Rightarrow> Inl NullDeref
            | Some w \<Rightarrow>
                Inr (APP_SUCCESS,
                  s\<lparr>awm := Some w, awm_objs := (awm_objs s)(w := IncSchedulingCount (awm_objs s w)),
                    sch_count := sch_count s + 1, next_awm := None\<rparr>))
      else Inr (APP_SUCCESS, s))"

definition Sched_SetState :: "State \<Rightarrow> SyncState \<Rightarrow> 'a Schedulable_scheme \<Rightarrow> fault + AppExitCode \<times> 'a Schedulable_scheme" where
  "Sched_SetState next_state next_sync s =
     (if next_state = SYNC
      then if next_sync = SYNC_NONE then Inr (APP_SYNC_NOT_EXP, s)
           else Inr (APP_SUCCESS,
                  (SetSyncState next_sync (s\<lparr>preSyncState := sch_state s\<rparr>))\<lparr>sch_state := SYNC\<rparr>)
      else if next_sync \<noteq> SYNC_NONE then Inr (APP_SYNC_NOT_EXP, s)
      else settle_awms next_state next_sync
             (SetSyncState SYNC_NONE (s\<lparr>preSyncState := sch_state s, sch_state := next_state\<rparr>)))"

definition SetNextAWM :: "awmptr option \<Rightarrow> 'a Schedulable_scheme \<Rightarrow> 'a Schedulable_scheme" where
  "SetNextAWM w s = s\<lparr>next_awm := w\<rparr>"

definition Disabled :: "'a Schedulable_scheme \<Rightarrow> bool" where
  "Disabled s \<longleftrightarrow> syncState s = DISABLED"

definition Finished :: "'a Schedulable_scheme \<Rightarrow> bool" where
  "Finished s \<longleftrightarrow> sch_state s = FINISHED"

definition Active :: "'a Schedulable_scheme \<Rightarrow> bool" where
  "Active s \<longleftrightarrow> sch_state s = READY \<or> sch_state s = RUNNING"

definition Running :: "'a Schedulable_scheme \<Rightarrow> bool" where
  "Running s \<longleftrightarrow> sch_state s = RUNNING"

definition Sched_Synching :: "'a Schedulable_scheme \<Rightarrow> bool" where
  "Sched_Synching s \<longleftrightarrow> sch_state s = SYNC"

definition Starting :: "'a Schedulable_scheme \<Rightarrow> bool" where
  "Starting s \<longleftrightarrow> Sched_Synching s \<and> syncState s = STARTING"

definition Blocking :: "'a Schedulable_scheme \<Rightarrow> bool" where
  "Blocking s \<longleftrightarrow> Sched_Synching s \<and> syncState s = BLOCKED"

definition SwitchingAWM :: "'a Schedulable_scheme \<Rightarrow> fault + bool" where
  "SwitchingAWM s =
     (if sch_state s \<noteq> SYNC then Inr False
      else case (awm s, next_awm s) of
        (Some w, Some w') \<Rightarrow> Inr (wm_id (awm_objs s w) \<noteq> wm_id (awm_objs s w'))
      | _ \<Rightarrow> Inl NullDeref)"

definition Reshuffling :: "awmptr \<Rightarrow> 'a Schedulable_scheme \<Rightarrow> fault + bool" where
  "Reshuffling w s =
     (case awm s of
        None \<Rightarrow> Inl NullDeref
      | Some c \<Rightarrow>
          (case (sync_bindings (awm_objs s c), sync_bindings (awm_objs s w)) of
             (Some pumc, Some puma) \<Rightarrow> Inr (IsReshuffling pumc puma)
           | _ \<Rightarrow> Inl NullDeref))"

definition NextSyncState :: "int \<Rightarrow> awmptr \<Rightarrow> 'a Schedulable_scheme \<Rightarrow> fault + SyncState" where
  "NextSyncState mx w s =
     (case awm s of
        None \<Rightarrow> Inr STARTING
      | Some c \<Rightarrow>
          let curr = awm_objs s c; nxt = awm_objs s w in
          if wm_id curr \<noteq> wm_id nxt \<and> \<not> Bitset_eq (BindingSet mx CPU curr) (BindingSet mx CPU nxt) then Inr MIGREC
          else if wm_id curr = wm_id nxt \<and> BindingChanged CPU curr then Inr MIGRATE
          else if wm_id curr \<noteq> wm_id nxt then Inr RECONF
          else seq_fault (Reshuffling w s) (\<lambda>b. Inr (if b then RECONF else SYNC_NONE)))"

definition SetRemote :: "bool \<Rightarrow> 'a Schedulable_scheme \<Rightarrow> 'a Schedulable_scheme" where
  "SetRemote is_remote s = s\<lparr>remote := is_remote\<rparr>"

definition SetLocal :: "bool \<Rightarrow> 'a Schedulable_scheme \<Rightarrow> 'a Schedulable_scheme" where
  "SetLocal is_local s = s\<lparr>remote := \<not> is_local\<rparr>"

text \<open>A process. The constructor leaves the state before synchronisation and the value unset: they
  are arguments.\<close>

definition Process_new :: "State \<Rightarrow> rat \<Rightarrow> string \<Rightarrow> u32 \<Rightarrow> u16 \<Rightarrow> State \<Rightarrow> SyncState \<Rightarrow> Schedulable" where
  "Process_new unset_state unset_value name pid prio state sync =
     \<lparr>sch_name = name, sch_pid = pid, sch_priority = prio, sch_type = PROCESS, sch_state = state,
      preSyncState = unset_state, syncState = sync, awm = None, next_awm = None, sch_count = 0, remote = False,
      sch_value = unset_value, awm_objs = (\<lambda>_. WorkingMode_new 0 [] 0 None)\<rparr>"

section \<open>Invariant and transitions\<close>

text \<open>The synchronisation state is set exactly in the state \<open>SYNC\<close>, and a running application has a
  working mode.\<close>

definition sched_ok :: "'a Schedulable_scheme \<Rightarrow> bool" where
  "sched_ok s \<longleftrightarrow> (sch_state s = SYNC \<longleftrightarrow> syncState s \<noteq> SYNC_NONE) \<and> (sch_state s = RUNNING \<longrightarrow> awm s \<noteq> None)"

lemmas sched_defs = Sched_SetState_def settle_awms_def SetSyncState_def

text \<open>What a transition does, by its target.\<close>

lemma Sched_SetState_SYNC [simp]:
  "Sched_SetState SYNC next_sync s =
     (if next_sync = SYNC_NONE then Inr (APP_SYNC_NOT_EXP, s)
      else Inr (APP_SUCCESS, s\<lparr>preSyncState := sch_state s, syncState := next_sync, sch_state := SYNC\<rparr>))"
  by (simp add: sched_defs)

lemma Sched_SetState_cases:
  assumes "Sched_SetState next_state next_sync s = Inr (e, s')"
  obtains (rejected) "e = APP_SYNC_NOT_EXP" "s' = s" "(next_state = SYNC) = (next_sync = SYNC_NONE)"
    | (sync) "e = APP_SUCCESS" "next_state = SYNC" "next_sync \<noteq> SYNC_NONE"
        "s' = s\<lparr>preSyncState := sch_state s, syncState := next_sync, sch_state := SYNC\<rparr>"
    | (ready) "e = APP_SUCCESS" "next_state = READY" "next_sync = SYNC_NONE"
        "s' = s\<lparr>preSyncState := sch_state s, sch_state := READY, syncState := SYNC_NONE, awm := None, next_awm := None\<rparr>"
    | (running) w where "e = APP_SUCCESS" "next_state = RUNNING" "next_sync = SYNC_NONE" "next_awm s = Some w"
        "s' = s\<lparr>preSyncState := sch_state s, sch_state := RUNNING, syncState := SYNC_NONE, awm := Some w,
               awm_objs := (awm_objs s)(w := IncSchedulingCount (awm_objs s w)), sch_count := sch_count s + 1,
               next_awm := None\<rparr>"
    | (other) "e = APP_SUCCESS" "next_state = NEW \<or> next_state = FINISHED" "next_sync = SYNC_NONE"
        "s' = s\<lparr>preSyncState := sch_state s, sch_state := next_state, syncState := SYNC_NONE\<rparr>"
proof (cases "next_state = SYNC")
  case True
  with assms show thesis by (cases "next_sync = SYNC_NONE") (auto intro: rejected sync)
next
  case stable: False
  show thesis
  proof (cases "next_sync = SYNC_NONE")
    case True
    with assms stable show thesis
      by (cases next_state; cases "next_awm s") (simp_all add: sched_defs ready running other)
  qed (use assms stable in \<open>simp add: Sched_SetState_def rejected\<close>)
qed

lemma sched_ok_SetState:
  "Sched_SetState next_state next_sync s = Inr (e, s') \<Longrightarrow> sched_ok s \<Longrightarrow> sched_ok s'"
  by (erule Sched_SetState_cases) (auto simp: sched_ok_def)

lemma Sched_SetState_faults_iff:
  "(\<exists>x. Sched_SetState next_state next_sync s = Inl x) \<longleftrightarrow>
     next_state = RUNNING \<and> next_sync = SYNC_NONE \<and> next_awm s = None"
  by (cases next_state; cases "next_sync = SYNC_NONE") (auto simp: sched_defs split: option.splits)

lemma Sched_SetState_result:
  assumes "Sched_SetState next_state next_sync s = Inr (APP_SUCCESS, s')"
  shows "sch_state s' = next_state" "syncState s' = next_sync"
  using assms by (auto elim: Sched_SetState_cases)

lemma Sched_SetState_keeps:
  assumes "Sched_SetState next_state next_sync s = Inr (e, s')"
  shows "sch_name s' = sch_name s" "sch_pid s' = sch_pid s" "sch_priority s' = sch_priority s"
    "sch_type s' = sch_type s"
  using assms by (auto elim!: Sched_SetState_cases)

end
