(* ===== verification/Float_Round.thy ===== *)
theory Float_Round
  imports Complex_Main
begin

text \<open>
  Floating point as the daemon computes with it: the value of an operation on \<open>float\<close> or \<open>double\<close> is
  the exact value rounded to the nearest number with 24 or 53 significant bits, to the even one
  of two that are equally near. The operands are conversions of unsigned integers and their
  quotients, so that neither the sign nor the range of exponents plays a role.
\<close>

section \<open>Rounding\<close>

function ilog2 :: "int \<Rightarrow> nat" where
  "ilog2 n = (if n \<le> 1 then 0 else ilog2 (n div 2) + 1)"
  by pat_completeness auto
termination
  by (relation "measure nat") auto

declare ilog2.simps [simp del]

definition flog2 :: "rat \<Rightarrow> int" where
  "flog2 x = (if 1 \<le> x then int (ilog2 \<lfloor>x\<rfloor>) else - int (ilog2 (\<lceil>1 / x\<rceil> - 1) + 1))"

definition round_even :: "rat \<Rightarrow> int" where
  "round_even m =
     (let f = \<lfloor>m\<rfloor>; d = m - of_int f
      in if d < 1 / 2 \<or> d = 1 / 2 \<and> even f then f else f + 1)"

definition fl_round :: "nat \<Rightarrow> rat \<Rightarrow> rat" where
  "fl_round bits x =
     (if x \<le> 0 then 0
      else let e = flog2 x - (int bits - 1) in of_int (round_even (x / 2 powi e)) * 2 powi e)"

abbreviation to_float :: "rat \<Rightarrow> rat" where
  "to_float \<equiv> fl_round 24"

abbreviation to_double :: "rat \<Rightarrow> rat" where
  "to_double \<equiv> fl_round 53"

section \<open>Order and error\<close>

lemma ilog2_bounds: "1 \<le> n \<Longrightarrow> 2 ^ ilog2 n \<le> n \<and> n < 2 ^ (ilog2 n + 1)"
proof (induction n rule: ilog2.induct)
  case (1 n)
  show ?case
  proof (cases "n = 1")
    case False
    with "1.prems" have "\<not> n \<le> 1" "1 \<le> n div 2" by auto
    moreover from "1.IH" [OF this] have "2 ^ ilog2 (n div 2) \<le> n div 2" "n div 2 < 2 ^ (ilog2 (n div 2) + 1)" by simp_all
    moreover have "ilog2 n = ilog2 (n div 2) + 1" using \<open>\<not> n \<le> 1\<close> by (subst ilog2.simps) simp
    moreover have "2 * (n div 2) \<le> n" "n \<le> 2 * (n div 2) + 1" by presburger+
    ultimately show ?thesis by (simp only: power_add power_one_right mult_2_right) linarith
  qed (simp add: ilog2.simps)
qed

lemma flog2_bounds:
  assumes "0 < x"
  shows "2 powi flog2 x \<le> x \<and> x < 2 powi (flog2 x + 1)"
proof (cases "1 \<le> x")
  case True
  then have "1 \<le> \<lfloor>x\<rfloor>" by simp
  from ilog2_bounds [OF this] have l: "2 ^ ilog2 \<lfloor>x\<rfloor> \<le> \<lfloor>x\<rfloor>" "\<lfloor>x\<rfloor> + 1 \<le> 2 ^ (ilog2 \<lfloor>x\<rfloor> + 1)" by simp_all
  have "of_int (2 ^ ilog2 \<lfloor>x\<rfloor>) \<le> (of_int \<lfloor>x\<rfloor> :: rat)" "(of_int (\<lfloor>x\<rfloor> + 1) :: rat) \<le> of_int (2 ^ (ilog2 \<lfloor>x\<rfloor> + 1))"
    using l by (simp_all only: of_int_le_iff)
  moreover have "of_int \<lfloor>x\<rfloor> \<le> x" "x < of_int (\<lfloor>x\<rfloor> + 1)" by linarith+
  ultimately have "2 ^ ilog2 \<lfloor>x\<rfloor> \<le> x" "x < 2 ^ (ilog2 \<lfloor>x\<rfloor> + 1)" by (simp_all only: of_int_power of_int_numeral)
  then show ?thesis using True by (simp add: flog2_def power_int_add)
next
  case False
  let ?n = "\<lceil>1 / x\<rceil> - 1"
  have "1 < 1 / x" using assms False by simp
  then have "1 \<le> ?n" by linarith
  from ilog2_bounds [OF this] have l: "2 ^ ilog2 ?n \<le> ?n" "?n + 1 \<le> 2 ^ (ilog2 ?n + 1)" by simp_all
  have "of_int (2 ^ ilog2 ?n) \<le> (of_int ?n :: rat)" "(of_int (?n + 1) :: rat) \<le> of_int (2 ^ (ilog2 ?n + 1))"
    using l by (simp_all only: of_int_le_iff)
  moreover have "of_int ?n < 1 / x" "1 / x \<le> of_int (?n + 1)" by linarith+
  ultimately have "2 ^ ilog2 ?n < 1 / x" "1 / x \<le> 2 ^ (ilog2 ?n + 1)" by (simp_all only: of_int_power of_int_numeral)
  then have "x < 1 / 2 ^ ilog2 ?n" "1 / 2 ^ (ilog2 ?n + 1) \<le> x" using assms by (simp_all add: field_simps)
  then show ?thesis using False by (simp add: flog2_def power_int_minus power_int_diff field_simps)
qed

lemma round_even_near: "\<bar>of_int (round_even m) - m\<bar> \<le> 1 / 2"
proof -
  have "of_int \<lfloor>m\<rfloor> \<le> m" "m < of_int \<lfloor>m\<rfloor> + 1" by linarith+
  then show ?thesis by (auto simp: round_even_def Let_def abs_le_iff)
qed

lemma round_even_of_int [simp]: "round_even (of_int n) = n"
  by (simp add: round_even_def)

lemma round_even_mono:
  assumes "m \<le> n"
  shows "round_even m \<le> round_even n"
proof (cases "\<lfloor>m\<rfloor> = \<lfloor>n\<rfloor>")
  case True
  then show ?thesis using assms by (auto simp: round_even_def Let_def)
next
  case False
  then have "\<lfloor>m\<rfloor> + 1 \<le> \<lfloor>n\<rfloor>" using floor_mono [OF assms] by simp
  then show ?thesis by (auto simp: round_even_def Let_def)
qed

lemma fl_round_zero [simp]: "fl_round b 0 = 0"
  by (simp add: fl_round_def)

text \<open>A rounded number lies between the powers of two that its argument lies between.\<close>

lemma fl_round_between:
  assumes "0 < x" "0 < b"
  shows "2 powi flog2 x \<le> fl_round b x" "fl_round b x \<le> 2 powi (flog2 x + 1)"
proof -
  define e where "e = flog2 x - (int b - 1)"
  have pe: "0 < (2 powi e :: rat)" by simp
  have k: "2 powi flog2 x = 2 ^ (b - 1) * (2 powi e :: rat)" "2 powi (flog2 x + 1) = 2 ^ b * (2 powi e :: rat)"
    using assms(2) by (simp_all add: e_def flip: power_int_of_nat power_int_add)
  have "2 ^ (b - 1) \<le> x / 2 powi e" "x / 2 powi e \<le> 2 ^ b"
    using flog2_bounds [OF assms(1)] pe unfolding k by (simp_all add: field_simps)
  then have "round_even (of_int (2 ^ (b - 1))) \<le> round_even (x / 2 powi e)" "round_even (x / 2 powi e) \<le> round_even (of_int (2 ^ b))"
    by (intro round_even_mono; simp)+
  then have "(of_int (2 ^ (b - 1)) :: rat) \<le> of_int (round_even (x / 2 powi e))" "(of_int (round_even (x / 2 powi e)) :: rat) \<le> of_int (2 ^ b)"
    by (simp_all only: of_int_le_iff round_even_of_int)
  then show "2 powi flog2 x \<le> fl_round b x" "fl_round b x \<le> 2 powi (flog2 x + 1)"
    using assms(1) pe unfolding k by (simp_all add: fl_round_def Let_def e_def [symmetric] mult_right_mono)
qed

lemma fl_round_nonneg [simp]: "0 \<le> fl_round b x"
proof (cases "0 < x")
  case True
  have "round_even 0 \<le> round_even (x / 2 powi (flog2 x - (int b - 1)))" using True by (intro round_even_mono) simp
  moreover have "round_even 0 = 0" using round_even_of_int [of 0] by simp
  ultimately show ?thesis by (simp add: fl_round_def Let_def)
qed (simp add: fl_round_def)

lemma fl_round_mono:
  assumes "x \<le> y" "0 < b"
  shows "fl_round b x \<le> fl_round b y"
proof (cases "0 < x")
  case True
  then have y: "0 < y" using assms(1) by simp
  have "flog2 x \<le> flog2 y"
  proof (rule ccontr)
    assume "\<not> flog2 x \<le> flog2 y"
    then have "2 powi (flog2 y + 1) \<le> (2 powi flog2 x :: rat)" by (intro power_int_increasing) simp_all
    with flog2_bounds [OF True] flog2_bounds [OF y] assms(1) show False by simp
  qed
  then consider "flog2 x = flog2 y" | "flog2 x + 1 \<le> flog2 y" by linarith
  then show ?thesis
  proof cases
    case 1
    then show ?thesis using True y assms(1)
      by (auto simp: fl_round_def Let_def intro!: mult_right_mono round_even_mono divide_right_mono)
  next
    case 2
    then have "2 powi (flog2 x + 1) \<le> (2 powi flog2 y :: rat)" by (intro power_int_increasing) simp_all
    then show ?thesis using fl_round_between [OF True assms(2)] fl_round_between [OF y assms(2)] by linarith
  qed
next
  case False
  then have "fl_round b x = 0" by (simp add: fl_round_def)
  then show ?thesis by simp
qed

text \<open>The integers with no more bits than the format has are exact.\<close>

lemma fl_round_of_nat:
  assumes "n < 2 ^ b"
  shows "fl_round b (of_nat n) = of_nat n"
proof (cases "n = 0")
  case False
  let ?x = "of_nat n :: rat" and ?l = "flog2 (of_nat n)"
  have x: "0 < ?x" using False by simp
  have "(2 powi ?l :: rat) < 2 powi int b" proof -
    have "?x < 2 ^ b" using less_imp_of_nat_less [OF assms, where 'a = rat] by (simp only: of_nat_power of_nat_numeral)
    then show ?thesis using flog2_bounds [OF x] by (simp only: power_int_of_nat) linarith
  qed
  then have l: "?l < int b" using power_int_increasing [of "int b" ?l "2 :: rat"] by (auto simp: not_le [symmetric])
  define k where "k = nat (int b - 1 - ?l)"
  have e: "?l - (int b - 1) = - int k" using l by (simp add: k_def)
  have "?x / 2 powi (- int k) = of_int (int (n * 2 ^ k))" by (simp add: power_int_minus field_simps)
  then have "round_even (?x / 2 powi (- int k)) = int (n * 2 ^ k)" by (simp only: round_even_of_int)
  then have "fl_round b ?x = of_int (int (n * 2 ^ k)) * 2 powi (- int k)" using x by (simp add: fl_round_def Let_def e)
  then show ?thesis by (simp add: power_int_minus)
qed simp

lemma fl_round_one: "0 < b \<Longrightarrow> fl_round b 1 = 1"
  using fl_round_of_nat [of 1 b] one_less_power [of "2 :: nat" b] by simp

text \<open>The error below one is at most a half of the last bit.\<close>

lemma fl_round_error:
  assumes "0 < x" "x < 1"
  shows "\<bar>fl_round b x - x\<bar> \<le> 1 / 2 ^ (b + 1)"
proof -
  define e where "e = flog2 x - (int b - 1)"
  have pe: "0 < (2 powi e :: rat)" by simp
  have "flog2 x \<le> - 1" using assms(2) by (simp add: flog2_def)
  then have "2 powi e \<le> (2 powi (- int b) :: rat)" by (intro power_int_increasing) (simp_all add: e_def)
  then have p: "2 powi e \<le> 1 / (2 :: rat) ^ b" by (simp add: power_int_minus field_simps)
  have "fl_round b x - x = (of_int (round_even (x / 2 powi e)) - x / 2 powi e) * 2 powi e"
  proof -
    have "fl_round b x = of_int (round_even (x / 2 powi e)) * 2 powi e" using assms(1) by (simp add: fl_round_def Let_def e_def)
    then show ?thesis using pe by (simp add: left_diff_distrib)
  qed
  then have "\<bar>fl_round b x - x\<bar> = \<bar>of_int (round_even (x / 2 powi e)) - x / 2 powi e\<bar> * 2 powi e" by (simp add: abs_mult)
  also have "\<dots> \<le> 1 / 2 * (1 / 2 ^ b)" using round_even_near [of "x / 2 powi e"] p pe by (intro mult_mono) simp_all
  finally show ?thesis by simp
qed

section \<open>Quotients of unsigned integers\<close>

text \<open>A quotient of two unsigned integers, computed in single precision.\<close>

definition float_div :: "nat \<Rightarrow> nat \<Rightarrow> rat" where
  "float_div i n = to_float (to_float (of_nat i) / to_float (of_nat n))"

lemma float_div_bounds:
  assumes "i \<le> n"
  shows "0 \<le> float_div i n" "float_div i n \<le> 1"
proof -
  have "to_float (of_nat i) \<le> to_float (of_nat n)" using assms by (intro fl_round_mono) simp_all
  then have "to_float (of_nat i) / to_float (of_nat n) \<le> 1"
    using fl_round_nonneg [of 24 "of_nat n"] by (auto simp: divide_le_eq_1 less_le)
  then show "float_div i n \<le> 1" unfolding float_div_def using fl_round_mono [of _ 1 24] by (simp add: fl_round_one)
qed (simp add: float_div_def)

lemma float_div_mono:
  assumes "i \<le> j"
  shows "float_div i n \<le> float_div j n"
  unfolding float_div_def using assms by (intro fl_round_mono divide_right_mono) simp_all

text \<open>Different numerators are told apart as long as the numbers have at most 24 bits.\<close>

lemma float_div_strict:
  assumes "i < j" "j \<le> n" "n < 2 ^ 24"
  shows "float_div i n < float_div j n"
proof -
  let ?x = "of_nat i / of_nat n :: rat" and ?y = "of_nat j / of_nat n :: rat"
  have n: "0 < (of_nat n :: rat)" using assms by simp
  have d: "float_div i n = to_float ?x" "float_div j n = to_float ?y"
    using assms by (simp_all add: float_div_def fl_round_of_nat)
  have "(of_nat i + 1 :: rat) \<le> of_nat j" using assms(1) by (simp flip: of_nat_Suc)
  then have gap: "1 / of_nat n \<le> ?y - ?x" using n by (simp add: field_simps)
  have "(of_nat n :: rat) < 2 ^ 24" using assms(3) by (simp flip: of_nat_less_iff)
  then have ulp: "1 / 2 ^ 24 < 1 / (of_nat n :: rat)" using n by (simp add: field_simps)
  have x1: "?x < 1" "?y \<le> 1" "0 \<le> ?x" "0 < ?y" using assms n by simp_all
  have ex: "to_float ?x \<le> ?x + 1 / 2 ^ 25"
  proof (cases "0 < ?x")
    case True
    then have "\<bar>to_float ?x - ?x\<bar> \<le> 1 / 2 ^ 25" using fl_round_error [of ?x 24] x1(1) by simp
    then show ?thesis by linarith
  next
    case False
    then have "?x = 0" using x1(3) by linarith
    then show ?thesis by (simp only: fl_round_zero) simp
  qed
  have ey: "?y - 1 / 2 ^ 25 \<le> to_float ?y"
  proof (cases "?y < 1")
    case True
    then have "\<bar>to_float ?y - ?y\<bar> \<le> 1 / 2 ^ 25" using fl_round_error [of ?y 24] x1(4) by simp
    then show ?thesis by linarith
  next
    case False
    then have "?y = 1" using x1(2) by simp
    then show ?thesis using fl_round_one [of 24] by simp
  qed
  show ?thesis unfolding d using gap ulp ex ey by simp
qed

end
