(* ===== verification/Recipe.thy ===== *)
theory Recipe
  imports Schedulable Float_Round
begin

text \<open>
  \<open>Recipe\<close> (\<^verbatim>\<open>include/bbque/app/recipe.h\<close>, \<^verbatim>\<open>bbque/app/recipe.cc\<close>): the working modes of an
  application with their resource constraints, and the normalisation of their values and
  configuration times; \<open>ResourceConstraint\<close> (\<^verbatim>\<open>include/bbque/res/resource_constraints.h\<close>).

  The maps of constraints are keyed by the address of a path. The accounter hands out one path
  object for one text (\<open>GetPath\<close>), and the constraints are all set on such paths, so a key is found
  by the text of the path. The number of priority levels of the build configuration is the
  argument \<open>levels\<close>. Floats are rational numbers; the conversion of an integer
  to a \<open>float\<close> and a quotient are rounded (\<open>float_div\<close>).
\<close>

section \<open>State\<close>

definition MAX_NUM_AWM :: nat where
  "MAX_NUM_AWM = 255"

record ResourceConstraint =
  rc_lower :: u64
  rc_upper :: u64

datatype BoundType = BT_LOWER_BOUND | BT_UPPER_BOUND

type_synonym ConstrMap = "(ResourcePath \<times> ResourceConstraint) list"

definition ResourceConstraint_new :: ResourceConstraint where
  "ResourceConstraint_new = \<lparr>rc_lower = 0, rc_upper = - 1\<rparr>"

definition same_path :: "ResourcePath \<Rightarrow> ResourcePath \<Rightarrow> bool" where
  "same_path p q \<longleftrightarrow> Path_ToString p = Path_ToString q"

definition cm_find :: "ResourcePath \<Rightarrow> ConstrMap \<Rightarrow> ResourceConstraint option" where
  "cm_find p m = map_option snd (find (\<lambda>e. same_path p (fst e)) m)"

fun cm_update :: "ResourcePath \<Rightarrow> (ResourceConstraint \<Rightarrow> ResourceConstraint) \<Rightarrow> ConstrMap \<Rightarrow> ConstrMap" where
  "cm_update p f [] = []"
| "cm_update p f ((q, c) # m) = (if same_path p q then (q, f c) # m else (q, c) # cm_update p f m)"

definition cm_emplace :: "ResourcePath \<Rightarrow> ResourceConstraint \<Rightarrow> ConstrMap \<Rightarrow> ConstrMap" where
  "cm_emplace p c m = (case cm_find p m of None \<Rightarrow> m @ [(p, c)] | Some _ \<Rightarrow> m)"

definition cm_erase :: "ResourcePath \<Rightarrow> ConstrMap \<Rightarrow> ConstrMap" where
  "cm_erase p m = filter (\<lambda>e. \<not> same_path p (fst e)) m"

record AwmNormalInfo =
  ni_max :: u32
  ni_min :: u32
  ni_delta :: u32

record Recipe =
  pathname :: string
  rcp_priority :: u8
  last_awm_id :: u8
  working_modes :: "WorkingMode option list"
  constraints :: ConstrMap
  values_info :: AwmNormalInfo
  config_times :: AwmNormalInfo

definition normal_info_init :: AwmNormalInfo where
  "normal_info_init = \<lparr>ni_max = 0, ni_min = 255, ni_delta = 0\<rparr>"

definition Recipe_new :: "u16 \<Rightarrow> string \<Rightarrow> Recipe" where
  "Recipe_new levels name =
     \<lparr>pathname = name, rcp_priority = ucast (levels - 1), last_awm_id = 0,
      working_modes = replicate MAX_NUM_AWM None, constraints = [],
      values_info = normal_info_init, config_times = normal_info_init\<rparr>"

section \<open>Operations\<close>

definition Recipe_SetPriority :: "u8 \<Rightarrow> Recipe \<Rightarrow> Recipe" where
  "Recipe_SetPriority prio rcp = rcp\<lparr>rcp_priority := prio\<rparr>"

text \<open>The number is narrowed from \<open>uint8_t\<close> to the \<open>int8_t\<close> of the working mode.\<close>

definition AddWorkingMode :: "u8 \<Rightarrow> string \<Rightarrow> u8 \<Rightarrow> Recipe \<Rightarrow> fault + bool \<times> Recipe" where
  "AddWorkingMode i name value rcp =
     (if i \<noteq> last_awm_id rcp then Inr (False, rcp)
      else if unat i < length (working_modes rcp)
      then Inr (True, rcp\<lparr>working_modes := (working_modes rcp)[unat i :=
                   Some (WorkingMode_new (sint i) name (of_nat (unat value)) None)],
                 last_awm_id := last_awm_id rcp + 1\<rparr>)
      else Inl OutOfRange)"

definition Recipe_GetWorkingMode :: "u8 \<Rightarrow> Recipe \<Rightarrow> fault + WorkingMode option" where
  "Recipe_GetWorkingMode i rcp =
     (if last_awm_id rcp = 0 then Inr None
      else if unat i < length (working_modes rcp) then Inr (working_modes rcp ! unat i)
      else Inl OutOfRange)"

definition AddConstraint :: "int \<Rightarrow> string \<Rightarrow> u64 \<Rightarrow> u64 \<Rightarrow> ResourceAccounter \<Rightarrow> Recipe \<Rightarrow> Recipe \<times> ResourceAccounter" where
  "AddConstraint mx rsrc_path lb ub ra rcp =
     (case GetPath mx rsrc_path ra of
        (None, ra') \<Rightarrow> (rcp, ra')
      | (Some p, ra') \<Rightarrow>
          (rcp\<lparr>constraints :=
             (case cm_find p (constraints rcp) of
                Some _ \<Rightarrow> cm_update p (\<lambda>c. \<lparr>rc_lower = max (rc_lower c) lb, rc_upper = max (rc_upper c) ub\<rparr>)
                            (constraints rcp)
              | None \<Rightarrow> cm_emplace p \<lparr>rc_lower = lb, rc_upper = ub\<rparr> (constraints rcp))\<rparr>, ra'))"

definition UpdateNormalInfo :: "u32 \<Rightarrow> AwmNormalInfo \<Rightarrow> AwmNormalInfo" where
  "UpdateNormalInfo last_value info =
     (let mx = (if last_value > ni_max info then last_value else ni_max info);
          mn = (if last_value < ni_min info then last_value else ni_min info)
      in \<lparr>ni_max = mx, ni_min = mn, ni_delta = mx - mn\<rparr>)"

fun validate_awms :: "ResourceAccounter \<Rightarrow> WorkingMode option list \<Rightarrow> AwmNormalInfo \<Rightarrow> AwmNormalInfo \<Rightarrow>
    fault + WorkingMode option list \<times> AwmNormalInfo \<times> AwmNormalInfo" where
  "validate_awms ra [] vals ctimes = Inr ([], vals, ctimes)"
| "validate_awms ra (None # wms) vals ctimes = Inl NullDeref"
| "validate_awms ra (Some wm # wms) vals ctimes =
     (let wm' = snd (Validate ra wm);
          (vals', ctimes') =
            (if wm_hidden wm' then (vals, ctimes)
             else (UpdateNormalInfo (value_recipe wm') vals, UpdateNormalInfo (config_recipe wm') ctimes))
      in seq_fault (validate_awms ra wms vals' ctimes') (\<lambda>(wms', v, t). Inr (Some wm' # wms', v, t)))"

definition NormalizeValue :: "nat \<Rightarrow> AwmNormalInfo \<Rightarrow> WorkingMode \<Rightarrow> WorkingMode" where
  "NormalizeValue num vals wm =
     SetNormalValue
       (if ni_delta vals > 0 then float_div (unat (value_recipe wm)) (unat (ni_max vals))
        else if num = 1 then 1 else 0) wm"

definition NormalizeConfigTime :: "AwmNormalInfo \<Rightarrow> WorkingMode \<Rightarrow> WorkingMode" where
  "NormalizeConfigTime ctimes wm =
     SetNormalConfigTime
       (if ni_delta ctimes > 0
        then float_div (unat (config_recipe wm - ni_min ctimes)) (unat (ni_delta ctimes))
        else 0) wm"

fun Normalize :: "nat \<Rightarrow> AwmNormalInfo \<Rightarrow> AwmNormalInfo \<Rightarrow> WorkingMode option list \<Rightarrow> fault + WorkingMode option list" where
  "Normalize num vals ctimes [] = Inr []"
| "Normalize num vals ctimes (None # wms) = Inl NullDeref"
| "Normalize num vals ctimes (Some wm # wms) =
     seq_fault (Normalize num vals ctimes wms) (\<lambda>wms'.
       Inr (Some (if wm_hidden wm then wm else NormalizeConfigTime ctimes (NormalizeValue num vals wm)) # wms'))"

definition Recipe_Validate :: "ResourceAccounter \<Rightarrow> Recipe \<Rightarrow> fault + Recipe" where
  "Recipe_Validate ra rcp =
     (let n = unat (last_awm_id rcp);
          wms = take n (working_modes rcp) @ replicate (n - length (working_modes rcp)) None
      in seq_fault (validate_awms ra wms (values_info rcp) (config_times rcp)) (\<lambda>(wms1, vals, ctimes).
           seq_fault (Normalize (length wms1) vals ctimes wms1) (\<lambda>wms2.
             Inr (rcp\<lparr>working_modes := wms2, values_info := vals, config_times := ctimes\<rparr>))))"


section \<open>Normalisation\<close>

lemma normal_fields [simp]:
  "wm_hidden (NormalizeValue num vals wm) = wm_hidden wm" "wm_hidden (NormalizeConfigTime ct wm) = wm_hidden wm"
  "value_recipe (NormalizeValue num vals wm) = value_recipe wm" "value_recipe (NormalizeConfigTime ct wm) = value_recipe wm"
  "config_recipe (NormalizeValue num vals wm) = config_recipe wm" "config_recipe (NormalizeConfigTime ct wm) = config_recipe wm"
  "value_normal (NormalizeConfigTime ct wm) = value_normal wm"
  by (simp_all add: NormalizeValue_def NormalizeConfigTime_def SetNormalValue_def SetNormalConfigTime_def)

definition normalized :: "nat \<Rightarrow> AwmNormalInfo \<Rightarrow> AwmNormalInfo \<Rightarrow> WorkingMode \<Rightarrow> WorkingMode" where
  "normalized num vals ctimes wm =
     (if wm_hidden wm then wm else NormalizeConfigTime ctimes (NormalizeValue num vals wm))"

lemma Normalize_map:
  "Normalize num vals ctimes wms = Inr r \<Longrightarrow> r = map (map_option (normalized num vals ctimes)) wms"
  by (induction num vals ctimes wms arbitrary: r rule: Normalize.induct)
    (auto simp: normalized_def elim!: seq_fault_InrE)

definition info_covers :: "AwmNormalInfo \<Rightarrow> u32 \<Rightarrow> bool" where
  "info_covers info v \<longleftrightarrow> ni_min info \<le> v \<and> v \<le> ni_max info \<and> ni_delta info = ni_max info - ni_min info"

lemma UpdateNormalInfo_covers:
  "info_covers (UpdateNormalInfo v info) v"
  "info_covers info w \<Longrightarrow> info_covers (UpdateNormalInfo v info) w"
  by (auto simp: info_covers_def UpdateNormalInfo_def Let_def)

lemma validate_awms_covers:
  assumes "validate_awms ra wms vals ctimes = Inr (wms', vals', ctimes')"
  shows "(\<forall>v. info_covers vals v \<longrightarrow> info_covers vals' v) \<and> (\<forall>v. info_covers ctimes v \<longrightarrow> info_covers ctimes' v) \<and>
    (\<forall>a. Some a \<in> set wms' \<longrightarrow> \<not> wm_hidden a \<longrightarrow>
       info_covers vals' (value_recipe a) \<and> info_covers ctimes' (config_recipe a))"
  using assms
proof (induction ra wms vals ctimes arbitrary: wms' rule: validate_awms.induct)
  case (3 ra wm wms vals ctimes)
  let ?wm = "snd (Validate ra wm)"
  show ?case
  proof (cases "wm_hidden ?wm")
    case True
    then show ?thesis using 3 by (auto simp: Let_def elim!: seq_fault_InrE)
  next
    case False
    let ?v = "UpdateNormalInfo (value_recipe ?wm) vals" and ?c = "UpdateNormalInfo (config_recipe ?wm) ctimes"
    obtain ws where rec: "validate_awms ra wms ?v ?c = Inr (ws, vals', ctimes')" and w: "wms' = Some ?wm # ws"
      using False "3.prems" by (auto simp: Let_def elim!: seq_fault_InrE)
    show ?thesis
      using "3.IH" [of ?wm "(?v, ?c)" ?v ?c ws] rec False
        UpdateNormalInfo_covers [where v = "value_recipe ?wm" and info = vals]
        UpdateNormalInfo_covers [where v = "config_recipe ?wm" and info = ctimes]
      unfolding w by auto
  qed
qed simp_all

text \<open>The quotients the two normalisations store.\<close>

lemma nat_quotient:
  assumes "a \<le> d"
  shows "0 \<le> float_div a d \<and> float_div a d \<le> 1 \<and> (a \<le> b \<longrightarrow> float_div a d \<le> float_div b d) \<and>
    (a < b \<longrightarrow> b \<le> d \<longrightarrow> d < 2 ^ 24 \<longrightarrow> float_div a d < float_div b d)"
  using assms by (simp add: float_div_bounds float_div_mono float_div_strict)

lemma covers_delta:
  fixes v :: u32
  assumes "info_covers info v"
  shows "unat v \<le> unat (ni_max info)" "unat (ni_min info) \<le> unat v"
    "unat (ni_delta info) = unat (ni_max info) - unat (ni_min info)"
    "unat (v - ni_min info) = unat v - unat (ni_min info)"
  using assms by (simp_all add: info_covers_def unat_sub word_le_nat_alt)

lemma set_normal:
  assumes "0 \<le> q" "q \<le> 1"
  shows "value_normal (SetNormalValue q wm) = q" "config_normal (SetNormalConfigTime q wm) = q"
  using assms by (auto simp: SetNormalValue_def SetNormalConfigTime_def)

lemma normal_value:
  assumes "info_covers vals (value_recipe a)" "info_covers vals (value_recipe b)"
  shows "0 \<le> value_normal (NormalizeValue num vals a) \<and> value_normal (NormalizeValue num vals a) \<le> 1 \<and>
    (value_recipe a \<le> value_recipe b \<longrightarrow>
       value_normal (NormalizeValue num vals a) \<le> value_normal (NormalizeValue num vals b)) \<and>
    (value_recipe a < value_recipe b \<longrightarrow> ni_max vals < 2 ^ 24 \<longrightarrow>
       value_normal (NormalizeValue num vals a) < value_normal (NormalizeValue num vals b))"
proof (cases "ni_delta vals > 0")
  case True
  note le = covers_delta(1) [OF assms(1)] covers_delta(1) [OF assms(2)]
  have n: "value_normal (NormalizeValue num vals c) = float_div (unat (value_recipe c)) (unat (ni_max vals))"
    if "unat (value_recipe c) \<le> unat (ni_max vals)" for c
    unfolding NormalizeValue_def if_P [OF True] using float_div_bounds [OF that] by (rule set_normal)
  show ?thesis
    using nat_quotient [OF le(1), of "unat (value_recipe b)"] le(2) unfolding n [OF le(1)] n [OF le(2)]
    by (simp add: word_less_nat_alt word_le_nat_alt)
next
  case False
  then have "unat (ni_max vals) = unat (ni_min vals)"
    using covers_delta [OF assms(1)] by (simp add: word_less_nat_alt)
  then have "\<not> value_recipe a < value_recipe b"
    using covers_delta(1,2) [OF assms(1)] covers_delta(1,2) [OF assms(2)] by (simp add: word_less_nat_alt)
  then show ?thesis using False by (simp add: NormalizeValue_def SetNormalValue_def)
qed

lemma normal_config_time:
  assumes "info_covers ct (config_recipe a)" "info_covers ct (config_recipe b)"
  shows "0 \<le> config_normal (NormalizeConfigTime ct a) \<and> config_normal (NormalizeConfigTime ct a) \<le> 1 \<and>
    (config_recipe a \<le> config_recipe b \<longrightarrow>
       config_normal (NormalizeConfigTime ct a) \<le> config_normal (NormalizeConfigTime ct b)) \<and>
    (config_recipe a < config_recipe b \<longrightarrow> ni_delta ct < 2 ^ 24 \<longrightarrow>
       config_normal (NormalizeConfigTime ct a) < config_normal (NormalizeConfigTime ct b))"
proof (cases "ni_delta ct > 0")
  case True
  have le: "unat (config_recipe a - ni_min ct) \<le> unat (ni_delta ct)" "unat (config_recipe b - ni_min ct) \<le> unat (ni_delta ct)"
    using covers_delta [OF assms(1)] covers_delta [OF assms(2)] by simp_all
  have ord: "unat (config_recipe a - ni_min ct) < unat (config_recipe b - ni_min ct)" if "config_recipe a < config_recipe b"
    using that covers_delta [OF assms(1)] covers_delta [OF assms(2)] by (simp add: word_less_nat_alt)
  have ord': "unat (config_recipe a - ni_min ct) \<le> unat (config_recipe b - ni_min ct)" if "config_recipe a \<le> config_recipe b"
    using that covers_delta [OF assms(1)] covers_delta [OF assms(2)] by (simp add: word_le_nat_alt)
  have n: "config_normal (NormalizeConfigTime ct c) = float_div (unat (config_recipe c - ni_min ct)) (unat (ni_delta ct))"
    if "unat (config_recipe c - ni_min ct) \<le> unat (ni_delta ct)" for c
    unfolding NormalizeConfigTime_def if_P [OF True] using float_div_bounds [OF that] by (rule set_normal)
  show ?thesis
    using nat_quotient [OF le(1), of "unat (config_recipe b - ni_min ct)"] le(2) ord ord' unfolding n [OF le(1)] n [OF le(2)]
    by (auto simp: word_less_nat_alt)
next
  case False
  then have "unat (ni_max ct) = unat (ni_min ct)"
    using covers_delta [OF assms(1)] by (simp add: word_less_nat_alt)
  then have "\<not> config_recipe a < config_recipe b"
    using covers_delta(1,2) [OF assms(1)] covers_delta(1,2) [OF assms(2)] by (simp add: word_less_nat_alt)
  then show ?thesis using False by (simp add: NormalizeConfigTime_def SetNormalConfigTime_def)
qed

lemma Recipe_Validate_modes:
  assumes "Recipe_Validate ra rcp = Inr rcp'" "Some a \<in> set (working_modes rcp')" "\<not> wm_hidden a"
  obtains a0 where "\<not> wm_hidden a0"
    "a = NormalizeConfigTime (config_times rcp') (NormalizeValue (length (working_modes rcp')) (values_info rcp') a0)"
    "info_covers (values_info rcp') (value_recipe a0)" "info_covers (config_times rcp') (config_recipe a0)"
proof -
  obtain wms wms1 vals ct where v: "validate_awms ra wms (values_info rcp) (config_times rcp) = Inr (wms1, vals, ct)"
    and n: "Normalize (length wms1) vals ct wms1 = Inr (working_modes rcp')"
    and f: "values_info rcp' = vals" "config_times rcp' = ct"
    using assms(1) by (auto simp: Recipe_Validate_def Let_def elim!: seq_fault_InrE)
  have m: "working_modes rcp' = map (map_option (normalized (length wms1) vals ct)) wms1" by (rule Normalize_map [OF n])
  then obtain a0 where a0: "Some a0 \<in> set wms1" "a = normalized (length wms1) vals ct a0" using assms(2)
    by (force dest: sym [of "Some a"] simp: map_option_eq_Some)
  then have "\<not> wm_hidden a0" using assms(3) by (auto simp: normalized_def split: if_splits)
  with a0 validate_awms_covers [OF v] show ?thesis using that m f by (auto simp: normalized_def)
qed

text \<open>C36: validating a recipe normalises its working modes, in the single precision of the code. The
  value and the configuration time of every working mode that is not hidden get a normalised
  value between 0 and 1, and a mode with a larger value, or a larger time, in the recipe does not
  get a smaller one. It gets a larger one when the largest value, or the range of the times, has
  at most 24 bits, as many as a \<open>float\<close> keeps.\<close>

theorem recipe_normalisation_monotone:
  assumes "Recipe_Validate ra rcp = Inr rcp'"
    "Some a \<in> set (working_modes rcp')" "\<not> wm_hidden a" "Some b \<in> set (working_modes rcp')" "\<not> wm_hidden b"
  shows "0 \<le> value_normal a \<and> value_normal a \<le> 1 \<and> 0 \<le> config_normal a \<and> config_normal a \<le> 1 \<and>
    (value_recipe a \<le> value_recipe b \<longrightarrow> value_normal a \<le> value_normal b) \<and>
    (value_recipe a < value_recipe b \<longrightarrow> ni_max (values_info rcp') < 2 ^ 24 \<longrightarrow> value_normal a < value_normal b) \<and>
    (config_recipe a \<le> config_recipe b \<longrightarrow> config_normal a \<le> config_normal b) \<and>
    (config_recipe a < config_recipe b \<longrightarrow> ni_delta (config_times rcp') < 2 ^ 24 \<longrightarrow> config_normal a < config_normal b)"
proof -
  obtain a0 where a: "a = NormalizeConfigTime (config_times rcp') (NormalizeValue (length (working_modes rcp')) (values_info rcp') a0)"
    "info_covers (values_info rcp') (value_recipe a0)" "info_covers (config_times rcp') (config_recipe a0)"
    using Recipe_Validate_modes [OF assms(1-3)] by blast
  obtain b0 where b: "b = NormalizeConfigTime (config_times rcp') (NormalizeValue (length (working_modes rcp')) (values_info rcp') b0)"
    "info_covers (values_info rcp') (value_recipe b0)" "info_covers (config_times rcp') (config_recipe b0)"
    using Recipe_Validate_modes [OF assms(1,4,5)] by blast
  note V = normal_value [OF a(2) b(2)]
  let ?n = "NormalizeValue (length (working_modes rcp')) (values_info rcp')"
  have C: "info_covers (config_times rcp') (config_recipe (?n a0))" "info_covers (config_times rcp') (config_recipe (?n b0))"
    using a(3) b(3) by simp_all
  show ?thesis using V normal_config_time [OF C] unfolding a(1) b(1) by simp
qed

definition recipe_two :: Recipe where
  "recipe_two = (Recipe_new 5 ''demo'')\<lparr>last_awm_id := 2,
     working_modes := [Some (WorkingMode_new 0 ''low'' 30 None), Some (WorkingMode_new 1 ''high'' 120 None)]\<rparr>"

lemma float_div_two [simp]: "float_div 30 120 = 1 / 4" "float_div 120 120 = 1"
  by code_simp+

lemma recipe_two_validated:
  "Recipe_Validate ra recipe_two = Inr (recipe_two\<lparr>
     working_modes := [Some ((WorkingMode_new 0 ''low'' 30 None)\<lparr>value_normal := 1 / 4, config_normal := 0\<rparr>),
                       Some ((WorkingMode_new 1 ''high'' 120 None)\<lparr>value_normal := 1, config_normal := 0\<rparr>)],
     values_info := \<lparr>ni_max = 120, ni_min = 30, ni_delta = 90\<rparr>,
     config_times := \<lparr>ni_max = 0, ni_min = 0, ni_delta = 0\<rparr>\<rparr>)"
  by (simp add: recipe_two_def Recipe_new_def Recipe_Validate_def Validate_def WorkingMode_new_def normal_info_init_def
      UpdateNormalInfo_def float_to_u32_def NormalizeValue_def NormalizeConfigTime_def SetNormalValue_def
      SetNormalConfigTime_def)

theorem recipe_normalisation_monotone_witness:
  "\<exists>rcp a b. Recipe_Validate ra0 recipe_two = Inr rcp \<and> Some a \<in> set (working_modes rcp) \<and> Some b \<in> set (working_modes rcp) \<and>
     value_recipe a < value_recipe b \<and> value_normal a < value_normal b"
proof -
  let ?a = "(WorkingMode_new 0 ''low'' 30 None)\<lparr>value_normal := 1 / 4, config_normal := 0\<rparr>"
  let ?b = "(WorkingMode_new 1 ''high'' 120 None)\<lparr>value_normal := 1, config_normal := 0\<rparr>"
  have "value_recipe ?a < value_recipe ?b" "\<not> wm_hidden ?a" "\<not> wm_hidden ?b"
    by (simp_all add: WorkingMode_new_def float_to_u32_def)
  then show ?thesis
    using recipe_normalisation_monotone [OF recipe_two_validated [of ra0], of ?a ?b] recipe_two_validated [of ra0]
    by (intro exI [of _ ?a] exI [of _ ?b] exI conjI) auto
qed

end
