(* ===== verification/Application.thy ===== *)
theory Application
  imports Recipe
begin

text \<open>
  \<open>Application\<close> (\<^verbatim>\<open>include/bbque/app/application.h\<close>, \<^verbatim>\<open>bbque/app/application.cc\<close>), an execution context
  (EXC): its working modes, the constraints that enable and disable them, the resource
  constraints, and its synchronisation.

  The record extends \<open>Schedulable\<close>. The bitset of enabled working modes is a list of
  \<open>MAX_NUM_AWM\<close> truth values, whose \<open>test\<close>, \<open>set\<close> and \<open>reset\<close> throw beyond its end. Members that
  the constructor leaves unset are 0 here; \<open>SetPriority\<close> and \<open>SetRecipe\<close> write them before they
  are read. The task graph, which is exchanged through files and semaphores, is left out.
\<close>

section \<open>State\<close>

datatype Lang = RTLIB_LANG_UNDEF | RTLIB_LANG_C | RTLIB_LANG_CPP | RTLIB_LANG_OPENCL

record GapHistory =
  upper_cpu :: int
  upper_gap :: int
  upper_age :: int
  lower_cpu :: int
  lower_gap :: int
  lower_age :: int

record AppProfile =
  ap_is_valid :: bool
  ggap_percent :: int
  ggap_percent_prev :: int
  ggap_percent_prediction :: int
  gap_history :: GapHistory
  cpu_usage :: int
  cpu_usage_prev :: int
  ctime_ms :: int
  cpu_usage_prediction :: int
  cpu_usage_prediction_old :: int

definition AppProfile_new :: AppProfile where
  "AppProfile_new =
     \<lparr>ap_is_valid = False, ggap_percent = 0, ggap_percent_prev = 0, ggap_percent_prediction = 0,
      gap_history = \<lparr>upper_cpu = - 1, upper_gap = - 1, upper_age = - 1, lower_cpu = - 1, lower_gap = - 1, lower_age = - 1\<rparr>,
      cpu_usage = 0, cpu_usage_prev = 0, ctime_ms = 0, cpu_usage_prediction = 0, cpu_usage_prediction_old = 0\<rparr>"

datatype ConstraintOperation = CONSTRAINT_REMOVE | CONSTRAINT_ADD

datatype ConstraintType = LOWER_BOUND | UPPER_BOUND | EXACT_VALUE

record RTLIB_Constraint =
  c_awm :: u8
  c_operation :: ConstraintOperation
  c_type :: ConstraintType

datatype UsageStatType = RU_STAT_MIN | RU_STAT_AVG | RU_STAT_MAX

record Application = Schedulable +
  exc_id :: u8
  language :: Lang
  container :: bool
  app_prof :: AppProfile
  app_recipe :: "Recipe option"
  awm_alloc :: awmptr
  recipe_vect :: "awmptr option list"
  enabled_list :: "awmptr list"
  enabled_bset :: "bool list"
  low_id :: u8
  upp_id :: u8
  max_id :: u8
  curr_inv :: bool
  rsrc_constraints :: ConstrMap

definition Application_new :: "string \<Rightarrow> u32 \<Rightarrow> u8 \<Rightarrow> Lang \<Rightarrow> bool \<Rightarrow> Application" where
  "Application_new name pid eid lang cont =
     \<lparr>sch_name = name, sch_pid = pid, sch_priority = 0, sch_type = ADAPTIVE, sch_state = NEW,
      preSyncState = NEW, syncState = SYNC_NONE, awm = None, next_awm = None, sch_count = 0, remote = False,
      sch_value = 0, awm_objs = (\<lambda>_. WorkingMode_new 0 [] 0 None),
      exc_id = eid, language = lang, container = cont, app_prof = AppProfile_new, app_recipe = None, awm_alloc = 0,
      recipe_vect = replicate MAX_NUM_AWM None, enabled_list = [], enabled_bset = replicate MAX_NUM_AWM False,
      low_id = 0, upp_id = 0, max_id = 0, curr_inv = False, rsrc_constraints = []\<rparr>"

definition BBQUE_UID_SHIFT :: nat where
  "BBQUE_UID_SHIFT = 5"

definition Uid_of :: "u32 \<Rightarrow> u8 \<Rightarrow> AppUid" where
  "Uid_of pid eid = push_bit BBQUE_UID_SHIFT pid + ucast eid"

definition Uid :: "Application \<Rightarrow> AppUid" where
  "Uid s = Uid_of (sch_pid s) (exc_id s)"

definition SetPriority :: "u16 \<Rightarrow> u16 \<Rightarrow> Application \<Rightarrow> Application" where
  "SetPriority levels prio s = s\<lparr>sch_priority := min prio (levels - 1)\<rparr>"

definition GetRuntimeProfile :: "bool \<Rightarrow> Application \<Rightarrow> AppProfile \<times> Application" where
  "GetRuntimeProfile mark_acknowledged s =
     (let p = (if mark_acknowledged then (app_prof s)\<lparr>ap_is_valid := False\<rparr> else app_prof s)
      in (p, s\<lparr>app_prof := p\<rparr>))"

definition SetRuntimeProfile :: "AppProfile \<Rightarrow> Application \<Rightarrow> Application" where
  "SetRuntimeProfile p s = s\<lparr>app_prof := p\<rparr>"

definition SetAllocationInfo :: "int \<Rightarrow> int \<Rightarrow> Application \<Rightarrow> Application" where
  "SetAllocationInfo prediction goal_gap_prediction s =
     s\<lparr>app_prof := (app_prof s)\<lparr>cpu_usage_prediction_old := cpu_usage_prediction (app_prof s),
         cpu_usage_prediction := prediction, ggap_percent_prediction := goal_gap_prediction\<rparr>\<rparr>"

section \<open>Bitsets\<close>

definition bset_test :: "int \<Rightarrow> bool list \<Rightarrow> fault + bool" where
  "bset_test i b = (if 0 \<le> i \<and> i < int (length b) then Inr (b ! nat i) else Inl OutOfRange)"

definition bset_put :: "nat \<Rightarrow> bool \<Rightarrow> bool list \<Rightarrow> fault + bool list" where
  "bset_put i v b = (if i < length b then Inr (b[i := v]) else Inl OutOfRange)"

fun bset_puts :: "(nat \<Rightarrow> bool) \<Rightarrow> nat list \<Rightarrow> bool list \<Rightarrow> fault + bool list" where
  "bset_puts f [] b = Inr b"
| "bset_puts f (i # is) b = seq_fault (bset_put i (f i) b) (bset_puts f is)"

section \<open>Resource constraints\<close>

definition out_of_bounds :: "ConstrMap \<Rightarrow> ResourcePath \<times> ResourceAssignment \<Rightarrow> bool" where
  "out_of_bounds cm r =
     (case cm_find (fst r) cm of
        None \<Rightarrow> False
      | Some c \<Rightarrow> ra_amount (snd r) < rc_lower c \<or> ra_amount (snd r) > rc_upper c)"

definition UsageOutOfBounds :: "awmptr \<Rightarrow> Application \<Rightarrow> bool" where
  "UsageOutOfBounds w s \<longleftrightarrow> list_ex (out_of_bounds (rsrc_constraints s)) (requested (awm_objs s w))"

definition sort_by_value :: "Application \<Rightarrow> Application" where
  "sort_by_value s = s\<lparr>enabled_list := sort_key (\<lambda>w. value_normal (awm_objs s w)) (enabled_list s)\<rparr>"

definition FinalizeEnabledWorkingModes :: "Application \<Rightarrow> fault + Application" where
  "FinalizeEnabledWorkingModes s =
     (case awm s of
        None \<Rightarrow> Inr (sort_by_value s)
      | Some w \<Rightarrow>
          seq_fault (bset_test (wm_id (awm_objs s w)) (enabled_bset s)) (\<lambda>b.
            Inr (sort_by_value (if b then s else s\<lparr>curr_inv := True\<rparr>))))"

definition UpdateEnabledWorkingModes :: "Application \<Rightarrow> fault + Application" where
  "UpdateEnabledWorkingModes s =
     FinalizeEnabledWorkingModes (s\<lparr>enabled_list := filter (\<lambda>w. \<not> UsageOutOfBounds w s) (enabled_list s)\<rparr>)"

definition set_bound :: "BoundType \<Rightarrow> u64 \<Rightarrow> ResourceConstraint \<Rightarrow> ResourceConstraint" where
  "set_bound b_type value c =
     (case b_type of
        BT_LOWER_BOUND \<Rightarrow> \<lparr>rc_lower = value, rc_upper = (if rc_upper c < value then - 1 else rc_upper c)\<rparr>
      | BT_UPPER_BOUND \<Rightarrow> \<lparr>rc_lower = (if rc_lower c > value then 0 else rc_lower c), rc_upper = value\<rparr>)"

definition SetResourceConstraint :: "ResourcePath \<Rightarrow> BoundType \<Rightarrow> u64 \<Rightarrow> ResourceAccounter \<Rightarrow> Application \<Rightarrow>
    fault + AppExitCode \<times> Application" where
  "SetResourceConstraint p b_type value ra s =
     (if \<not> ExistResource_path p ra then Inr (APP_RSRC_NOT_FOUND, s)
      else
        let cm = cm_emplace p ResourceConstraint_new (rsrc_constraints s)
        in seq_fault (UpdateEnabledWorkingModes (s\<lparr>rsrc_constraints := cm_update p (set_bound b_type value) cm\<rparr>))
             (\<lambda>s'. Inr (APP_SUCCESS, s')))"

definition clear_bound :: "BoundType \<Rightarrow> ResourcePath \<Rightarrow> ResourceConstraint \<Rightarrow> ConstrMap \<Rightarrow> ConstrMap" where
  "clear_bound b_type p c cm =
     (case b_type of
        BT_LOWER_BOUND \<Rightarrow>
          if rc_upper c = - 1 then cm_erase p cm else cm_update p (\<lambda>c. c\<lparr>rc_lower := 0\<rparr>) cm
      | BT_UPPER_BOUND \<Rightarrow>
          if rc_lower c = 0 then cm_erase p cm else cm_update p (\<lambda>c. c\<lparr>rc_upper := - 1\<rparr>) cm)"

definition ClearResourceConstraint :: "ResourcePath \<Rightarrow> BoundType \<Rightarrow> Application \<Rightarrow> fault + AppExitCode \<times> Application" where
  "ClearResourceConstraint p b_type s =
     (case cm_find p (rsrc_constraints s) of
        None \<Rightarrow> Inr (APP_CONS_NOT_FOUND, s)
      | Some c \<Rightarrow>
          seq_fault (UpdateEnabledWorkingModes (s\<lparr>rsrc_constraints := clear_bound b_type p c (rsrc_constraints s)\<rparr>))
            (\<lambda>s'. Inr (APP_SUCCESS, s')))"

section \<open>Working modes\<close>

definition vect_put :: "int \<Rightarrow> awmptr \<Rightarrow> Application \<Rightarrow> fault + Application" where
  "vect_put i w s =
     (if 0 \<le> i \<and> i < int (length (recipe_vect s)) then Inr (s\<lparr>recipe_vect := (recipe_vect s)[nat i := Some w]\<rparr>)
      else Inl OutOfRange)"

fun InitWorkingModes_loop :: "AppUid \<Rightarrow> WorkingMode option list \<Rightarrow> nat list \<Rightarrow> Application \<Rightarrow> fault + Application" where
  "InitWorkingModes_loop papp recipe_awms [] s = Inr s"
| "InitWorkingModes_loop papp recipe_awms (i # is) s =
     (if i < length recipe_awms
      then case recipe_awms ! i of
             None \<Rightarrow> Inl NullDeref
           | Some wm \<Rightarrow>
               let w = awm_alloc s; app_awm = wm\<lparr>wm_owner := Some papp\<rparr>
               in seq_fault (vect_put (wm_id app_awm) w
                       (s\<lparr>awm_objs := (awm_objs s)(w := app_awm), awm_alloc := w + 1\<rparr>)) (\<lambda>s1.
                    InitWorkingModes_loop papp recipe_awms is
                      (if wm_hidden app_awm then s1 else s1\<lparr>enabled_list := enabled_list s1 @ [w]\<rparr>))
      else Inl OutOfRange)"

text \<open>Called with the recipe set.\<close>

definition InitWorkingModes :: "AppUid \<Rightarrow> Recipe \<Rightarrow> Application \<Rightarrow> fault + Application" where
  "InitWorkingModes papp rcp s =
     (let m = (word_of_int (int (length (working_modes rcp)) - 1) :: u8);
          s1 = s\<lparr>max_id := m, low_id := 0, upp_id := m, curr_inv := False,
                 enabled_bset := replicate (length (enabled_bset s)) True\<rparr>
      in seq_fault (InitWorkingModes_loop papp (working_modes rcp) [0..<unat m + 1] s1) (\<lambda>s2. Inr (sort_by_value s2)))"

fun InitResourceConstraints :: "ConstrMap \<Rightarrow> ResourceAccounter \<Rightarrow> Application \<Rightarrow> fault + Application" where
  "InitResourceConstraints [] ra s = Inr s"
| "InitResourceConstraints ((p, c) # cm) ra s =
     seq_fault (if rc_lower c > 0 then SetResourceConstraint p BT_LOWER_BOUND (rc_lower c) ra s else Inr (APP_SUCCESS, s))
       (\<lambda>(_, s1).
          seq_fault (if rc_upper c > 0 then SetResourceConstraint p BT_UPPER_BOUND (rc_upper c) ra s1 else Inr (APP_SUCCESS, s1))
            (\<lambda>(_, s2). InitResourceConstraints cm ra s2))"

definition SetRecipe :: "Recipe option \<Rightarrow> AppUid \<Rightarrow> ResourceAccounter \<Rightarrow> Application \<Rightarrow> fault + AppExitCode \<times> Application" where
  "SetRecipe rcp_ptr papp ra s =
     (case rcp_ptr of
        None \<Rightarrow> Inr (APP_RECP_NULL, s)
      | Some rcp \<Rightarrow>
          seq_fault (InitWorkingModes papp rcp (s\<lparr>app_recipe := Some rcp, sch_priority := ucast (rcp_priority rcp)\<rparr>)) (\<lambda>s1.
            seq_fault (InitResourceConstraints (constraints rcp) ra s1) (\<lambda>s2. Inr (APP_SUCCESS, s2))))"

definition GetWorkingMode :: "u8 \<Rightarrow> Application \<Rightarrow> awmptr option" where
  "GetWorkingMode i s = find (\<lambda>w. wm_id (awm_objs s w) = uint i) (enabled_list s)"

section \<open>Constraints on working modes\<close>

fun RebuildEnabled_loop :: "nat list \<Rightarrow> Application \<Rightarrow> fault + awmptr list" where
  "RebuildEnabled_loop [] s = Inr []"
| "RebuildEnabled_loop (j # js) s =
     seq_fault (bset_test (int j) (enabled_bset s)) (\<lambda>b.
       if \<not> b then RebuildEnabled_loop js s
       else if \<not> j < length (recipe_vect s) then Inl OutOfRange
       else case recipe_vect s ! j of
         None \<Rightarrow> Inl NullDeref
       | Some w \<Rightarrow>
           if UsageOutOfBounds w s \<or> wm_hidden (awm_objs s w) then RebuildEnabled_loop js s
           else seq_fault (RebuildEnabled_loop js s) (\<lambda>ws. Inr (w # ws)))"

definition RebuildEnabledWorkingModes :: "Application \<Rightarrow> fault + Application" where
  "RebuildEnabledWorkingModes s =
     seq_fault (RebuildEnabled_loop [0..<unat (max_id s) + 1] s) (\<lambda>ws.
       FinalizeEnabledWorkingModes (s\<lparr>enabled_list := ws\<rparr>))"

definition SetWorkingModesLowerBound :: "u8 \<Rightarrow> Application \<Rightarrow> fault + Application" where
  "SetWorkingModesLowerBound c s =
     (let hb = max c (low_id s)
      in seq_fault (bset_puts (\<lambda>i. \<not> i < unat c) (rev [0..<unat hb + 1]) (enabled_bset s)) (\<lambda>b.
           Inr (s\<lparr>enabled_bset := b, low_id := c\<rparr>)))"

definition SetWorkingModesUpperBound :: "u8 \<Rightarrow> Application \<Rightarrow> fault + Application" where
  "SetWorkingModesUpperBound c s =
     (let lb = min c (upp_id s)
      in seq_fault (bset_puts (\<lambda>i. \<not> i > unat c) [unat lb..<unat (max_id s) + 1] (enabled_bset s)) (\<lambda>b.
           Inr (s\<lparr>enabled_bset := b, upp_id := c\<rparr>)))"

definition AddWorkingModeConstraint :: "RTLIB_Constraint \<Rightarrow> Application \<Rightarrow> fault + AppExitCode \<times> Application" where
  "AddWorkingModeConstraint con s =
     (let c = c_awm con in
      case c_type con of
        LOWER_BOUND \<Rightarrow>
          if c = low_id s then Inr (APP_WM_ENAB_UNCHANGED, s)
          else seq_fault (SetWorkingModesLowerBound c (if c > upp_id s then s\<lparr>upp_id := max_id s\<rparr> else s)) (\<lambda>s'.
                 Inr (APP_WM_ENAB_CHANGED, s'))
      | UPPER_BOUND \<Rightarrow>
          if c = upp_id s then Inr (APP_WM_ENAB_UNCHANGED, s)
          else seq_fault (SetWorkingModesUpperBound c (if c < low_id s then s\<lparr>low_id := 0\<rparr> else s)) (\<lambda>s'.
                 Inr (APP_WM_ENAB_CHANGED, s'))
      | EXACT_VALUE \<Rightarrow>
          seq_fault (bset_test (uint c) (enabled_bset s)) (\<lambda>t.
            if t then Inr (APP_WM_ENAB_UNCHANGED, s)
            else seq_fault (bset_put (unat c) True (enabled_bset s)) (\<lambda>b.
                   Inr (APP_WM_ENAB_CHANGED, s\<lparr>enabled_bset := b\<rparr>))))"

definition ClearWorkingModesLowerBound :: "Application \<Rightarrow> fault + Application" where
  "ClearWorkingModesLowerBound s =
     seq_fault (bset_puts (\<lambda>_. True) (rev [0..<unat (low_id s)]) (enabled_bset s)) (\<lambda>b.
       Inr (s\<lparr>enabled_bset := b, low_id := 0\<rparr>))"

definition ClearWorkingModesUpperBound :: "Application \<Rightarrow> fault + Application" where
  "ClearWorkingModesUpperBound s =
     seq_fault (bset_puts (\<lambda>_. True) [unat (upp_id s) + 1..<unat (max_id s) + 1] (enabled_bset s)) (\<lambda>b.
       Inr (s\<lparr>enabled_bset := b, upp_id := max_id s\<rparr>))"

definition RemoveWorkingModeConstraint :: "RTLIB_Constraint \<Rightarrow> Application \<Rightarrow> fault + AppExitCode \<times> Application" where
  "RemoveWorkingModeConstraint con s =
     (case c_type con of
        LOWER_BOUND \<Rightarrow> seq_fault (ClearWorkingModesLowerBound s) (\<lambda>s'. Inr (APP_WM_ENAB_CHANGED, s'))
      | UPPER_BOUND \<Rightarrow> seq_fault (ClearWorkingModesUpperBound s) (\<lambda>s'. Inr (APP_WM_ENAB_CHANGED, s'))
      | EXACT_VALUE \<Rightarrow>
          seq_fault (bset_test (uint (c_awm con)) (enabled_bset s)) (\<lambda>t.
            if \<not> t then Inr (APP_WM_ENAB_UNCHANGED, s)
            else seq_fault (bset_put (unat (c_awm con)) False (enabled_bset s)) (\<lambda>b.
                   Inr (APP_WM_ENAB_CHANGED, s\<lparr>enabled_bset := b\<rparr>))))"

definition SetWorkingModeConstraint :: "RTLIB_Constraint \<Rightarrow> Application \<Rightarrow> fault + AppExitCode \<times> Application" where
  "SetWorkingModeConstraint con s =
     (if c_awm con > max_id s then Inr (APP_WM_NOT_FOUND, s)
      else seq_fault
             (case c_operation con of
                CONSTRAINT_REMOVE \<Rightarrow> RemoveWorkingModeConstraint con s
              | CONSTRAINT_ADD \<Rightarrow> AddWorkingModeConstraint con s)
             (\<lambda>(result, s1).
                if result = APP_WM_ENAB_UNCHANGED then Inr (APP_SUCCESS, s1)
                else seq_fault (RebuildEnabledWorkingModes s1) (\<lambda>s2. Inr (APP_SUCCESS, s2))))"

definition ClearWorkingModeConstraints :: "Application \<Rightarrow> fault + Application" where
  "ClearWorkingModeConstraints s = RebuildEnabledWorkingModes (s\<lparr>low_id := 0, upp_id := max_id s\<rparr>)"

section \<open>Statistics of the requests\<close>

fun request_stat :: "ResourcePath \<Rightarrow> AssignMap \<Rightarrow> u64 \<times> u64 \<times> u64 \<Rightarrow> fault + u64 \<times> u64 \<times> u64" where
  "request_stat key_path [] acc = Inr acc"
| "request_stat key_path ((p, a) # m) (min_val, max_val, tot) =
     seq_fault (Path_Compare key_path p) (\<lambda>c.
       if c = PATH_NOT_EQUAL then request_stat key_path m (min_val, max_val, tot)
       else request_stat key_path m
              (if ra_amount a < min_val then ra_amount a else min_val,
               if ra_amount a > max_val then ra_amount a else max_val, tot + ra_amount a))"

fun request_stats :: "ResourcePath \<Rightarrow> (awmptr \<Rightarrow> WorkingMode) \<Rightarrow> awmptr list \<Rightarrow> u64 \<times> u64 \<times> u64 \<Rightarrow> fault + u64 \<times> u64 \<times> u64" where
  "request_stats key_path objs [] acc = Inr acc"
| "request_stats key_path objs (w # ws) acc =
     seq_fault (request_stat key_path (requested (objs w)) acc) (request_stats key_path objs ws)"

definition GetResourceRequestStat :: "int \<Rightarrow> string \<Rightarrow> UsageStatType \<Rightarrow> Application \<Rightarrow> fault + u64" where
  "GetResourceRequestStat mx rsrc_path stats_type s =
     seq_fault (request_stats (ResourcePath_new mx rsrc_path) (awm_objs s) (enabled_list s) (- 1, 0, 0))
       (\<lambda>(min_val, max_val, tot).
          case stats_type of
            RU_STAT_MIN \<Rightarrow> Inr min_val
          | RU_STAT_AVG \<Rightarrow>
              if enabled_list s = [] then Inl DivByZero else Inr (tot div of_nat (length (enabled_list s)))
          | RU_STAT_MAX \<Rightarrow> Inr max_val)"

section \<open>Scheduling and synchronisation\<close>

text \<open>The log line at the end reads the number of the new working mode.\<close>

definition App_SetNextAWM :: "awmptr option \<Rightarrow> Application \<Rightarrow> fault + Application" where
  "App_SetNextAWM w s =
     (case w of None \<Rightarrow> Inl NullDeref | Some _ \<Rightarrow> Inr (s\<lparr>next_awm := w, curr_inv := False\<rparr>))"

definition reset_goal_gap :: "Application \<Rightarrow> fault + Application" where
  "reset_goal_gap s =
     (case awm s of
        None \<Rightarrow> Inr s
      | Some c \<Rightarrow>
          (case next_awm s of
             None \<Rightarrow> Inl NullDeref
           | Some n \<Rightarrow>
               Inr (if value_normal (awm_objs s c) < value_normal (awm_objs s n)
                    then s\<lparr>app_prof := (app_prof s)\<lparr>ggap_percent := 0\<rparr>\<rparr> else s)))"

definition App_SyncCommit :: "Application \<Rightarrow> fault + AppExitCode \<times> Application" where
  "App_SyncCommit s =
     (if sch_state s \<noteq> SYNC then Inr (APP_STATUS_NOT_EXP, s)
      else case syncState s of
        BLOCKED \<Rightarrow> seq_fault (Sched_SetState READY SYNC_NONE s) (\<lambda>(_, s'). Inr (APP_SUCCESS, s'))
      | DISABLED \<Rightarrow>
          seq_fault (Sched_SetState FINISHED SYNC_NONE s) (\<lambda>(_, s').
            Inr (APP_SUCCESS, s'\<lparr>awm := None, next_awm := None\<rparr>))
      | SYNC_NONE \<Rightarrow> Inr (APP_ABORT, s)
      | _ \<Rightarrow> seq_fault (reset_goal_gap s) (Sched_SetState RUNNING SYNC_NONE))"

definition App_SyncContinue :: "Application \<Rightarrow> fault + AppExitCode \<times> Application" where
  "App_SyncContinue s =
     (case awm s of
        None \<Rightarrow> Inl NullDeref
      | Some w \<Rightarrow>
          Inr (APP_SUCCESS, s\<lparr>next_awm := None, awm_objs := (awm_objs s)(w := IncSchedulingCount (awm_objs s w))\<rparr>))"


section \<open>The range of enabled working modes\<close>

lemma bset_puts_result:
  assumes "\<forall>i\<in>set is. i < length b"
  shows "\<exists>b'. bset_puts f is b = Inr b' \<and> length b' = length b \<and>
    (\<forall>k < length b. b' ! k = (if k \<in> set is then f k else b ! k))"
  using assms
proof (induction "is" arbitrary: b)
  case (Cons i "is")
  let ?b = "b[i := f i]"
  obtain b' where b': "bset_puts f is ?b = Inr b'" "length b' = length ?b"
    "\<forall>k < length ?b. b' ! k = (if k \<in> set is then f k else ?b ! k)"
    using Cons.IH [of ?b] Cons.prems by auto
  then show ?case using Cons.prems by (auto simp: bset_put_def nth_list_update)
qed simp

lemma bset_test_in [simp]: "k < length b \<Longrightarrow> bset_test (int k) b = Inr (b ! k)"
  by (simp add: bset_test_def)

text \<open>The bits of the working modes of the recipe are the interval between the two bounds.\<close>

definition range_ok :: "Application \<Rightarrow> bool" where
  "range_ok s \<longleftrightarrow>
     length (enabled_bset s) = MAX_NUM_AWM \<and> unat (max_id s) < MAX_NUM_AWM \<and> low_id s \<le> upp_id s \<and> upp_id s \<le> max_id s \<and>
     (\<forall>i \<le> unat (max_id s). enabled_bset s ! i \<longleftrightarrow> unat (low_id s) \<le> i \<and> i \<le> unat (upp_id s))"

text \<open>The vector holds the working modes of the recipe, numbered by their place.\<close>

definition vect_ok :: "Application \<Rightarrow> bool" where
  "vect_ok s \<longleftrightarrow>
     length (recipe_vect s) = MAX_NUM_AWM \<and> length (enabled_bset s) = MAX_NUM_AWM \<and> unat (max_id s) < MAX_NUM_AWM \<and>
     (\<forall>j \<le> unat (max_id s). recipe_vect s ! j \<noteq> None) \<and>
     (\<forall>w. awm s = Some w \<longrightarrow> 0 \<le> wm_id (awm_objs s w) \<and> wm_id (awm_objs s w) < int MAX_NUM_AWM)"

definition selectable :: "Application \<Rightarrow> awmptr set" where
  "selectable s =
     {w. \<exists>j \<le> unat (max_id s). enabled_bset s ! j \<and> recipe_vect s ! j = Some w \<and>
           \<not> UsageOutOfBounds w s \<and> \<not> wm_hidden (awm_objs s w)}"

definition enabled_exact :: "Application \<Rightarrow> bool" where
  "enabled_exact s \<longleftrightarrow> set (enabled_list s) = selectable s \<and> sorted (map (\<lambda>w. value_normal (awm_objs s w)) (enabled_list s))"

lemma sort_by_value_fields [simp]:
  "range_ok (sort_by_value s) = range_ok s" "vect_ok (sort_by_value s) = vect_ok s"
  "selectable (sort_by_value s) = selectable s" "set (enabled_list (sort_by_value s)) = set (enabled_list s)"
  "awm_objs (sort_by_value s) = awm_objs s" "low_id (sort_by_value s) = low_id s" "upp_id (sort_by_value s) = upp_id s"
  "max_id (sort_by_value s) = max_id s" "enabled_bset (sort_by_value s) = enabled_bset s"
  "rsrc_constraints (sort_by_value s) = rsrc_constraints s"
  "UsageOutOfBounds w (sort_by_value s) = UsageOutOfBounds w s"
  "sorted (map (\<lambda>w. value_normal (awm_objs s w)) (enabled_list (sort_by_value s)))"
  by (simp_all add: sort_by_value_def range_ok_def vect_ok_def selectable_def UsageOutOfBounds_def)

lemma Finalize_result:
  assumes "FinalizeEnabledWorkingModes s = Inr s'"
  obtains i where "s' = sort_by_value (s\<lparr>curr_inv := i\<rparr>)"
proof (cases "awm s")
  case None
  then have "s' = sort_by_value (s\<lparr>curr_inv := curr_inv s\<rparr>)" using assms by (simp add: FinalizeEnabledWorkingModes_def)
  then show ?thesis by (rule that)
next
  case (Some w)
  obtain b where "s' = sort_by_value (if b then s else s\<lparr>curr_inv := True\<rparr>)"
    using assms Some by (auto simp: FinalizeEnabledWorkingModes_def elim!: seq_fault_InrE)
  then have "s' = sort_by_value (s\<lparr>curr_inv := (\<not> b \<or> curr_inv s)\<rparr>)" by (cases b) simp_all
  then show ?thesis by (rule that)
qed

lemma Finalize_succeeds:
  assumes "vect_ok s"
  shows "\<exists>s'. FinalizeEnabledWorkingModes s = Inr s'"
  using assms by (auto simp: FinalizeEnabledWorkingModes_def vect_ok_def bset_test_def split: option.splits)

lemma Rebuild_loop_result:
  assumes "vect_ok s" "\<forall>j\<in>set js. j \<le> unat (max_id s)"
  shows "\<exists>ws. RebuildEnabled_loop js s = Inr ws \<and>
    set ws = {w. \<exists>j\<in>set js. enabled_bset s ! j \<and> recipe_vect s ! j = Some w \<and>
                  \<not> UsageOutOfBounds w s \<and> \<not> wm_hidden (awm_objs s w)}"
  using assms(2)
proof (induction js)
  case (Cons j js)
  then obtain ws where ws: "RebuildEnabled_loop js s = Inr ws"
    "set ws = {w. \<exists>j\<in>set js. enabled_bset s ! j \<and> recipe_vect s ! j = Some w \<and>
                  \<not> UsageOutOfBounds w s \<and> \<not> wm_hidden (awm_objs s w)}" by auto
  have j: "j < length (enabled_bset s)" "j < length (recipe_vect s)" using Cons.prems assms(1) by (auto simp: vect_ok_def)
  obtain w where w: "recipe_vect s ! j = Some w" using Cons.prems assms(1) by (auto simp: vect_ok_def)
  show ?case using ws j w by (cases "enabled_bset s ! j") auto
qed simp

lemma Rebuild_result:
  assumes "vect_ok s"
  shows "\<exists>ws i. RebuildEnabledWorkingModes s = Inr (sort_by_value (s\<lparr>enabled_list := ws, curr_inv := i\<rparr>)) \<and>
    set ws = selectable s"
proof -
  have js: "set [0..<unat (max_id s) + 1] = {..unat (max_id s)}" by auto
  obtain ws where ws: "RebuildEnabled_loop [0..<unat (max_id s) + 1] s = Inr ws" "set ws = selectable s"
    using Rebuild_loop_result [OF assms, of "[0..<unat (max_id s) + 1]"] unfolding js selectable_def Bex_def atMost_iff
    by blast
  have "vect_ok (s\<lparr>enabled_list := ws\<rparr>)" using assms by (simp add: vect_ok_def)
  then obtain s' where s': "FinalizeEnabledWorkingModes (s\<lparr>enabled_list := ws\<rparr>) = Inr s'" using Finalize_succeeds by blast
  then obtain i where "s' = sort_by_value (s\<lparr>enabled_list := ws\<rparr>\<lparr>curr_inv := i\<rparr>)" by (rule Finalize_result)
  then show ?thesis using ws s' by (auto simp: RebuildEnabledWorkingModes_def)
qed

lemma Rebuild_exact:
  assumes "vect_ok s"
  shows "\<exists>s'. RebuildEnabledWorkingModes s = Inr s' \<and> enabled_exact s' \<and> vect_ok s' \<and> range_ok s' = range_ok s \<and>
    low_id s' = low_id s \<and> upp_id s' = upp_id s \<and> max_id s' = max_id s"
proof -
  obtain ws i where r: "RebuildEnabledWorkingModes s = Inr (sort_by_value (s\<lparr>enabled_list := ws, curr_inv := i\<rparr>))"
    "set ws = selectable s" using Rebuild_result [OF assms] by blast
  let ?s = "s\<lparr>enabled_list := ws, curr_inv := i\<rparr>"
  have "selectable ?s = selectable s" by (simp add: selectable_def UsageOutOfBounds_def)
  then have "enabled_exact (sort_by_value ?s)"
    using r(2) sort_by_value_fields(12) [of ?s] by (simp add: enabled_exact_def)
  moreover have "vect_ok ?s" "range_ok ?s = range_ok s" using assms by (simp_all add: vect_ok_def range_ok_def)
  ultimately show ?thesis using r(1) by simp
qed


definition app_ok :: "Application \<Rightarrow> bool" where
  "app_ok s \<longleftrightarrow> range_ok s \<and> vect_ok s \<and> enabled_exact s"

text \<open>The interval after a constraint on a bound.\<close>

fun bounds_after :: "RTLIB_Constraint \<Rightarrow> Application \<Rightarrow> u8 \<times> u8" where
  "bounds_after con s =
     (case (c_operation con, c_type con) of
        (CONSTRAINT_ADD, LOWER_BOUND) \<Rightarrow> (c_awm con, upp_id s)
      | (CONSTRAINT_ADD, UPPER_BOUND) \<Rightarrow> (low_id s, c_awm con)
      | (CONSTRAINT_REMOVE, LOWER_BOUND) \<Rightarrow> (0, upp_id s)
      | (CONSTRAINT_REMOVE, UPPER_BOUND) \<Rightarrow> (low_id s, max_id s)
      | _ \<Rightarrow> (low_id s, upp_id s))"

lemma unat_max_min:
  fixes a b :: u8
  shows "unat (max a b) = max (unat a) (unat b)" "unat (min a b) = min (unat a) (unat b)"
  by (simp_all add: max_def min_def word_le_nat_alt)

lemma bits_of_range:
  assumes "range_ok s" "\<forall>i\<in>set is. i \<le> unat (max_id s)"
  obtains b where "bset_puts f is (enabled_bset s) = Inr b" "length b = MAX_NUM_AWM"
    "\<And>k. k \<le> unat (max_id s) \<Longrightarrow>
       b ! k = (if k \<in> set is then f k else unat (low_id s) \<le> k \<and> k \<le> unat (upp_id s))"
proof -
  have r: "length (enabled_bset s) = MAX_NUM_AWM" "unat (max_id s) < MAX_NUM_AWM"
    "\<forall>i \<le> unat (max_id s). enabled_bset s ! i \<longleftrightarrow> unat (low_id s) \<le> i \<and> i \<le> unat (upp_id s)"
    using assms(1) by (simp_all add: range_ok_def)
  then have "\<forall>i\<in>set is. i < length (enabled_bset s)" using assms(2) by auto
  from bset_puts_result [OF this, of f] obtain b where b: "bset_puts f is (enabled_bset s) = Inr b"
    "length b = length (enabled_bset s)"
    "\<forall>k < length (enabled_bset s). b ! k = (if k \<in> set is then f k else enabled_bset s ! k)" by blast
  show thesis
  proof (rule that [OF b(1)])
    show "length b = MAX_NUM_AWM" using b(2) r(1) by simp
    show "b ! k = (if k \<in> set is then f k else unat (low_id s) \<le> k \<and> k \<le> unat (upp_id s))" if "k \<le> unat (max_id s)" for k
      using b(3) r that by simp
  qed
qed

text \<open>Writing the bits of an interval and then the bounds.\<close>

lemma range_ok_set_bounds:
  assumes "range_ok s" "lo \<le> up" "up \<le> max_id s" "length b = MAX_NUM_AWM"
    "\<And>k. k \<le> unat (max_id s) \<Longrightarrow> b ! k \<longleftrightarrow> unat lo \<le> k \<and> k \<le> unat up"
  shows "range_ok (s\<lparr>enabled_bset := b, low_id := lo, upp_id := up\<rparr>)"
  using assms by (simp add: range_ok_def)

lemma range_ok_nat:
  assumes "range_ok s"
  shows "unat (low_id s) \<le> unat (upp_id s)" "unat (upp_id s) \<le> unat (max_id s)"
  using assms by (simp_all add: range_ok_def word_le_nat_alt)

lemma add_lower_bound:
  assumes "range_ok s" "c \<le> upp_id s"
  obtains b where "SetWorkingModesLowerBound c s = Inr (s\<lparr>enabled_bset := b, low_id := c\<rparr>)"
    "range_ok (s\<lparr>enabled_bset := b, low_id := c\<rparr>)"
proof -
  let ?is = "rev [0..<unat (max c (low_id s)) + 1]"
  have c: "unat c \<le> unat (upp_id s)" using assms(2) by (simp add: word_le_nat_alt)
  have "\<forall>i\<in>set ?is. i \<le> unat (max_id s)" using c range_ok_nat [OF assms(1)] by (auto simp: unat_max_min)
  then obtain b where b: "bset_puts (\<lambda>i. \<not> i < unat c) ?is (enabled_bset s) = Inr b" "length b = MAX_NUM_AWM"
    "\<And>k. k \<le> unat (max_id s) \<Longrightarrow> b ! k =
       (if k \<in> set ?is then \<not> k < unat c else unat (low_id s) \<le> k \<and> k \<le> unat (upp_id s))"
    by (rule bits_of_range [where f = "\<lambda>i. \<not> i < unat c", OF assms(1)]) blast
  show thesis
  proof (rule that)
    show "SetWorkingModesLowerBound c s = Inr (s\<lparr>enabled_bset := b, low_id := c\<rparr>)"
      using b(1) unfolding SetWorkingModesLowerBound_def Let_def by simp
    have "b ! k \<longleftrightarrow> unat c \<le> k \<and> k \<le> unat (upp_id s)" if "k \<le> unat (max_id s)" for k
      using b(3) [OF that] c range_ok_nat [OF assms(1)] by (auto simp: unat_max_min split: if_splits)
    from range_ok_set_bounds [OF assms(1,2) _ b(2) this] show "range_ok (s\<lparr>enabled_bset := b, low_id := c\<rparr>)"
      using assms(1) by (simp add: range_ok_def)
  qed
qed

lemma add_upper_bound:
  assumes "range_ok s" "low_id s \<le> c" "c \<le> max_id s"
  obtains b where "SetWorkingModesUpperBound c s = Inr (s\<lparr>enabled_bset := b, upp_id := c\<rparr>)"
    "range_ok (s\<lparr>enabled_bset := b, upp_id := c\<rparr>)"
proof -
  let ?is = "[unat (min c (upp_id s))..<unat (max_id s) + 1]"
  have c: "unat (low_id s) \<le> unat c" using assms(2) by (simp add: word_le_nat_alt)
  have "\<forall>i\<in>set ?is. i \<le> unat (max_id s)" by auto
  then obtain b where b: "bset_puts (\<lambda>i. \<not> i > unat c) ?is (enabled_bset s) = Inr b" "length b = MAX_NUM_AWM"
    "\<And>k. k \<le> unat (max_id s) \<Longrightarrow> b ! k =
       (if k \<in> set ?is then \<not> k > unat c else unat (low_id s) \<le> k \<and> k \<le> unat (upp_id s))"
    by (rule bits_of_range [where f = "\<lambda>i. \<not> i > unat c", OF assms(1)]) blast
  show thesis
  proof (rule that)
    show "SetWorkingModesUpperBound c s = Inr (s\<lparr>enabled_bset := b, upp_id := c\<rparr>)"
      using b(1) unfolding SetWorkingModesUpperBound_def Let_def by simp
    have "b ! k \<longleftrightarrow> unat (low_id s) \<le> k \<and> k \<le> unat c" if "k \<le> unat (max_id s)" for k
      using b(3) [OF that] c that range_ok_nat [OF assms(1)] by (auto simp: unat_max_min split: if_splits)
    from range_ok_set_bounds [OF assms(1-3) b(2) this] show "range_ok (s\<lparr>enabled_bset := b, upp_id := c\<rparr>)" by simp
  qed
qed

lemma clear_lower_bound:
  assumes "range_ok s"
  obtains b where "ClearWorkingModesLowerBound s = Inr (s\<lparr>enabled_bset := b, low_id := 0\<rparr>)"
    "range_ok (s\<lparr>enabled_bset := b, low_id := 0\<rparr>)"
proof -
  let ?is = "rev [0..<unat (low_id s)]"
  have "\<forall>i\<in>set ?is. i \<le> unat (max_id s)" using range_ok_nat [OF assms] by auto
  then obtain b where b: "bset_puts (\<lambda>_. True) ?is (enabled_bset s) = Inr b" "length b = MAX_NUM_AWM"
    "\<And>k. k \<le> unat (max_id s) \<Longrightarrow> b ! k =
       (if k \<in> set ?is then True else unat (low_id s) \<le> k \<and> k \<le> unat (upp_id s))"
    by (rule bits_of_range [where f = "\<lambda>_. True", OF assms]) blast
  show thesis
  proof (rule that)
    show "ClearWorkingModesLowerBound s = Inr (s\<lparr>enabled_bset := b, low_id := 0\<rparr>)"
      using b(1) unfolding ClearWorkingModesLowerBound_def by simp
    have "b ! k \<longleftrightarrow> unat (0 :: u8) \<le> k \<and> k \<le> unat (upp_id s)" if "k \<le> unat (max_id s)" for k
      using b(3) [OF that] range_ok_nat [OF assms] by auto
    from range_ok_set_bounds [OF assms _ _ b(2) this] show "range_ok (s\<lparr>enabled_bset := b, low_id := 0\<rparr>)"
      using assms by (simp add: range_ok_def)
  qed
qed

lemma clear_upper_bound:
  assumes "range_ok s"
  obtains b where "ClearWorkingModesUpperBound s = Inr (s\<lparr>enabled_bset := b, upp_id := max_id s\<rparr>)"
    "range_ok (s\<lparr>enabled_bset := b, upp_id := max_id s\<rparr>)"
proof -
  let ?is = "[unat (upp_id s) + 1..<unat (max_id s) + 1]"
  have "\<forall>i\<in>set ?is. i \<le> unat (max_id s)" by auto
  then obtain b where b: "bset_puts (\<lambda>_. True) ?is (enabled_bset s) = Inr b" "length b = MAX_NUM_AWM"
    "\<And>k. k \<le> unat (max_id s) \<Longrightarrow> b ! k =
       (if k \<in> set ?is then True else unat (low_id s) \<le> k \<and> k \<le> unat (upp_id s))"
    by (rule bits_of_range [where f = "\<lambda>_. True", OF assms]) blast
  show thesis
  proof (rule that)
    show "ClearWorkingModesUpperBound s = Inr (s\<lparr>enabled_bset := b, upp_id := max_id s\<rparr>)"
      using b(1) unfolding ClearWorkingModesUpperBound_def by simp
    have "b ! k \<longleftrightarrow> unat (low_id s) \<le> k \<and> k \<le> unat (max_id s)" if "k \<le> unat (max_id s)" for k
      using b(3) [OF that] that range_ok_nat [OF assms] by auto
    moreover have "low_id s \<le> max_id s" using assms by (auto simp: range_ok_def)
    ultimately show "range_ok (s\<lparr>enabled_bset := b, upp_id := max_id s\<rparr>)"
      using range_ok_set_bounds [OF assms, of "low_id s" "max_id s" b] b(2) by simp
  qed
qed


text \<open>A change of the bits and the bounds that keeps the range well formed.\<close>

definition moved :: "Application \<Rightarrow> u8 \<Rightarrow> u8 \<Rightarrow> Application \<Rightarrow> bool" where
  "moved s lo up s1 \<longleftrightarrow>
     range_ok s1 \<and> vect_ok s1 \<and> low_id s1 = lo \<and> upp_id s1 = up \<and> max_id s1 = max_id s"

lemma bounds_moved:
  assumes "range_ok s" "vect_ok s"
  shows "c \<le> upp_id s \<Longrightarrow> \<exists>s1. SetWorkingModesLowerBound c s = Inr s1 \<and> moved s c (upp_id s) s1"
    "low_id s \<le> c \<Longrightarrow> c \<le> max_id s \<Longrightarrow> \<exists>s1. SetWorkingModesUpperBound c s = Inr s1 \<and> moved s (low_id s) c s1"
    "\<exists>s1. ClearWorkingModesLowerBound s = Inr s1 \<and> moved s 0 (upp_id s) s1"
    "\<exists>s1. ClearWorkingModesUpperBound s = Inr s1 \<and> moved s (low_id s) (max_id s) s1"
proof -
  have v: "vect_ok (s\<lparr>enabled_bset := b, low_id := lo\<rparr>)" if "range_ok (s\<lparr>enabled_bset := b, low_id := lo\<rparr>)" for b lo
    using assms(2) that by (simp add: vect_ok_def range_ok_def)
  have v': "vect_ok (s\<lparr>enabled_bset := b, upp_id := up\<rparr>)" if "range_ok (s\<lparr>enabled_bset := b, upp_id := up\<rparr>)" for b up
    using assms(2) that by (simp add: vect_ok_def range_ok_def)
  show "\<exists>s1. SetWorkingModesLowerBound c s = Inr s1 \<and> moved s c (upp_id s) s1" if "c \<le> upp_id s"
    by (rule add_lower_bound [OF assms(1) that]) (simp add: moved_def v)
  show "\<exists>s1. SetWorkingModesUpperBound c s = Inr s1 \<and> moved s (low_id s) c s1" if "low_id s \<le> c" "c \<le> max_id s"
    by (rule add_upper_bound [OF assms(1) that]) (simp add: moved_def v')
  show "\<exists>s1. ClearWorkingModesLowerBound s = Inr s1 \<and> moved s 0 (upp_id s) s1"
    by (rule clear_lower_bound [OF assms(1)]) (simp add: moved_def v)
  show "\<exists>s1. ClearWorkingModesUpperBound s = Inr s1 \<and> moved s (low_id s) (max_id s) s1"
    by (rule clear_upper_bound [OF assms(1)]) (simp add: moved_def v')
qed

text \<open>A bound that is set does not cross the other one.\<close>

definition not_crossing :: "RTLIB_Constraint \<Rightarrow> Application \<Rightarrow> bool" where
  "not_crossing con s \<longleftrightarrow>
     (case (c_operation con, c_type con) of
        (CONSTRAINT_ADD, LOWER_BOUND) \<Rightarrow> c_awm con \<le> upp_id s
      | (CONSTRAINT_ADD, UPPER_BOUND) \<Rightarrow> low_id s \<le> c_awm con
      | (_, EXACT_VALUE) \<Rightarrow> False
      | _ \<Rightarrow> True)"

lemma constraint_moves_bounds:
  assumes "range_ok s" "vect_ok s" "c_awm con \<le> max_id s" "not_crossing con s"
  obtains e s1 where
    "(case c_operation con of CONSTRAINT_REMOVE \<Rightarrow> RemoveWorkingModeConstraint con s
      | CONSTRAINT_ADD \<Rightarrow> AddWorkingModeConstraint con s) = Inr (e, s1)"
    "moved s (fst (bounds_after con s)) (snd (bounds_after con s)) s1" "e = APP_WM_ENAB_UNCHANGED \<Longrightarrow> s1 = s"
proof (cases "c_operation con")
  case CONSTRAINT_REMOVE
  with bounds_moved(3,4) [OF assms(1,2)] assms(4) that show thesis
    by (cases "c_type con") (fastforce simp: RemoveWorkingModeConstraint_def not_crossing_def)+
next
  case CONSTRAINT_ADD
  have same: "moved s (low_id s) (upp_id s) s" using assms(1,2) by (simp add: moved_def)
  show thesis
  proof (cases "c_type con")
    case LOWER_BOUND
    then have le: "c_awm con \<le> upp_id s" "\<not> upp_id s < c_awm con"
      using CONSTRAINT_ADD assms(4) by (simp_all add: not_crossing_def not_less)
    obtain s1 where "SetWorkingModesLowerBound (c_awm con) s = Inr s1" "moved s (c_awm con) (upp_id s) s1"
      using bounds_moved(1) [OF assms(1,2) le(1)] by blast
    then show thesis
      using same CONSTRAINT_ADD LOWER_BOUND le(2) that [of APP_WM_ENAB_UNCHANGED s] that [of APP_WM_ENAB_CHANGED s1]
      by (cases "c_awm con = low_id s") (simp_all add: AddWorkingModeConstraint_def)
  next
    case UPPER_BOUND
    then have le: "low_id s \<le> c_awm con" "\<not> c_awm con < low_id s"
      using CONSTRAINT_ADD assms(4) by (simp_all add: not_crossing_def not_less)
    obtain s1 where "SetWorkingModesUpperBound (c_awm con) s = Inr s1" "moved s (low_id s) (c_awm con) s1"
      using bounds_moved(2) [OF assms(1,2) le(1) assms(3)] by blast
    then show thesis
      using same CONSTRAINT_ADD UPPER_BOUND le(2) that [of APP_WM_ENAB_UNCHANGED s] that [of APP_WM_ENAB_CHANGED s1]
      by (cases "c_awm con = upp_id s") (simp_all add: AddWorkingModeConstraint_def)
  qed (use assms(4) CONSTRAINT_ADD in \<open>simp add: not_crossing_def\<close>)
qed



definition lower :: "u8 \<Rightarrow> RTLIB_Constraint" where
  "lower c = \<lparr>c_awm = c, c_operation = CONSTRAINT_ADD, c_type = LOWER_BOUND\<rparr>"

definition upper :: "u8 \<Rightarrow> RTLIB_Constraint" where
  "upper c = \<lparr>c_awm = c, c_operation = CONSTRAINT_ADD, c_type = UPPER_BOUND\<rparr>"

text \<open>An application with three working modes, all enabled.\<close>

definition app_three :: Application where
  "app_three = (Application_new ''demo'' 100 0 RTLIB_LANG_CPP False)\<lparr>
     awm_objs := (\<lambda>w. (WorkingMode_new (int w) ''awm'' 0 None)\<lparr>value_normal := of_nat w / 2\<rparr>), awm_alloc := 3,
     recipe_vect := [Some 0, Some 1, Some 2] @ replicate 252 None, enabled_list := [0, 1, 2],
     enabled_bset := replicate MAX_NUM_AWM True, upp_id := 2, max_id := 2\<rparr>"

lemma le_2_iff: "(j :: nat) \<le> 2 \<longleftrightarrow> j = 0 \<or> j = 1 \<or> j = 2"
  by auto

lemma app_ok_three: "app_ok app_three"
proof -
  have "range_ok app_three" by (simp add: range_ok_def app_three_def MAX_NUM_AWM_def Application_new_def)
  moreover have "vect_ok app_three"
    by (auto simp: vect_ok_def app_three_def MAX_NUM_AWM_def Application_new_def le_2_iff)
  moreover have "selectable app_three = {0, 1, 2}"
    by (auto simp: selectable_def app_three_def MAX_NUM_AWM_def UsageOutOfBounds_def WorkingMode_new_def le_2_iff)
  then have "enabled_exact app_three" by (simp add: enabled_exact_def app_three_def)
  ultimately show ?thesis by (simp add: app_ok_def)
qed



text \<open>A bound that crosses the other one disables all working modes but one. When a lower bound
  above the upper one is set, the upper bound becomes the last working mode, but the bits
  between the new lower bound and it are not set: only the working mode of the bound is enabled,
  and likewise for an upper bound below the lower one.\<close>

theorem crossing_bound_enables_one:
  assumes "range_ok s" "upp_id s < c \<and> c \<le> max_id s \<and> con = lower c \<and> lo = c \<and> up = max_id s \<or>
    c < low_id s \<and> con = upper c \<and> lo = 0 \<and> up = c"
  shows "\<exists>s'. AddWorkingModeConstraint con s = Inr (APP_WM_ENAB_CHANGED, s') \<and> low_id s' = lo \<and> upp_id s' = up \<and>
    (\<forall>i \<le> unat (max_id s). enabled_bset s' ! i \<longleftrightarrow> i = unat c)"
  using assms(2)
proof (elim disjE conjE)
  assume c: "upp_id s < c" "c \<le> max_id s" and con: "con = lower c" "lo = c" "up = max_id s"
  let ?is = "rev [0..<unat (max c (low_id s)) + 1]"
  have n: "unat (upp_id s) < unat c" "unat c \<le> unat (max_id s)" "max c (low_id s) = c" "c \<noteq> low_id s"
    using c range_ok_nat(1) [OF assms(1)] by (auto simp: word_le_nat_alt word_less_nat_alt max_def)
  have "\<forall>i\<in>set ?is. i \<le> unat (max_id s)" using n by auto
  then obtain b where b: "bset_puts (\<lambda>i. \<not> i < unat c) ?is (enabled_bset s) = Inr b"
    "\<And>k. k \<le> unat (max_id s) \<Longrightarrow> b ! k =
       (if k \<in> set ?is then \<not> k < unat c else unat (low_id s) \<le> k \<and> k \<le> unat (upp_id s))"
    by (rule bits_of_range [where f = "\<lambda>i. \<not> i < unat c", OF assms(1)]) blast
  have "b ! k \<longleftrightarrow> k = unat c" if "k \<le> unat (max_id s)" for k using b(2) [OF that] n by auto
  then show ?thesis using b(1) n c con
    by (simp add: AddWorkingModeConstraint_def SetWorkingModesLowerBound_def lower_def)
next
  assume c: "c < low_id s" and con: "con = upper c" "lo = 0" "up = c"
  let ?is = "[unat (min c (upp_id s))..<unat (max_id s) + 1]"
  have n: "unat c < unat (low_id s)" "min c (upp_id s) = c" "c \<noteq> upp_id s" "unat c \<le> unat (max_id s)"
    using c range_ok_nat [OF assms(1)] by (auto simp: word_le_nat_alt word_less_nat_alt min_def)
  have "\<forall>i\<in>set ?is. i \<le> unat (max_id s)" by auto
  then obtain b where b: "bset_puts (\<lambda>i. \<not> i > unat c) ?is (enabled_bset s) = Inr b"
    "\<And>k. k \<le> unat (max_id s) \<Longrightarrow> b ! k =
       (if k \<in> set ?is then \<not> k > unat c else unat (low_id s) \<le> k \<and> k \<le> unat (upp_id s))"
    by (rule bits_of_range [where f = "\<lambda>i. \<not> i > unat c", OF assms(1)]) blast
  have "b ! k \<longleftrightarrow> k = unat c" if "k \<le> unat (max_id s)" for k using b(2) [OF that] n that by auto
  then show ?thesis using b(1) n c con
    by (simp add: AddWorkingModeConstraint_def SetWorkingModesUpperBound_def upper_def)
qed

theorem crossing_bound_enables_one_witness:
  "\<exists>s s'. range_ok s \<and> upp_id s = 0 \<and> max_id s = 2 \<and> AddWorkingModeConstraint (lower 1) s = Inr (APP_WM_ENAB_CHANGED, s') \<and>
     upp_id s' = 2 \<and> \<not> enabled_bset s' ! 2"
proof -
  let ?s = "app_three\<lparr>upp_id := 0, enabled_bset := True # replicate 254 False\<rparr>"
  have "range_ok ?s"
    by (auto simp: range_ok_def app_three_def MAX_NUM_AWM_def Application_new_def le_2_iff)
  moreover have "upp_id ?s < 1 \<and> 1 \<le> max_id ?s" by (simp add: app_three_def)
  ultimately obtain s' where "AddWorkingModeConstraint (lower 1) ?s = Inr (APP_WM_ENAB_CHANGED, s')" "upp_id s' = 2"
    "\<forall>i \<le> unat (max_id ?s). enabled_bset s' ! i \<longleftrightarrow> i = unat (1 :: u8)"
    using crossing_bound_enables_one [of ?s 1 "lower 1" 1 2] by (auto simp: app_three_def)
  then show ?thesis using \<open>range_ok ?s\<close> by (intro exI [of _ ?s] exI [of _ s']) (simp add: app_three_def)
qed

text \<open>Clearing the constraints on the working modes enables none. \<open>ClearWorkingModeConstraints\<close>
  resets the bounds and rebuilds the list from bits it does not change, so that a working mode
  whose bit a constraint has cleared is not in the new list.\<close>

theorem clear_constraints_enables_none:
  assumes "vect_ok s"
  shows "\<exists>s'. ClearWorkingModeConstraints s = Inr s' \<and> low_id s' = 0 \<and> upp_id s' = max_id s \<and>
    enabled_bset s' = enabled_bset s \<and> set (enabled_list s') = selectable s"
proof -
  let ?s = "s\<lparr>low_id := 0, upp_id := max_id s\<rparr>"
  have "vect_ok ?s" using assms by (simp add: vect_ok_def)
  from Rebuild_result [OF this] obtain ws i where
    "RebuildEnabledWorkingModes ?s = Inr (sort_by_value (?s\<lparr>enabled_list := ws, curr_inv := i\<rparr>))" "set ws = selectable ?s"
    by blast
  moreover have "selectable ?s = selectable s" by (simp add: selectable_def UsageOutOfBounds_def)
  ultimately show ?thesis by (simp add: ClearWorkingModeConstraints_def)
qed

theorem clear_constraints_enables_none_witness:
  "\<exists>s s'. ClearWorkingModeConstraints s = Inr s' \<and> low_id s = 1 \<and> low_id s' = 0 \<and> set (enabled_list s') = {1, 2}"
proof -
  let ?s = "app_three\<lparr>low_id := 1, enabled_bset := False # replicate 254 True, enabled_list := [1, 2]\<rparr>"
  have "vect_ok ?s"
    by (auto simp: vect_ok_def app_three_def MAX_NUM_AWM_def Application_new_def le_2_iff)
  moreover have "selectable ?s = {1, 2}"
    by (auto simp: selectable_def app_three_def MAX_NUM_AWM_def UsageOutOfBounds_def WorkingMode_new_def Application_new_def le_2_iff)
  ultimately obtain s' where "ClearWorkingModeConstraints ?s = Inr s'" "low_id s' = 0" "set (enabled_list s') = {1, 2}"
    using clear_constraints_enables_none [of ?s] by auto
  then show ?thesis by (intro exI [of _ ?s] exI [of _ s']) simp
qed

section \<open>Resource constraints\<close>

lemma cm_find_update:
  "cm_find q (cm_update p f m) = (if same_path p q then map_option f (cm_find q m) else cm_find q m)"
  by (induction p f m rule: cm_update.induct) (auto simp: cm_find_def same_path_def)

lemma cm_find_emplace:
  "cm_find q (cm_emplace p c m) = (if same_path p q \<and> cm_find q m = None then Some c else cm_find q m)"
  by (induction m) (auto simp: cm_emplace_def cm_find_def same_path_def find_append split: option.splits)

lemma Update_result:
  assumes "UpdateEnabledWorkingModes s = Inr s'"
  shows "rsrc_constraints s' = rsrc_constraints s" "awm_objs s' = awm_objs s"
    "set (enabled_list s') = {w \<in> set (enabled_list s). \<not> UsageOutOfBounds w s}"
    "UsageOutOfBounds w s' = UsageOutOfBounds w s"
proof -
  obtain i where s': "s' = sort_by_value (s\<lparr>enabled_list := filter (\<lambda>w. \<not> UsageOutOfBounds w s) (enabled_list s), curr_inv := i\<rparr>)"
    using Finalize_result [OF assms [unfolded UpdateEnabledWorkingModes_def]] by (metis (no_types))
  show "rsrc_constraints s' = rsrc_constraints s" "awm_objs s' = awm_objs s"
    "set (enabled_list s') = {w \<in> set (enabled_list s). \<not> UsageOutOfBounds w s}"
    "UsageOutOfBounds w s' = UsageOutOfBounds w s"
    unfolding s' by (auto simp: UsageOutOfBounds_def)
qed

lemma UsageOutOfBounds_iff:
  "\<not> UsageOutOfBounds w s \<longleftrightarrow> (\<forall>(q, a)\<in>set (requested (awm_objs s w)). \<forall>c.
     cm_find q (rsrc_constraints s) = Some c \<longrightarrow> rc_lower c \<le> ra_amount a \<and> ra_amount a \<le> rc_upper c)"
  by (auto simp: UsageOutOfBounds_def out_of_bounds_def list_ex_iff Ball_def not_less not_le split: option.splits)

definition constr_ok :: "ConstrMap \<Rightarrow> bool" where
  "constr_ok cm \<longleftrightarrow> (\<forall>p c. cm_find p cm = Some c \<longrightarrow> rc_lower c \<le> rc_upper c)"

definition bound_of :: "BoundType \<Rightarrow> ResourceConstraint \<Rightarrow> u64" where
  "bound_of b_type c = (case b_type of BT_LOWER_BOUND \<Rightarrow> rc_lower c | BT_UPPER_BOUND \<Rightarrow> rc_upper c)"



lemma pe_path_exists: "ExistResource_path (ResourcePath_new 31 ''sys0.cpu0.pe'') ra_pe"
  by code_simp

lemma SetResourceConstraint_three:
  assumes "ExistResource_path p ra"
  shows "\<exists>s'. SetResourceConstraint p b_type v ra app_three = Inr (APP_SUCCESS, s')"
proof -
  have "awm app_three = None" by (simp add: app_three_def Application_new_def)
  with assms show ?thesis
    by (simp add: SetResourceConstraint_def UpdateEnabledWorkingModes_def FinalizeEnabledWorkingModes_def Let_def)
qed


text \<open>Removing a resource constraint enables no working mode. The list of enabled working modes
  is filtered, not rebuilt, so that what the constraint had removed stays out.\<close>

theorem clear_resource_constraint_enables_none:
  assumes "ClearResourceConstraint p b_type s = Inr (e, s')"
  shows "set (enabled_list s') \<subseteq> set (enabled_list s)"
proof (cases "cm_find p (rsrc_constraints s)")
  case (Some c)
  then have "UpdateEnabledWorkingModes (s\<lparr>rsrc_constraints := clear_bound b_type p c (rsrc_constraints s)\<rparr>) = Inr s'"
    using assms by (auto simp: ClearResourceConstraint_def elim!: seq_fault_InrE)
  from Update_result(3) [OF this] show ?thesis by auto
qed (use assms in \<open>simp add: ClearResourceConstraint_def\<close>)

theorem clear_resource_constraint_enables_none_witness:
  "\<exists>s'. ClearResourceConstraint (ResourcePath_new 31 ''sys0.cpu0.pe'') BT_LOWER_BOUND (app_three\<lparr>enabled_list := [],
       rsrc_constraints := [(ResourcePath_new 31 ''sys0.cpu0.pe'', \<lparr>rc_lower = 10, rc_upper = - 1\<rparr>)]\<rparr>) = Inr (APP_SUCCESS, s') \<and>
     enabled_list s' = [] \<and> rsrc_constraints s' = []"
proof -
  let ?p = "ResourcePath_new 31 ''sys0.cpu0.pe''"
  let ?s = "app_three\<lparr>enabled_list := [], rsrc_constraints := [(?p, \<lparr>rc_lower = 10, rc_upper = - 1\<rparr>)]\<rparr>"
  have "awm ?s = None" by (simp add: app_three_def Application_new_def)
  then obtain s' where s': "ClearResourceConstraint ?p BT_LOWER_BOUND ?s = Inr (APP_SUCCESS, s')" "rsrc_constraints s' = []"
    by (simp add: ClearResourceConstraint_def UpdateEnabledWorkingModes_def FinalizeEnabledWorkingModes_def cm_find_def
        same_path_def clear_bound_def cm_erase_def)
  then show ?thesis using clear_resource_constraint_enables_none [OF s'(1)] by auto
qed

end
