(* ===== verification/App_Queues.thy ===== *)
theory App_Queues
  imports Application
begin

text \<open>
  The registry of \<open>ApplicationManager\<close> (\<^verbatim>\<open>bbque/application_manager.cc\<close>,
  \<^verbatim>\<open>include/bbque/application_manager.h\<close>): the maps of applications by number, priority, state,
  synchronisation state and language, the in-loop-erase-safe iterators over them
  (\<^verbatim>\<open>include/bbque/application_manager_status.h\<close>), and the creation, the transitions and the destruction
  of execution contexts.

  Applications live in a store and the maps hold pointers to them. The members \<open>uids\<close>, \<open>prio_vec\<close>,
  \<open>status_vec\<close>, \<open>sync_vec\<close> and \<open>lang_vec\<close> with their retainer lists are one family \<open>vecs\<close>, \<open>rets\<close>
  indexed by a reference, as an iterator refers to any of them. An iterator is at a key of its map,
  or at its end. The multimap \<open>apps\<close> is the list of its entries in the order of insertion, which is
  the order of the entries of one process. Each map has its own mutex, taken for the whole
  access.

  Outside of these sources, and arguments here: the recipe loader \<open>rload\<close>, the number of priority
  \<open>levels\<close>, and the release of platform data \<open>plm_release\<close> (whether it succeeds). Printing is left
  out.
\<close>

section \<open>State\<close>

type_synonym appptr = nat
type_synonym itptr = nat
type_synonym AppsUidMap = "(AppUid, appptr) omap"

datatype AMExitCode =
    AM_SUCCESS | AM_RESCHED_REQUIRED | AM_AWM_NULL | AM_AWM_NOT_SCHEDULABLE | AM_APP_BLOCKING | AM_APP_DISABLED
  | AM_EXC_NOT_FOUND | AM_EXC_INVALID_STATUS | AM_EXC_STATUS_CHANGE_FAILED | AM_EXC_STATUS_CHANGE_NONE
  | AM_PLAT_PROXY_ERROR | AM_DATA_CORRUPT | AM_SKIPPING | AM_ABORT

datatype RLExitCode =
    RL_SUCCESS | RL_WEAK_LOAD | RL_FAILED | RL_VERSION_MISMATCH | RL_PLATFORM_MISMATCH | RL_MISSING_LOADER
  | RL_NOT_FOUND | RL_FORMAT_ERROR | RL_ABORTED

datatype mapref = UIDS | PRIO u16 | STATUS State | SYNCQ SyncState | LANG Lang

record AppsUidMapIt =
  it_map :: "mapref option"
  it_pos :: "AppUid option"
  it_updated :: bool
  it_ret :: "mapref option"

record ApplicationManager =
  app_objs :: "appptr \<Rightarrow> Application"
  app_alloc :: appptr
  am_apps :: "(u32 \<times> appptr) list"
  vecs :: "mapref \<Rightarrow> AppsUidMap"
  rets :: "mapref \<Rightarrow> itptr list"
  iters :: "itptr \<Rightarrow> AppsUidMapIt"
  am_recipes :: "string \<rightharpoonup> Recipe"
  cleanup_timeout :: "u32 option"

definition AppsUidMapIt_new :: AppsUidMapIt where
  "AppsUidMapIt_new = \<lparr>it_map = None, it_pos = None, it_updated = False, it_ret = None\<rparr>"

definition ApplicationManager_new :: ApplicationManager where
  "ApplicationManager_new =
     \<lparr>app_objs = (\<lambda>_. Application_new [] 0 0 RTLIB_LANG_UNDEF False), app_alloc = 0, am_apps = [],
      vecs = (\<lambda>_. []), rets = (\<lambda>_. []), iters = (\<lambda>_. AppsUidMapIt_new), am_recipes = Map.empty,
      cleanup_timeout = None\<rparr>"

abbreviation app_of :: "ApplicationManager \<Rightarrow> appptr \<Rightarrow> Application" where
  "app_of am p \<equiv> app_objs am p"

definition upd_app :: "appptr \<Rightarrow> Application \<Rightarrow> ApplicationManager \<Rightarrow> ApplicationManager" where
  "upd_app p a am = am\<lparr>app_objs := (app_objs am)(p := a)\<rparr>"

definition upd_vec :: "mapref \<Rightarrow> (AppsUidMap \<Rightarrow> AppsUidMap) \<Rightarrow> ApplicationManager \<Rightarrow> ApplicationManager" where
  "upd_vec r f am = am\<lparr>vecs := (vecs am)(r := f (vecs am r))\<rparr>"

text \<open>\<open>std::map::insert\<close>, which keeps an entry that is there.\<close>

definition om_insert :: "'k::linorder \<Rightarrow> 'v \<Rightarrow> ('k, 'v) omap \<Rightarrow> ('k, 'v) omap" where
  "om_insert k v m = (if om_find m k = None then om_set k v m else m)"

section \<open>Iterators\<close>

definition begin_key :: "AppsUidMap \<Rightarrow> AppUid option" where
  "begin_key m = (case m of [] \<Rightarrow> None | (k, _) # _ \<Rightarrow> Some k)"

text \<open>Incrementing an iterator: the next key, from a key that is in the map.\<close>

definition next_key :: "AppUid option \<Rightarrow> AppsUidMap \<Rightarrow> fault + AppUid option" where
  "next_key pos m =
     (case pos of
        None \<Rightarrow> Inl OutOfRange
      | Some k \<Rightarrow>
          if om_find m k = None then Inl Dangling
          else Inr (map_option fst (find (\<lambda>e. k < fst e) m)))"

definition it_vec :: "AppsUidMapIt \<Rightarrow> ApplicationManager \<Rightarrow> fault + AppsUidMap" where
  "it_vec ait am = (case it_map ait of None \<Rightarrow> Inl NullDeref | Some r \<Rightarrow> Inr (vecs am r))"

definition It_Init :: "mapref \<Rightarrow> ApplicationManager \<Rightarrow> AppsUidMapIt \<Rightarrow> AppsUidMapIt" where
  "It_Init r am ait = ait\<lparr>it_map := Some r, it_ret := Some r, it_pos := begin_key (vecs am r)\<rparr>"

definition It_Update :: "ApplicationManager \<Rightarrow> AppsUidMapIt \<Rightarrow> fault + AppsUidMapIt" where
  "It_Update am ait =
     seq_fault (it_vec ait am) (\<lambda>m.
       seq_fault (next_key (it_pos ait) m) (\<lambda>pos. Inr (ait\<lparr>it_pos := pos, it_updated := True\<rparr>)))"

definition It_next :: "ApplicationManager \<Rightarrow> AppsUidMapIt \<Rightarrow> fault + AppsUidMapIt" where
  "It_next am ait =
     (if it_updated ait then Inr (ait\<lparr>it_updated := False\<rparr>)
      else seq_fault (it_vec ait am) (\<lambda>m. seq_fault (next_key (it_pos ait) m) (\<lambda>pos. Inr (ait\<lparr>it_pos := pos\<rparr>))))"

definition It_Get :: "ApplicationManager \<Rightarrow> AppsUidMapIt \<Rightarrow> fault + appptr" where
  "It_Get am ait =
     seq_fault (it_vec ait am) (\<lambda>m.
       case it_pos ait of
         None \<Rightarrow> Inl OutOfRange
       | Some k \<Rightarrow> (case om_find m k of None \<Rightarrow> Inl Dangling | Some p \<Rightarrow> Inr p))"

definition upd_it :: "itptr \<Rightarrow> AppsUidMapIt \<Rightarrow> ApplicationManager \<Rightarrow> ApplicationManager" where
  "upd_it i ait am = am\<lparr>iters := (iters am)(i := ait)\<rparr>"

definition Retain :: "itptr \<Rightarrow> mapref \<Rightarrow> ApplicationManager \<Rightarrow> ApplicationManager" where
  "Retain i r am = am\<lparr>rets := (rets am)(r := i # rets am r)\<rparr>"

definition Release_it :: "itptr \<Rightarrow> ApplicationManager \<Rightarrow> ApplicationManager" where
  "Release_it i am =
     (case it_ret (iters am i) of
        None \<Rightarrow> am
      | Some r \<Rightarrow>
          upd_it i ((iters am i)\<lparr>it_ret := None\<rparr>) (am\<lparr>rets := (rets am)(r := removeAll i (rets am r))\<rparr>))"

fun UpdateIterators :: "itptr list \<Rightarrow> AppUid \<Rightarrow> ApplicationManager \<Rightarrow> fault + ApplicationManager" where
  "UpdateIterators [] uid am = Inr am"
| "UpdateIterators (i # is) uid am =
     (case it_pos (iters am i) of
        None \<Rightarrow> Inl OutOfRange
      | Some k \<Rightarrow>
          if k \<noteq> uid then UpdateIterators is uid am
          else seq_fault (It_Update am (iters am i)) (\<lambda>ait. UpdateIterators is uid (upd_it i ait am)))"

definition GetFirst :: "mapref \<Rightarrow> itptr \<Rightarrow> ApplicationManager \<Rightarrow> fault + appptr option \<times> ApplicationManager" where
  "GetFirst r i am =
     (let ait = It_Init r am (iters am i); am1 = upd_it i ait am
      in if it_pos ait = None then Inr (None, am1)
         else seq_fault (It_Get am1 ait) (\<lambda>p. Inr (Some p, Retain i r am1)))"

definition GetNext :: "itptr \<Rightarrow> ApplicationManager \<Rightarrow> fault + appptr option \<times> ApplicationManager" where
  "GetNext i am =
     seq_fault (It_next am (iters am i)) (\<lambda>ait.
       let am1 = upd_it i ait am
       in if it_pos ait = None then Inr (None, Release_it i am1)
          else seq_fault (It_Get am1 ait) (\<lambda>p. Inr (Some p, am1)))"

section \<open>Queries\<close>

definition HasApplications :: "mapref \<Rightarrow> ApplicationManager \<Rightarrow> bool" where
  "HasApplications r am \<longleftrightarrow> vecs am r \<noteq> []"

definition AppsCount_of :: "mapref \<Rightarrow> ApplicationManager \<Rightarrow> u16" where
  "AppsCount_of r am = of_nat (length (vecs am r))"

definition AppsCount :: "u16 \<Rightarrow> ApplicationManager \<Rightarrow> u16" where
  "AppsCount levels am = foldl (\<lambda>count prio. count + of_nat (length (vecs am (PRIO (of_nat prio))))) 0 [0..<unat levels]"

text \<open>The loop of \<open>HighestPrio\<close>; \<open>fuel\<close> bounds the number of its rounds.\<close>

fun HighestPrio_loop :: "nat \<Rightarrow> itptr \<Rightarrow> appptr \<Rightarrow> ApplicationManager \<Rightarrow> fault + (appptr \<times> ApplicationManager) option" where
  "HighestPrio_loop 0 i hp am = Inr None"
| "HighestPrio_loop (Suc fuel) i hp am =
     seq_fault (GetNext i am) (\<lambda>(next, am1).
       case next of
         None \<Rightarrow> Inr (Some (hp, am1))
       | Some p \<Rightarrow>
           HighestPrio_loop fuel i (if sch_priority (app_of am p) > sch_priority (app_of am hp) then p else hp) am1)"

definition HighestPrio :: "mapref \<Rightarrow> itptr \<Rightarrow> ApplicationManager \<Rightarrow> fault + (appptr option \<times> ApplicationManager) option" where
  "HighestPrio r i am =
     (if \<not> HasApplications r am then Inr (Some (None, am))
      else seq_fault (GetFirst r i am) (\<lambda>(first, am1).
        case first of
          None \<Rightarrow> Inl NullDeref
        | Some p \<Rightarrow>
            seq_fault (HighestPrio_loop (length (vecs am r)) i p am1) (\<lambda>res.
              Inr (map_option (\<lambda>(hp, am2). (Some hp, am2)) res))))"

definition GetApplication :: "AppUid \<Rightarrow> ApplicationManager \<Rightarrow> appptr option" where
  "GetApplication uid am = om_find (vecs am UIDS) uid"

definition GetApplication_pid :: "u32 \<Rightarrow> u8 \<Rightarrow> ApplicationManager \<Rightarrow> appptr option" where
  "GetApplication_pid pid eid am = GetApplication (Uid_of pid eid) am"

section \<open>Transitions\<close>

text \<open>Erasing an application from a map, after moving the iterators that are at it.\<close>

definition erase_app :: "mapref \<Rightarrow> appptr \<Rightarrow> ApplicationManager \<Rightarrow> fault + ApplicationManager" where
  "erase_app r p am =
     seq_fault (UpdateIterators (rets am r) (Uid (app_of am p)) am) (\<lambda>am1.
       Inr (upd_vec r (om_erase (Uid (app_of am p))) am1))"

definition insert_app :: "mapref \<Rightarrow> appptr \<Rightarrow> ApplicationManager \<Rightarrow> ApplicationManager" where
  "insert_app r p am = upd_vec r (om_insert (Uid (app_of am p)) p) am"

definition UpdateStatusMaps :: "appptr \<Rightarrow> State \<Rightarrow> State \<Rightarrow> ApplicationManager \<Rightarrow> fault + AMExitCode \<times> ApplicationManager" where
  "UpdateStatusMaps p prev next am =
     (if prev = next then Inr (AM_EXC_STATUS_CHANGE_NONE, am)
      else seq_fault (erase_app (STATUS prev) p (insert_app (STATUS next) p am)) (\<lambda>am'. Inr (AM_SUCCESS, am')))"

definition RemoveFromSyncMap_state :: "appptr \<Rightarrow> SyncState \<Rightarrow> ApplicationManager \<Rightarrow> fault + ApplicationManager" where
  "RemoveFromSyncMap_state p y am = (if y = SYNC_NONE then Inl OutOfRange else erase_app (SYNCQ y) p am)"

definition RemoveFromSyncMap :: "appptr \<Rightarrow> ApplicationManager \<Rightarrow> fault + ApplicationManager" where
  "RemoveFromSyncMap p am =
     (if \<not> Sched_Synching (app_of am p) then Inr am else RemoveFromSyncMap_state p (syncState (app_of am p)) am)"

definition AddToSyncMap_state :: "appptr \<Rightarrow> SyncState \<Rightarrow> ApplicationManager \<Rightarrow> fault + ApplicationManager" where
  "AddToSyncMap_state p y am =
     (if \<not> Sched_Synching (app_of am p) then Inr am
      else if y = SYNC_NONE then Inl OutOfRange else Inr (insert_app (SYNCQ y) p am))"

definition AddToSyncMap :: "appptr \<Rightarrow> ApplicationManager \<Rightarrow> fault + ApplicationManager" where
  "AddToSyncMap p am = AddToSyncMap_state p (syncState (app_of am p)) am"

definition ChangeEXCState :: "appptr \<Rightarrow> State \<Rightarrow> SyncState \<Rightarrow> ApplicationManager \<Rightarrow> fault + AMExitCode \<times> ApplicationManager" where
  "ChangeEXCState p next_state next_sync am =
     (let curr_state = sch_state (app_of am p); curr_sync = syncState (app_of am p) in
      if curr_state = next_state \<and> curr_sync = next_sync then Inr (AM_SUCCESS, am)
      else seq_fault (Sched_SetState next_state next_sync (app_of am p)) (\<lambda>(ret, a).
        let am1 = upd_app p a am in
        if ret \<noteq> APP_SUCCESS then Inr (AM_EXC_STATUS_CHANGE_FAILED, am1)
        else seq_fault (if curr_state = SYNC then RemoveFromSyncMap_state p curr_sync am1 else Inr am1) (\<lambda>am2.
               seq_fault (if next_state = SYNC then AddToSyncMap p am2 else Inr am2) (\<lambda>am3.
                 if curr_state \<noteq> sch_state (app_of am3 p) then UpdateStatusMaps p curr_state next_state am3
                 else Inr (AM_SUCCESS, am3)))))"

section \<open>Creation\<close>

definition LoadRecipe :: "u16 \<Rightarrow> (string \<Rightarrow> Recipe \<Rightarrow> RLExitCode \<times> Recipe) \<Rightarrow> string \<Rightarrow> bool \<Rightarrow> ResourceAccounter \<Rightarrow>
    ApplicationManager \<Rightarrow> fault + RLExitCode \<times> Recipe \<times> ApplicationManager" where
  "LoadRecipe levels rload recipe_name weak_load ra am =
     (case am_recipes am recipe_name of
        Some rcp \<Rightarrow> Inr (RL_SUCCESS, rcp, am)
      | None \<Rightarrow>
          let (result, rcp) = rload recipe_name (Recipe_new levels recipe_name) in
          if result = RL_WEAK_LOAD \<and> \<not> weak_load then Inr (result, rcp, am)
          else if result \<noteq> RL_SUCCESS \<and> result \<noteq> RL_WEAK_LOAD then Inr (result, rcp, am)
          else seq_fault (Recipe_Validate ra rcp) (\<lambda>rcp'.
                 Inr (RL_SUCCESS, rcp', am\<lparr>am_recipes := (am_recipes am)(recipe_name \<mapsto> rcp')\<rparr>)))"

text \<open>Enrolling a new application in the maps.\<close>

definition enroll :: "u16 \<Rightarrow> appptr \<Rightarrow> ApplicationManager \<Rightarrow> fault + ApplicationManager" where
  "enroll levels p am =
     (let a = app_of am p;
          am1 = insert_app UIDS p (am\<lparr>am_apps := am_apps am @ [(sch_pid a, p)]\<rparr>)
      in if \<not> sch_priority a < levels then Inl OutOfRange
         else Inr (insert_app (LANG (language a)) p
                (insert_app (STATUS (sch_state a)) p (insert_app (PRIO (sch_priority a)) p am1))))"

definition CreateEXC :: "u16 \<Rightarrow> (string \<Rightarrow> Recipe \<Rightarrow> RLExitCode \<times> Recipe) \<Rightarrow> string \<Rightarrow> u32 \<Rightarrow> u8 \<Rightarrow> string \<Rightarrow> Lang \<Rightarrow> u16 \<Rightarrow>
    bool \<Rightarrow> bool \<Rightarrow> ResourceAccounter \<Rightarrow> ApplicationManager \<Rightarrow> fault + appptr option \<times> ApplicationManager" where
  "CreateEXC levels rload name pid eid rcp_name lang prio weak_load cont ra am =
     (if \<not> prio < levels then Inl OutOfRange
      else
        let a = SetPriority levels prio (Application_new name pid eid lang cont) in
        seq_fault (LoadRecipe levels rload rcp_name weak_load ra am) (\<lambda>(rcp_result, rcp, am1).
          if rcp_result \<noteq> RL_SUCCESS then Inr (None, am1)
          else seq_fault (SetRecipe (Some rcp) (Uid a) ra a) (\<lambda>(app_result, a').
            if app_result \<noteq> APP_SUCCESS then Inr (None, am1)
            else let p = app_alloc am1
                 in seq_fault (enroll levels p ((upd_app p a' am1)\<lparr>app_alloc := p + 1\<rparr>)) (\<lambda>am2. Inr (Some p, am2)))))"

section \<open>Destruction\<close>

definition PriorityRemove :: "u16 \<Rightarrow> appptr \<Rightarrow> ApplicationManager \<Rightarrow> fault + ApplicationManager" where
  "PriorityRemove levels p am =
     (if \<not> sch_priority (app_of am p) < levels then Inl OutOfRange
      else erase_app (PRIO (sch_priority (app_of am p))) p am)"

definition StatusRemove :: "appptr \<Rightarrow> ApplicationManager \<Rightarrow> fault + ApplicationManager" where
  "StatusRemove p am = erase_app (STATUS (sch_state (app_of am p))) p am"

definition LangRemove :: "appptr \<Rightarrow> ApplicationManager \<Rightarrow> fault + ApplicationManager" where
  "LangRemove p am = erase_app (LANG (language (app_of am p))) p am"

fun apps_erase :: "(appptr \<Rightarrow> Application) \<Rightarrow> u32 \<Rightarrow> u8 \<Rightarrow> (u32 \<times> appptr) list \<Rightarrow> (u32 \<times> appptr) list" where
  "apps_erase objs pid eid [] = []"
| "apps_erase objs pid eid ((k, q) # xs) =
     (if k = pid \<and> exc_id (objs q) = eid then xs else (k, q) # apps_erase objs pid eid xs)"

definition AppsRemove :: "appptr \<Rightarrow> ApplicationManager \<Rightarrow> ApplicationManager" where
  "AppsRemove p am =
     am\<lparr>am_apps := apps_erase (app_objs am) (sch_pid (app_of am p)) (exc_id (app_of am p)) (am_apps am)\<rparr>"

definition DestroyEXC :: "u16 \<Rightarrow> appptr \<Rightarrow> ApplicationManager \<Rightarrow> fault + AMExitCode \<times> ApplicationManager" where
  "DestroyEXC levels p am =
     seq_fault (if sch_state (app_of am p) \<noteq> FINISHED then ChangeEXCState p FINISHED SYNC_NONE am
                else Inr (AM_SUCCESS, am)) (\<lambda>(_, am1).
       seq_fault (PriorityRemove levels p am1) (\<lambda>am2.
         seq_fault (LangRemove p am2) (\<lambda>am3.
           let am4 = AppsRemove p am3
           in Inr (AM_SUCCESS,
                am4\<lparr>cleanup_timeout := Some (100 - 10 * (ucast (AppsCount_of (STATUS FINISHED) am4) mod 5))\<rparr>))))"

definition DestroyEXC_exc :: "u16 \<Rightarrow> u32 \<Rightarrow> u8 \<Rightarrow> ApplicationManager \<Rightarrow> fault + AMExitCode \<times> ApplicationManager" where
  "DestroyEXC_exc levels pid eid am =
     (case GetApplication_pid pid eid am of
        None \<Rightarrow> Inr (AM_EXC_NOT_FOUND, am)
      | Some p \<Rightarrow> DestroyEXC levels p am)"

text \<open>The loop over the entries of a process. When the call has erased the entry the iterator is at,
  incrementing the iterator is undefined.\<close>

fun DestroyEXC_range :: "u16 \<Rightarrow> (u32 \<times> appptr) list \<Rightarrow> ApplicationManager \<Rightarrow> fault + AMExitCode \<times> ApplicationManager" where
  "DestroyEXC_range levels [] am = Inr (AM_SUCCESS, am)"
| "DestroyEXC_range levels (e # es) am =
     seq_fault (DestroyEXC levels (snd e) am) (\<lambda>(result, am1).
       if result \<noteq> AM_SUCCESS then Inr (result, am1)
       else if e \<notin> set (am_apps am1) then Inl Dangling
       else DestroyEXC_range levels es am1)"

definition DestroyEXC_pid :: "u16 \<Rightarrow> u32 \<Rightarrow> ApplicationManager \<Rightarrow> fault + AMExitCode \<times> ApplicationManager" where
  "DestroyEXC_pid levels pid am =
     DestroyEXC_range levels (filter (\<lambda>e. fst e = pid) (am_apps am)) am"

definition CleanupEXC :: "(Application \<Rightarrow> bool) \<Rightarrow> appptr \<Rightarrow> ApplicationManager \<Rightarrow> fault + AMExitCode \<times> ApplicationManager" where
  "CleanupEXC plm_release p am =
     seq_fault (StatusRemove p am) (\<lambda>am1.
       if sch_count (app_of am1 p) > 0 \<and> \<not> plm_release (app_of am1 p) then Inr (AM_PLAT_PROXY_ERROR, am1)
       else seq_fault (erase_app UIDS p am1) (\<lambda>am2. Inr (AM_SUCCESS, am2)))"

fun Cleanup_loop :: "nat \<Rightarrow> (Application \<Rightarrow> bool) \<Rightarrow> itptr \<Rightarrow> appptr option \<Rightarrow> ApplicationManager \<Rightarrow>
    fault + ApplicationManager option" where
  "Cleanup_loop fuel plm_release i None am = Inr (Some am)"
| "Cleanup_loop 0 plm_release i (Some p) am = Inr None"
| "Cleanup_loop (Suc fuel) plm_release i (Some p) am =
     seq_fault (CleanupEXC plm_release p am) (\<lambda>(_, am1).
       seq_fault (GetNext i am1) (\<lambda>(next, am2). Cleanup_loop fuel plm_release i next am2))"

definition Cleanup :: "(Application \<Rightarrow> bool) \<Rightarrow> itptr \<Rightarrow> ApplicationManager \<Rightarrow> fault + ApplicationManager option" where
  "Cleanup plm_release i am =
     seq_fault (GetFirst (STATUS FINISHED) i am) (\<lambda>(first, am1).
       Cleanup_loop (length (vecs am (STATUS FINISHED))) plm_release i first am1)"

end
