(* ===== verification/App_Scheduling.thy ===== *)
theory App_Scheduling
  imports App_Queues
begin

text \<open>
  The operations of \<open>ApplicationManager\<close> (\<^verbatim>\<open>bbque/application_manager.cc\<close>) on registered applications:
  constraints, run-time profiles, enabling and disabling, schedule requests, and synchronisation.

  Operations that book or release resources pass the state of the resource accounter along.
  Arguments that stand for the surroundings: \<open>alive\<close>, whether \<open>kill\<close> finds the process, \<open>sm_ready\<close>,
  whether the scheduler is ready (a call that would wait for it ends in \<open>WouldBlock\<close>), and \<open>beyond\<close>,
  what a read outside of a vector gives (theory \<open>Working_Mode\<close>).
\<close>

section \<open>Constraints\<close>

fun set_constraints_loop :: "appptr \<Rightarrow> RTLIB_Constraint list \<Rightarrow> ApplicationManager \<Rightarrow> fault + AMExitCode \<times> ApplicationManager" where
  "set_constraints_loop p [] am =
     Inr (if curr_inv (app_of am p) then AM_RESCHED_REQUIRED else AM_SUCCESS, am)"
| "set_constraints_loop p (con # cons) am =
     seq_fault (SetWorkingModeConstraint con (app_of am p)) (\<lambda>(result, a).
       let am1 = upd_app p a am
       in if result \<noteq> APP_SUCCESS then Inr (AM_ABORT, am1) else set_constraints_loop p cons am1)"

definition SetConstraintsEXC :: "u32 \<Rightarrow> u8 \<Rightarrow> RTLIB_Constraint list \<Rightarrow> ApplicationManager \<Rightarrow> fault + AMExitCode \<times> ApplicationManager" where
  "SetConstraintsEXC pid eid cons am =
     (case GetApplication_pid pid eid am of
        None \<Rightarrow> Inr (AM_EXC_NOT_FOUND, am)
      | Some p \<Rightarrow> set_constraints_loop p cons am)"

definition ClearConstraintsEXC :: "u32 \<Rightarrow> u8 \<Rightarrow> ApplicationManager \<Rightarrow> fault + AMExitCode \<times> ApplicationManager" where
  "ClearConstraintsEXC pid eid am =
     (case GetApplication_pid pid eid am of
        None \<Rightarrow> Inr (AM_EXC_NOT_FOUND, am)
      | Some p \<Rightarrow> seq_fault (ClearWorkingModeConstraints (app_of am p)) (\<lambda>a. Inr (AM_SUCCESS, upd_app p a am)))"

section \<open>Run-time profiles\<close>

definition CheckGoalGapEXC :: "AppProfile \<Rightarrow> AMExitCode" where
  "CheckGoalGapEXC prof = (if ggap_percent prof \<noteq> 0 then AM_RESCHED_REQUIRED else AM_SUCCESS)"

definition IsReschedulingRequired :: "u32 \<Rightarrow> u8 \<Rightarrow> AppProfile \<Rightarrow> ApplicationManager \<Rightarrow> AMExitCode" where
  "IsReschedulingRequired pid eid prof am =
     (case GetApplication_pid pid eid am of None \<Rightarrow> AM_EXC_NOT_FOUND | Some _ \<Rightarrow> CheckGoalGapEXC prof)"

definition update_gap_history :: "AppProfile \<Rightarrow> AppProfile" where
  "update_gap_history prof =
     (let h = gap_history prof in
      if ggap_percent prof < 0
      then let h1 = h\<lparr>lower_cpu := cpu_usage prof, lower_gap := ggap_percent prof, lower_age := 0\<rparr>
           in prof\<lparr>gap_history :=
                (if upper_cpu h1 \<le> lower_cpu h1 then h1\<lparr>upper_age := - 1\<rparr>
                 else if upper_age h1 \<ge> 0 then h1\<lparr>upper_age := upper_age h1 + 1\<rparr> else h1)\<rparr>
      else let h1 = h\<lparr>upper_cpu := cpu_usage prof, upper_gap := ggap_percent prof, upper_age := 0\<rparr>
           in prof\<lparr>gap_history :=
                (if lower_cpu h1 > upper_cpu h1 then h1\<lparr>lower_age := - 1\<rparr>
                 else if lower_age h1 \<ge> 0 then h1\<lparr>lower_age := lower_age h1 + 1\<rparr> else h1)\<rparr>)"

definition AM_SetRuntimeProfile :: "u32 \<Rightarrow> u8 \<Rightarrow> int \<Rightarrow> int \<Rightarrow> int \<Rightarrow> ApplicationManager \<Rightarrow> AMExitCode \<times> ApplicationManager" where
  "AM_SetRuntimeProfile pid eid gap cusage ctime am =
     (case GetApplication_pid pid eid am of
        None \<Rightarrow> (AM_ABORT, am)
      | Some p \<Rightarrow>
          let rp = fst (GetRuntimeProfile False (app_of am p));
              rp1 = rp\<lparr>ggap_percent_prev := ggap_percent rp, ggap_percent := gap, cpu_usage_prev := cpu_usage rp,
                       cpu_usage := (if cusage > 0 then cusage else cpu_usage_prediction rp)\<rparr>;
              rp2 = rp1\<lparr>cpu_usage := min cusage (cpu_usage_prediction rp1), ctime_ms := ctime, ap_is_valid := True\<rparr>;
              rp3 = update_gap_history rp2
          in (IsReschedulingRequired pid eid rp3 am, upd_app p (SetRuntimeProfile rp3 (app_of am p)) am))"

section \<open>Enabling and disabling\<close>

definition EnableEXC :: "appptr \<Rightarrow> ApplicationManager \<Rightarrow> fault + AMExitCode \<times> ApplicationManager" where
  "EnableEXC p am = ChangeEXCState p READY SYNC_NONE am"

definition EnableEXC_pid :: "u32 \<Rightarrow> u8 \<Rightarrow> ApplicationManager \<Rightarrow> fault + AMExitCode \<times> ApplicationManager" where
  "EnableEXC_pid pid eid am =
     (case GetApplication_pid pid eid am of None \<Rightarrow> Inr (AM_EXC_NOT_FOUND, am) | Some p \<Rightarrow> EnableEXC p am)"

type_synonym System = "ApplicationManager \<times> ResourceAccounter"

definition DisableEXC :: "bool \<Rightarrow> appptr \<Rightarrow> bool \<Rightarrow> System \<Rightarrow> fault + AMExitCode \<times> System" where
  "DisableEXC sm_ready p release sys =
     (case sys of (am, ra) \<Rightarrow>
        if \<not> sm_ready then Inl WouldBlock
        else seq_fault (ChangeEXCState p SYNC DISABLED am) (\<lambda>(ret, am1).
          if ret = AM_EXC_STATUS_CHANGE_NONE then Inr (ret, am1, ra)
          else if \<not> release then Inr (ret, am1, ra)
          else Inr (AM_SUCCESS, am1, ReleaseResources (Some (Uid (app_of am1 p))) 0 ra)))"

definition DisableEXC_pid :: "bool \<Rightarrow> u32 \<Rightarrow> u8 \<Rightarrow> bool \<Rightarrow> System \<Rightarrow> fault + AMExitCode \<times> System" where
  "DisableEXC_pid sm_ready pid eid release sys =
     (case GetApplication_pid pid eid (fst sys) of
        None \<Rightarrow> Inr (AM_ABORT, sys)
      | Some p \<Rightarrow> DisableEXC sm_ready p release sys)"

definition CheckEXC :: "u16 \<Rightarrow> bool \<Rightarrow> (u32 \<Rightarrow> bool) \<Rightarrow> appptr \<Rightarrow> bool \<Rightarrow> System \<Rightarrow> fault + bool \<times> System" where
  "CheckEXC levels sm_ready alive p release sys =
     (let a = app_of (fst sys) p; dead = (\<not> alive (sch_pid a)) in
      if Finished a then seq_fault (DestroyEXC levels p (fst sys)) (\<lambda>(_, am1). Inr (\<not> dead, am1, snd sys))
      else if dead \<and> release \<and> \<not> Disabled a
      then seq_fault (DisableEXC sm_ready p release sys) (\<lambda>(_, sys1). Inr (\<not> dead, sys1))
      else Inr (\<not> dead, sys))"

text \<open>The exit code for a missing application is returned as a truth value, that is, true.\<close>

definition CheckEXC_pid :: "u16 \<Rightarrow> bool \<Rightarrow> (u32 \<Rightarrow> bool) \<Rightarrow> u32 \<Rightarrow> u8 \<Rightarrow> bool \<Rightarrow> System \<Rightarrow> fault + bool \<times> System" where
  "CheckEXC_pid levels sm_ready alive pid eid release sys =
     (case GetApplication_pid pid eid (fst sys) of
        None \<Rightarrow> Inr (True, sys)
      | Some p \<Rightarrow> CheckEXC levels sm_ready alive p release sys)"

fun CheckActive_loop :: "nat \<Rightarrow> u16 \<Rightarrow> bool \<Rightarrow> (u32 \<Rightarrow> bool) \<Rightarrow> itptr \<Rightarrow> appptr option \<Rightarrow> System \<Rightarrow> fault + System option" where
  "CheckActive_loop fuel levels sm_ready alive i None sys = Inr (Some sys)"
| "CheckActive_loop 0 levels sm_ready alive i (Some p) sys = Inr None"
| "CheckActive_loop (Suc fuel) levels sm_ready alive i (Some p) sys =
     seq_fault (CheckEXC levels sm_ready alive p True sys) (\<lambda>(_, am1, ra1).
       seq_fault (GetNext i am1) (\<lambda>(next, am2). CheckActive_loop fuel levels sm_ready alive i next (am2, ra1)))"

definition CheckActive_of :: "State \<Rightarrow> u16 \<Rightarrow> bool \<Rightarrow> (u32 \<Rightarrow> bool) \<Rightarrow> itptr \<Rightarrow> System \<Rightarrow> fault + System option" where
  "CheckActive_of st levels sm_ready alive i sys =
     seq_fault (GetFirst (STATUS st) i (fst sys)) (\<lambda>(first, am1).
       CheckActive_loop (length (vecs (fst sys) (STATUS st))) levels sm_ready alive i first (am1, snd sys))"

definition CheckActiveEXCs :: "u16 \<Rightarrow> bool \<Rightarrow> (u32 \<Rightarrow> bool) \<Rightarrow> itptr \<Rightarrow> System \<Rightarrow> fault + System option" where
  "CheckActiveEXCs levels sm_ready alive i sys =
     seq_fault (CheckActive_of READY levels sm_ready alive i sys) (\<lambda>res.
       case res of None \<Rightarrow> Inr None | Some sys1 \<Rightarrow> CheckActive_of RUNNING levels sm_ready alive i sys1)"

section \<open>Scheduling\<close>

definition SetForSynchronization :: "appptr \<Rightarrow> SyncState \<Rightarrow> ApplicationManager \<Rightarrow> fault + AMExitCode \<times> ApplicationManager" where
  "SetForSynchronization p next_sync am =
     (if next_sync = SYNC_NONE then Inr (AM_ABORT, am)
      else seq_fault (ChangeEXCState p SYNC next_sync am) (\<lambda>(_, am1).
        Inr (if Sched_Synching (app_of am1 p) then AM_SUCCESS else AM_ABORT, am1)))"

definition Unschedule :: "appptr \<Rightarrow> ApplicationManager \<Rightarrow> fault + AMExitCode \<times> ApplicationManager" where
  "Unschedule p am =
     (if sch_state (app_of am p) = READY \<or> Blocking (app_of am p) then Inr (AM_SUCCESS, am)
      else SetForSynchronization p BLOCKED am)"

definition NoSchedule :: "appptr \<Rightarrow> ApplicationManager \<Rightarrow> fault + AMExitCode \<times> ApplicationManager" where
  "NoSchedule p am = ChangeEXCState p SYNC BLOCKED am"

definition Reschedule :: "int \<Rightarrow> appptr \<Rightarrow> awmptr \<Rightarrow> ApplicationManager \<Rightarrow> fault + AMExitCode \<times> ApplicationManager" where
  "Reschedule mx p w am =
     (if sch_state (app_of am p) = READY then SetForSynchronization p STARTING am
      else if sch_state (app_of am p) \<noteq> RUNNING then Inr (AM_ABORT, am)
      else seq_fault (NextSyncState mx w (app_of am p)) (\<lambda>next_sync.
             if next_sync = SYNC_NONE then Inr (AM_SUCCESS, am) else SetForSynchronization p next_sync am))"

text \<open>Changing a working mode of an application.\<close>

definition upd_awm :: "appptr \<Rightarrow> awmptr \<Rightarrow> WorkingMode \<Rightarrow> ApplicationManager \<Rightarrow> ApplicationManager" where
  "upd_awm p w wm am = upd_app p ((app_of am p)\<lparr>awm_objs := (awm_objs (app_of am p))(w := wm)\<rparr>) am"

definition ScheduleRequest :: "(nat \<Rightarrow> AssignMap option) \<Rightarrow> int \<Rightarrow> appptr \<Rightarrow> awmptr option \<Rightarrow> RViewToken \<Rightarrow> nat \<Rightarrow> System \<Rightarrow>
    fault + AMExitCode \<times> System" where
  "ScheduleRequest beyond mx p awm_ptr status_view b_refn sys =
     (case sys of (am, ra) \<Rightarrow>
      case awm_ptr of
        None \<Rightarrow> Inr (AM_AWM_NULL, am, ra)
      | Some w \<Rightarrow>
          let a = app_of am p in
          if Blocking a
          then seq_fault (ChangeEXCState p (preSyncState a) SYNC_NONE am) (\<lambda>(_, am1). Inr (AM_APP_BLOCKING, am1, ra))
          else if Disabled a then Inr (AM_APP_DISABLED, am, ra)
          else seq_fault (BookResources (Some (Uid a)) (GetSchedResourceBinding b_refn (awm_objs a w)) status_view ra)
            (\<lambda>(ra_result, ra1).
               if ra_result \<noteq> RA_SUCCESS
               then seq_fault (Unschedule p am) (\<lambda>(_, am1). Inr (AM_AWM_NOT_SCHEDULABLE, am1, ra1))
               else seq_fault (SetResourceBinding beyond mx status_view b_refn ra1 (awm_objs a w)) (\<lambda>(_, ra2, wm).
                 seq_fault (Reschedule mx p w (upd_awm p w wm am)) (\<lambda>(ret, am1).
                   if ret \<noteq> AM_SUCCESS
                   then Inr (ret, upd_awm p w (ClearResourceBinding mx (awm_objs (app_of am1 p) w)) am1,
                             ReleaseResources (Some (Uid a)) status_view ra2)
                   else seq_fault (App_SetNextAWM (Some w) (app_of am1 p)) (\<lambda>a1.
                          Inr (AM_SUCCESS, upd_app p a1 am1, ra2))))))"

definition ScheduleRequestAsPrev :: "appptr \<Rightarrow> RViewToken \<Rightarrow> System \<Rightarrow> fault + AMExitCode \<times> System" where
  "ScheduleRequestAsPrev p status_view sys =
     (case sys of (am, ra) \<Rightarrow>
        let a = app_of am p in
        if \<not> Running a then Inr (AM_EXC_INVALID_STATUS, am, ra)
        else case awm a of
          None \<Rightarrow> Inl NullDeref
        | Some w \<Rightarrow>
            seq_fault (BookResources (Some (Uid a)) (sync_bindings (awm_objs a w)) status_view ra) (\<lambda>(ra_result, ra1).
              if ra_result \<noteq> RA_SUCCESS then Inr (AM_AWM_NOT_SCHEDULABLE, am, ra1)
              else seq_fault (App_SetNextAWM (Some w) a) (\<lambda>a1. Inr (AM_SUCCESS, upd_app p a1 am, ra1))))"

definition ScheduleRequestAbort :: "appptr \<Rightarrow> RViewToken \<Rightarrow> System \<Rightarrow> fault + AMExitCode \<times> System" where
  "ScheduleRequestAbort p status_view sys =
     (case sys of (am, ra) \<Rightarrow>
        let a = app_of am p in
        if next_awm a = None then Inr (AM_AWM_NULL, am, ra)
        else let ra1 = ReleaseResources (Some (Uid a)) status_view ra
             in seq_fault (Unschedule p am) (\<lambda>(ret, am1).
                  if ret = AM_SUCCESS
                  then seq_fault (App_SetNextAWM None (app_of am1 p)) (\<lambda>a1. Inr (ret, upd_app p a1 am1, ra1))
                  else Inr (ret, am1, ra1)))"

section \<open>Synchronisation\<close>

definition AM_SyncCommit :: "u16 \<Rightarrow> appptr \<Rightarrow> ApplicationManager \<Rightarrow> fault + AMExitCode \<times> ApplicationManager" where
  "AM_SyncCommit levels p am =
     (let curr_state = sch_state (app_of am p); curr_sync = syncState (app_of am p) in
      seq_fault (App_SyncCommit (app_of am p)) (\<lambda>(_, a).
        seq_fault (UpdateStatusMaps p curr_state (sch_state a) (upd_app p a am)) (\<lambda>(_, am1).
          seq_fault (RemoveFromSyncMap_state p curr_sync am1) (\<lambda>am2.
            if Finished (app_of am2 p)
            then seq_fault (DestroyEXC levels p am2) (\<lambda>(_, am3). Inr (AM_SUCCESS, am3))
            else Inr (AM_SUCCESS, am2)))))"

definition AM_SyncAbort :: "u16 \<Rightarrow> bool \<Rightarrow> (u32 \<Rightarrow> bool) \<Rightarrow> appptr \<Rightarrow> System \<Rightarrow> fault + System" where
  "AM_SyncAbort levels sm_ready alive p sys =
     seq_fault (CheckEXC levels sm_ready alive p False sys) (\<lambda>(is_alive, am1, ra1).
       seq_fault (ChangeEXCState p (if is_alive then READY else FINISHED) SYNC_NONE am1) (\<lambda>(_, am2). Inr (am2, ra1)))"

definition AM_SyncContinue :: "appptr \<Rightarrow> ApplicationManager \<Rightarrow> fault + AMExitCode \<times> ApplicationManager" where
  "AM_SyncContinue p am =
     (let a = app_of am p in
      if sch_state a \<noteq> RUNNING then Inr (AM_ABORT, am)
      else case next_awm a of
        None \<Rightarrow> Inr (AM_SUCCESS, am)
      | Some n \<Rightarrow>
          (case awm a of
             None \<Rightarrow> Inl NullDeref
           | Some c \<Rightarrow>
               if wm_id (awm_objs a c) \<noteq> wm_id (awm_objs a n) then Inr (AM_ABORT, am)
               else seq_fault (App_SyncContinue a) (\<lambda>(app_result, a1).
                 Inr (if app_result \<noteq> APP_SUCCESS then AM_ABORT else AM_SUCCESS, upd_app p a1 am))))"


section \<open>The placement of applications\<close>

lemma om_ok_insert [simp]: "om_ok m \<Longrightarrow> om_ok (om_insert k v m)"
  by (simp add: om_insert_def)

lemma om_find_insert [simp]:
  "om_ok m \<Longrightarrow> om_find (om_insert k v m) = (if om_find m k = None then (om_find m)(k \<mapsto> v) else om_find m)"
  by (simp add: om_insert_def fun_upd_def)

text \<open>Updating the iterators changes nothing else.\<close>

lemma UpdateIterators_only:
  "UpdateIterators is uid am = Inr am' \<Longrightarrow> \<exists>its. am' = am\<lparr>iters := its\<rparr>"
proof (induction "is" uid am rule: UpdateIterators.induct)
  case (1 uid am)
  then show ?case by (intro exI [of _ "iters am"]) simp
next
  case (2 i "is" uid am)
  then show ?case by (fastforce simp: upd_it_def split: option.splits if_splits elim!: seq_fault_InrE)
qed

lemma erase_app_result:
  assumes "erase_app r p am = Inr am'"
  obtains its where "am' = upd_vec r (om_erase (Uid (app_of am p))) (am\<lparr>iters := its\<rparr>)"
proof -
  obtain am1 where am1: "UpdateIterators (rets am r) (Uid (app_of am p)) am = Inr am1"
    "am' = upd_vec r (om_erase (Uid (app_of am p))) am1"
    using assms by (auto simp: erase_app_def elim!: seq_fault_InrE)
  with UpdateIterators_only [OF am1(1)] show thesis by (auto intro: that)
qed

abbreviation queue :: "ApplicationManager \<Rightarrow> mapref \<Rightarrow> AppUid \<Rightarrow> appptr option" where
  "queue am r u \<equiv> om_find (vecs am r) u"

text \<open>An application that is registered under its number is in the queue of its state, unless it is
  finished, and in no other; and in the queue of its synchronisation state exactly when it is
  being synchronised.\<close>

definition placed :: "ApplicationManager \<Rightarrow> AppUid \<Rightarrow> bool" where
  "placed am u \<longleftrightarrow>
     (case queue am UIDS u of
        None \<Rightarrow> (\<forall>s. queue am (STATUS s) u = None) \<and> (\<forall>y. queue am (SYNCQ y) u = None)
      | Some p \<Rightarrow>
          Uid (app_of am p) = u \<and> p < app_alloc am \<and>
          (sch_state (app_of am p) = SYNC \<longleftrightarrow> syncState (app_of am p) \<noteq> SYNC_NONE) \<and>
          (\<forall>s. s \<noteq> sch_state (app_of am p) \<longrightarrow> queue am (STATUS s) u = None) \<and>
          (queue am (STATUS (sch_state (app_of am p))) u = Some p \<or>
           sch_state (app_of am p) = FINISHED \<and> queue am (STATUS FINISHED) u = None) \<and>
          (\<forall>y. queue am (SYNCQ y) u =
             (if sch_state (app_of am p) = SYNC \<and> syncState (app_of am p) = y then Some p else None)))"

definition queues_ok :: "ApplicationManager \<Rightarrow> bool" where
  "queues_ok am \<longleftrightarrow> (\<forall>r. om_ok (vecs am r)) \<and> (\<forall>u. placed am u)"

definition registered :: "ApplicationManager \<Rightarrow> appptr \<Rightarrow> bool" where
  "registered am p \<longleftrightarrow> queue am UIDS (Uid (app_of am p)) = Some p"

lemma queues_ok_om: "queues_ok am \<Longrightarrow> om_ok (vecs am r)"
  by (simp add: queues_ok_def)

lemma queues_ok_placed: "queues_ok am \<Longrightarrow> placed am u"
  by (simp add: queues_ok_def)

lemma queues_ok_uid: "queues_ok am \<Longrightarrow> queue am UIDS u = Some p \<Longrightarrow> Uid (app_of am p) = u \<and> p < app_alloc am"
  using queues_ok_placed [of am u] by (simp add: placed_def)

lemma registered_uid: "queues_ok am \<Longrightarrow> queue am UIDS u = Some p \<Longrightarrow> registered am p"
  using queues_ok_uid [of am u p] by (simp add: registered_def)

text \<open>An operation on one application: other applications and the entries of other numbers stay.\<close>

definition local_change :: "appptr \<Rightarrow> ApplicationManager \<Rightarrow> ApplicationManager \<Rightarrow> bool" where
  "local_change p am am' \<longleftrightarrow>
     (\<forall>q. q \<noteq> p \<longrightarrow> app_of am' q = app_of am q) \<and> app_alloc am' = app_alloc am \<and> (\<forall>r. om_ok (vecs am' r)) \<and>
     (\<forall>r u. u \<noteq> Uid (app_of am p) \<longrightarrow> queue am' r u = queue am r u)"

lemma placed_cong:
  assumes "\<forall>r. queue am' r u = queue am r u" "\<forall>q. queue am UIDS u = Some q \<longrightarrow> app_of am' q = app_of am q"
    "app_alloc am \<le> app_alloc am'" "placed am u"
  shows "placed am' u"
  using assms by (cases "queue am UIDS u") (auto simp: placed_def)

lemma local_change_placed:
  assumes "queues_ok am" "local_change p am am'" "placed am' (Uid (app_of am p))"
  shows "queues_ok am'"
  unfolding queues_ok_def
proof (intro conjI allI)
  show "om_ok (vecs am' r)" for r using assms(2) by (simp add: local_change_def)
  show "placed am' u" for u
  proof (cases "u = Uid (app_of am p)")
    case False
    have "app_of am' q = app_of am q" if "queue am UIDS u = Some q" for q
      using assms(2) False queues_ok_uid [OF assms(1) that] by (cases "q = p") (auto simp: local_change_def)
    with False assms(2) show ?thesis
      by (intro placed_cong [of am' u am]) (auto simp: local_change_def queues_ok_placed [OF assms(1)])
  qed (use assms(3) in simp)
qed

text \<open>Changes that the placement does not see.\<close>

lemma queues_ok_upd_app:
  assumes "queues_ok am" "Uid a = Uid (app_of am p)" "sch_state a = sch_state (app_of am p)"
    "syncState a = syncState (app_of am p)"
  shows "queues_ok (upd_app p a am)"
proof -
  have "placed (upd_app p a am) u" for u
    using queues_ok_placed [OF assms(1), of u] assms(2-4)
    by (cases "queue am UIDS u") (auto simp: placed_def upd_app_def)
  then show ?thesis using assms(1) by (simp add: queues_ok_def upd_app_def)
qed

lemma queues_ok_irrelevant:
  assumes "queues_ok am" "app_objs am' = app_objs am" "app_alloc am' = app_alloc am"
    "\<forall>r. om_ok (vecs am' r)" "vecs am' UIDS = vecs am UIDS"
    "\<forall>s. vecs am' (STATUS s) = vecs am (STATUS s)" "\<forall>y. vecs am' (SYNCQ y) = vecs am (SYNCQ y)"
  shows "queues_ok am'"
proof -
  have "placed am' u" for u
    using queues_ok_placed [OF assms(1), of u] assms(2,3,5-7)
    by (cases "queue am UIDS u") (simp_all add: placed_def)
  then show ?thesis using assms(4) by (simp add: queues_ok_def)
qed


text \<open>What erasing and inserting do to the objects and the entries.\<close>

definition same_objs :: "ApplicationManager \<Rightarrow> ApplicationManager \<Rightarrow> bool" where
  "same_objs am am' \<longleftrightarrow> app_objs am' = app_objs am \<and> app_alloc am' = app_alloc am \<and>
     ((\<forall>r. om_ok (vecs am r)) \<longrightarrow> (\<forall>r. om_ok (vecs am' r)))"

lemma erase_app_queues:
  assumes "erase_app r p am = Inr am'"
  shows "same_objs am am'"
    "queue am' r' v = (if r' = r \<and> v = Uid (app_of am p) then None else queue am r' v)"
proof -
  obtain its where e: "am' = upd_vec r (om_erase (Uid (app_of am p))) (am\<lparr>iters := its\<rparr>)"
    by (rule erase_app_result [OF assms])
  show "same_objs am am'" "queue am' r' v = (if r' = r \<and> v = Uid (app_of am p) then None else queue am r' v)"
    unfolding e by (simp_all add: same_objs_def upd_vec_def)
qed

lemma insert_app_queues:
  assumes "\<forall>r. om_ok (vecs am r)"
  shows "same_objs am (insert_app r p am)"
    "queue (insert_app r p am) r' v =
       (if r' = r \<and> v = Uid (app_of am p) \<and> queue am r v = None then Some p else queue am r' v)"
  using assms by (auto simp: same_objs_def insert_app_def upd_vec_def)

lemma same_objs_trans: "same_objs am am1 \<Longrightarrow> same_objs am1 am2 \<Longrightarrow> same_objs am am2"
  by (simp add: same_objs_def)

lemma same_objs_refl [simp]: "same_objs am am"
  by (simp add: same_objs_def)

lemma UpdateStatusMaps_queues:
  assumes "UpdateStatusMaps p prev nxt am = Inr (e, am')" "\<forall>r. om_ok (vecs am r)"
    "prev \<noteq> nxt \<Longrightarrow> queue am (STATUS nxt) (Uid (app_of am p)) = None"
  shows "same_objs am am'"
    "queue am' r v =
       (if prev \<noteq> nxt \<and> v = Uid (app_of am p) \<and> r = STATUS nxt then Some p
        else if prev \<noteq> nxt \<and> v = Uid (app_of am p) \<and> r = STATUS prev then None
        else queue am r v)"
proof -
  note ins = insert_app_queues [OF assms(2), of "STATUS nxt" p]
  show "same_objs am am'" "queue am' r v =
       (if prev \<noteq> nxt \<and> v = Uid (app_of am p) \<and> r = STATUS nxt then Some p
        else if prev \<noteq> nxt \<and> v = Uid (app_of am p) \<and> r = STATUS prev then None
        else queue am r v)"
  proof (atomize (full), cases "prev = nxt")
    case False
    then have e: "erase_app (STATUS prev) p (insert_app (STATUS nxt) p am) = Inr am'"
      using assms(1) by (auto simp: UpdateStatusMaps_def elim!: seq_fault_InrE)
    have u: "Uid (app_of (insert_app (STATUS nxt) p am) p) = Uid (app_of am p)"
      using ins(1) by (simp add: same_objs_def)
    show "same_objs am am' \<and> queue am' r v =
       (if prev \<noteq> nxt \<and> v = Uid (app_of am p) \<and> r = STATUS nxt then Some p
        else if prev \<noteq> nxt \<and> v = Uid (app_of am p) \<and> r = STATUS prev then None
        else queue am r v)"
      using same_objs_trans [OF ins(1) erase_app_queues(1) [OF e]] erase_app_queues(2) [OF e, of r v] ins(2) [of r v] u
        assms(3) False by auto
  qed (use assms(1) in \<open>simp add: UpdateStatusMaps_def\<close>)
qed

text \<open>The transition as a whole, when it succeeds: the entries of the application that it leaves.\<close>

lemma ChangeEXCState_success:
  assumes "queues_ok am" "registered am p" "ChangeEXCState p ns ny am = Inr (e, am')"
    "\<not> (sch_state (app_of am p) = ns \<and> syncState (app_of am p) = ny)"
    "Sched_SetState ns ny (app_of am p) = Inr (APP_SUCCESS, a)"
  shows "app_objs am' = (app_objs am)(p := a) \<and> app_alloc am' = app_alloc am \<and> (\<forall>r. om_ok (vecs am' r)) \<and>
    (\<forall>r v. v \<noteq> Uid (app_of am p) \<longrightarrow> queue am' r v = queue am r v) \<and>
    queue am' UIDS (Uid (app_of am p)) = Some p \<and>
    (\<forall>y. queue am' (SYNCQ y) (Uid (app_of am p)) = (if ns = SYNC \<and> ny = y then Some p else None)) \<and>
    (\<forall>s. queue am' (STATUS s) (Uid (app_of am p)) =
       (if sch_state (app_of am p) = ns then queue am (STATUS s) (Uid (app_of am p))
        else if s = ns then Some p else None))"
proof -
  let ?a = "app_of am p" and ?u = "Uid (app_of am p)" and ?am1 = "upd_app p a am"
  have fin: "sch_state a = ns" "syncState a = ny" by (rule Sched_SetState_result [OF assms(5)])+
  have ua: "Uid a = ?u"
    using assms(5) by (auto simp: Uid_def elim!: Sched_SetState_cases)
  have reg: "queue am UIDS ?u = Some p" using assms(2) by (simp add: registered_def)
  note pl = queues_ok_placed [OF assms(1), of ?u, unfolded placed_def reg option.case]
  have ok1: "\<forall>r. om_ok (vecs ?am1 r)" using assms(1) by (simp add: upd_app_def queues_ok_def)
  have q1: "queue ?am1 r v = queue am r v" "app_of ?am1 p = a" for r v by (simp_all add: upd_app_def)
  obtain am2 am3 where am2: "(if sch_state ?a = SYNC then RemoveFromSyncMap_state p (syncState ?a) ?am1 else Inr ?am1) = Inr am2"
    and am3: "(if ns = SYNC then AddToSyncMap p am2 else Inr am2) = Inr am3"
    and fin': "(if sch_state ?a \<noteq> sch_state (app_of am3 p) then UpdateStatusMaps p (sch_state ?a) ns am3
                else Inr (AM_SUCCESS, am3)) = Inr (e, am')"
  proof -
    have "seq_fault (if sch_state ?a = SYNC then RemoveFromSyncMap_state p (syncState ?a) ?am1 else Inr ?am1) (\<lambda>am2.
        seq_fault (if ns = SYNC then AddToSyncMap p am2 else Inr am2) (\<lambda>am3.
          if sch_state ?a \<noteq> sch_state (app_of am3 p) then UpdateStatusMaps p (sch_state ?a) ns am3
          else Inr (AM_SUCCESS, am3))) = Inr (e, am')"
      using assms(3) unfolding ChangeEXCState_def Let_def if_not_P [OF assms(4)] assms(5) by simp
    then show thesis by (elim seq_fault_InrE) (rule that)
  qed
  have s2: "same_objs ?am1 am2" and
    q2: "queue am2 r v = (if sch_state ?a = SYNC \<and> r = SYNCQ (syncState ?a) \<and> v = ?u then None else queue am r v)" for r v
    using am2 erase_app_queues [of "SYNCQ (syncState ?a)" p ?am1 am2] q1 ua
    by (auto simp: RemoveFromSyncMap_state_def split: if_splits)
  have o2: "app_of am2 p = a" "\<forall>r. om_ok (vecs am2 r)" using s2 ok1 by (simp_all add: same_objs_def q1(2))
  have y2: "queue am2 (SYNCQ y) ?u = None" for y using pl by (simp add: q2)
  have s3: "same_objs am2 am3" and
    q3: "queue am3 r v = (if ns = SYNC \<and> r = SYNCQ ny \<and> v = ?u then Some p else queue am2 r v)" for r v
    using am3 insert_app_queues [OF o2(2), of "SYNCQ ny" p] o2(1) ua y2 fin
    by (auto simp: AddToSyncMap_def AddToSyncMap_state_def Sched_Synching_def split: if_splits)
  have o3: "app_of am3 p = a" "\<forall>r. om_ok (vecs am3 r)" using s3 o2 by (simp_all add: same_objs_def)
  have st3: "queue am3 (STATUS s) v = queue am (STATUS s) v" "queue am3 UIDS v = queue am UIDS v" for s v
    by (simp_all add: q3 q2)
  show ?thesis
  proof (cases "sch_state ?a = ns")
    case True
    then have "am' = am3" using fin' o3(1) fin by simp
    then show ?thesis using True s2 s3 o3(2) st3 q3 q2 y2 reg by (simp add: same_objs_def upd_app_def)
  next
    case False
    then have U: "UpdateStatusMaps p (sch_state ?a) ns am3 = Inr (e, am')" using fin' o3(1) fin by simp
    have "queue am3 (STATUS ns) (Uid (app_of am3 p)) = None" using pl False by (simp add: st3 o3(1) ua)
    note us = UpdateStatusMaps_queues [OF U o3(2) this]
    have "queue am' (STATUS s) ?u = (if s = ns then Some p else None)" for s
      using us(2) [of "STATUS s" ?u] False pl by (auto simp: o3(1) ua st3)
    then show ?thesis using False us s2 s3 o3 st3 q3 q2 y2 reg by (simp add: same_objs_def upd_app_def ua)
  qed
qed


text \<open>An operation that keeps the placement and the registration of the application it works on.\<close>

definition keeps_queues :: "appptr \<Rightarrow> ApplicationManager \<Rightarrow> ApplicationManager \<Rightarrow> bool" where
  "keeps_queues p am am' \<longleftrightarrow>
     (queues_ok am \<longrightarrow> registered am p \<longrightarrow>
      queues_ok am' \<and> registered am' p \<and> Uid (app_of am' p) = Uid (app_of am p))"

lemma keeps_queues_refl [simp]: "keeps_queues p am am"
  by (simp add: keeps_queues_def)

lemma keeps_queues_trans: "keeps_queues p am am1 \<Longrightarrow> keeps_queues p am1 am2 \<Longrightarrow> keeps_queues p am am2"
  by (simp add: keeps_queues_def)

lemma Sched_SetState_outcome:
  assumes "Sched_SetState ns ny s = Inr (ret, a)"
  shows "ret = APP_SUCCESS \<and> sch_state a = ns \<and> syncState a = ny \<and> (ns = SYNC \<longleftrightarrow> ny \<noteq> SYNC_NONE) \<or>
    ret = APP_SYNC_NOT_EXP \<and> a = s"
  using assms by (rule Sched_SetState_cases) auto

lemma Sched_SetState_Uid: "Sched_SetState ns ny s = Inr (ret, a) \<Longrightarrow> Uid a = Uid s"
  by (auto simp: Uid_def elim!: Sched_SetState_cases)

lemma ChangeEXCState_keeps:
  assumes "ChangeEXCState p ns ny am = Inr (e, am')"
  shows "keeps_queues p am am'"
  unfolding keeps_queues_def
proof (intro impI)
  assume ok: "queues_ok am" and reg: "registered am p"
  let ?a = "app_of am p" and ?u = "Uid (app_of am p)"
  consider (none) "am' = am" | (moved) a where "\<not> (sch_state ?a = ns \<and> syncState ?a = ny)"
    "Sched_SetState ns ny ?a = Inr (APP_SUCCESS, a)"
  proof (cases "sch_state ?a = ns \<and> syncState ?a = ny")
    case False
    note run = assms [unfolded ChangeEXCState_def Let_def if_not_P [OF False]]
    show thesis
    proof (cases "Sched_SetState ns ny ?a")
      case (Inr r)
      obtain ret a where r: "r = (ret, a)" by (cases r)
      show thesis
      proof (cases "ret = APP_SUCCESS")
        case True
        then show thesis using moved [OF False] Inr r by simp
      next
        case rejected: False
        then have "a = ?a" using Sched_SetState_outcome [OF Inr [unfolded r]] by simp
        then show thesis using none run rejected unfolding Inr r by (simp add: upd_app_def)
      qed
    qed (use run in simp)
  qed (use assms none in \<open>simp add: ChangeEXCState_def Let_def\<close>)
  then show "queues_ok am' \<and> registered am' p \<and> Uid (app_of am' p) = ?u"
  proof cases
    case none
    then show ?thesis using ok reg by simp
  next
    case (moved a)
    note s = ChangeEXCState_success [OF ok reg assms moved]
    have a: "sch_state a = ns" "syncState a = ny" "ns = SYNC \<longleftrightarrow> ny \<noteq> SYNC_NONE" "Uid a = ?u"
      using Sched_SetState_outcome [OF moved(2)] Sched_SetState_Uid [OF moved(2)] by simp_all
    have reg': "queue am UIDS ?u = Some p" using reg by (simp add: registered_def)
    note pl = queues_ok_placed [OF ok, of ?u, unfolded placed_def reg' option.case]
    have "local_change p am am'" using s by (simp add: local_change_def)
    moreover have "placed am' ?u" using s a pl by (auto simp: placed_def)
    ultimately have "queues_ok am'" by (rule local_change_placed [OF ok])
    then show ?thesis using s a by (simp add: registered_def)
  qed
qed

lemma upd_app_keeps:
  assumes "Uid a = Uid (app_of am p)" "sch_state a = sch_state (app_of am p)" "syncState a = syncState (app_of am p)"
  shows "keeps_queues p am (upd_app p a am)"
  using queues_ok_upd_app [OF _ assms] assms(1) by (simp add: keeps_queues_def registered_def upd_app_def)

lemma irrelevant_keeps:
  assumes "app_objs am' = app_objs am" "app_alloc am' = app_alloc am" "\<And>r. om_ok (vecs am r) \<Longrightarrow> om_ok (vecs am' r)"
    "vecs am' UIDS = vecs am UIDS"
    "\<forall>s. vecs am' (STATUS s) = vecs am (STATUS s)" "\<forall>y. vecs am' (SYNCQ y) = vecs am (SYNCQ y)"
  shows "keeps_queues p am am'"
  using queues_ok_irrelevant [of am am'] assms by (simp add: keeps_queues_def registered_def queues_ok_om)

lemma erase_other_keeps:
  assumes "erase_app r q am = Inr am'" "\<forall>s. r \<noteq> STATUS s" "\<forall>y. r \<noteq> SYNCQ y" "r \<noteq> UIDS"
  shows "keeps_queues p am am'"
proof -
  obtain its where e: "am' = upd_vec r (om_erase (Uid (app_of am q))) (am\<lparr>iters := its\<rparr>)"
    by (rule erase_app_result [OF assms(1)])
  show ?thesis unfolding e by (rule irrelevant_keeps) (use assms(2-4) in \<open>auto simp: upd_vec_def\<close>)
qed

lemma DestroyEXC_keeps:
  assumes "DestroyEXC levels p am = Inr (e, am')"
  shows "keeps_queues p am am'"
proof -
  obtain r am1 am2 am3 where s1: "(if sch_state (app_of am p) \<noteq> FINISHED then ChangeEXCState p FINISHED SYNC_NONE am
      else Inr (AM_SUCCESS, am)) = Inr (r, am1)" and s2: "PriorityRemove levels p am1 = Inr am2" and s3: "LangRemove p am2 = Inr am3"
    and s4: "am' = (AppsRemove p am3)\<lparr>cleanup_timeout :=
      Some (100 - 10 * (ucast (AppsCount_of (STATUS FINISHED) (AppsRemove p am3)) mod 5))\<rparr>"
    using assms unfolding DestroyEXC_def Let_def by (elim seq_fault_InrE) (auto elim!: seq_fault_InrE)
  have "keeps_queues p am am1" using s1 by (auto split: if_splits intro: ChangeEXCState_keeps)
  moreover have "keeps_queues p am1 am2"
    using s2 by (auto simp: PriorityRemove_def split: if_splits intro: erase_other_keeps)
  moreover have "keeps_queues p am2 am3"
    using s3 by (auto simp: LangRemove_def intro: erase_other_keeps)
  moreover have "keeps_queues p am3 am'"
    unfolding s4 by (rule irrelevant_keeps) (simp_all add: AppsRemove_def)
  ultimately show ?thesis by (blast intro: keeps_queues_trans)
qed


section \<open>Operations on applications and their place\<close>

text \<open>What the placement sees of an application.\<close>

definition same_place :: "Application \<Rightarrow> Application \<Rightarrow> bool" where
  "same_place s s' \<longleftrightarrow> sch_state s' = sch_state s \<and> syncState s' = syncState s \<and> sch_pid s' = sch_pid s \<and> exc_id s' = exc_id s"

named_theorems place

lemma same_place_refl [place, simp]: "same_place s s"
  by (simp add: same_place_def)

lemma same_place_trans: "same_place s s1 \<Longrightarrow> same_place s1 s2 \<Longrightarrow> same_place s s2"
  by (simp add: same_place_def)

lemma Finalize_place [place]: "FinalizeEnabledWorkingModes s = Inr s' \<Longrightarrow> same_place s s'"
  by (erule Finalize_result) (simp add: same_place_def sort_by_value_def)

lemma Update_place [place]: "UpdateEnabledWorkingModes s = Inr s' \<Longrightarrow> same_place s s'"
  unfolding UpdateEnabledWorkingModes_def by (drule Finalize_place) (simp add: same_place_def)

lemma Rebuild_place [place]: "RebuildEnabledWorkingModes s = Inr s' \<Longrightarrow> same_place s s'"
  unfolding RebuildEnabledWorkingModes_def
  by (elim seq_fault_InrE) (drule Finalize_place, simp add: same_place_def)

lemma bounds_place:
  "SetWorkingModesLowerBound c s = Inr s' \<Longrightarrow> same_place s s'" "SetWorkingModesUpperBound c s = Inr s' \<Longrightarrow> same_place s s'"
  "ClearWorkingModesLowerBound s = Inr s' \<Longrightarrow> same_place s s'" "ClearWorkingModesUpperBound s = Inr s' \<Longrightarrow> same_place s s'"
  by (auto simp: SetWorkingModesLowerBound_def SetWorkingModesUpperBound_def ClearWorkingModesLowerBound_def
      ClearWorkingModesUpperBound_def Let_def same_place_def elim!: seq_fault_InrE)

lemma AddConstraint_place: "AddWorkingModeConstraint con s = Inr (e, s') \<Longrightarrow> same_place s s'"
proof (cases "c_type con")
  case LOWER_BOUND
  assume "AddWorkingModeConstraint con s = Inr (e, s')"
  then have "same_place (if c_awm con > upp_id s then s\<lparr>upp_id := max_id s\<rparr> else s) s' \<or> s' = s"
    using LOWER_BOUND by (auto simp: AddWorkingModeConstraint_def Let_def split: if_splits elim!: seq_fault_InrE dest: bounds_place)
  then show ?thesis by (auto simp: same_place_def split: if_splits)
next
  case UPPER_BOUND
  assume "AddWorkingModeConstraint con s = Inr (e, s')"
  then have "same_place (if c_awm con < low_id s then s\<lparr>low_id := 0\<rparr> else s) s' \<or> s' = s"
    using UPPER_BOUND by (auto simp: AddWorkingModeConstraint_def Let_def split: if_splits elim!: seq_fault_InrE dest: bounds_place)
  then show ?thesis by (auto simp: same_place_def split: if_splits)
next
  case EXACT_VALUE
  assume "AddWorkingModeConstraint con s = Inr (e, s')"
  then show ?thesis
    using EXACT_VALUE by (auto simp: AddWorkingModeConstraint_def Let_def same_place_def split: if_splits elim!: seq_fault_InrE)
qed

lemma RemoveConstraint_place: "RemoveWorkingModeConstraint con s = Inr (e, s') \<Longrightarrow> same_place s s'"
  by (cases "c_type con")
    (auto simp: RemoveWorkingModeConstraint_def same_place_def [of s "s\<lparr>enabled_bset := _\<rparr>"] split: if_splits
      elim!: seq_fault_InrE dest: bounds_place)

lemma SetConstraint_place [place]: "SetWorkingModeConstraint con s = Inr (e, s') \<Longrightarrow> same_place s s'"
proof (cases "c_awm con > max_id s")
  case False
  assume "SetWorkingModeConstraint con s = Inr (e, s')"
  then have "seq_fault
     (case c_operation con of
        CONSTRAINT_REMOVE \<Rightarrow> RemoveWorkingModeConstraint con s
      | CONSTRAINT_ADD \<Rightarrow> AddWorkingModeConstraint con s)
     (\<lambda>(result, s1).
        if result = APP_WM_ENAB_UNCHANGED then Inr (APP_SUCCESS, s1)
        else seq_fault (RebuildEnabledWorkingModes s1) (\<lambda>s2. Inr (APP_SUCCESS, s2))) = Inr (e, s')"
    unfolding SetWorkingModeConstraint_def if_not_P [OF False] .
  then obtain r s1 where s1: "(case c_operation con of CONSTRAINT_REMOVE \<Rightarrow> RemoveWorkingModeConstraint con s
      | CONSTRAINT_ADD \<Rightarrow> AddWorkingModeConstraint con s) = Inr (r, s1)"
    "(if r = APP_WM_ENAB_UNCHANGED then Inr (APP_SUCCESS, s1)
      else seq_fault (RebuildEnabledWorkingModes s1) (\<lambda>s2. Inr (APP_SUCCESS, s2))) = Inr (e, s')"
    by (elim seq_fault_InrE) (auto split: prod.splits)
  have "same_place s s1" using s1(1) by (cases "c_operation con") (auto dest: AddConstraint_place RemoveConstraint_place)
  moreover have "same_place s1 s'" using s1(2) by (auto split: if_splits elim!: seq_fault_InrE dest: Rebuild_place)
  ultimately show ?thesis by (rule same_place_trans)
qed (simp add: SetWorkingModeConstraint_def)

lemma ClearConstraints_place [place]: "ClearWorkingModeConstraints s = Inr s' \<Longrightarrow> same_place s s'"
  unfolding ClearWorkingModeConstraints_def by (drule Rebuild_place) (simp add: same_place_def)

lemma SetResourceConstraint_place: "SetResourceConstraint p b v ra s = Inr (e, s') \<Longrightarrow> same_place s s'"
  by (auto simp: SetResourceConstraint_def Let_def same_place_def split: if_splits elim!: seq_fault_InrE dest!: Update_place)

lemma InitWorkingModes_loop_place:
  "InitWorkingModes_loop u ws is s = Inr s' \<Longrightarrow> same_place s s'"
proof (induction u ws "is" s rule: InitWorkingModes_loop.induct)
  case (2 u ws i "is" s)
  from "2.prems" obtain wm where wm: "i < length ws" "ws ! i = Some wm" by (auto split: if_splits option.splits)
  let ?s0 = "s\<lparr>awm_objs := (awm_objs s)(awm_alloc s := wm\<lparr>wm_owner := Some u\<rparr>), awm_alloc := awm_alloc s + 1\<rparr>"
  from "2.prems" wm obtain s1 where s1: "vect_put (wm_id wm) (awm_alloc s) ?s0 = Inr s1"
    "InitWorkingModes_loop u ws is (if wm_hidden wm then s1 else s1\<lparr>enabled_list := enabled_list s1 @ [awm_alloc s]\<rparr>) = Inr s'"
    by (auto simp: Let_def elim!: seq_fault_InrE)
  have "same_place s s1" using s1(1) by (auto simp: vect_put_def same_place_def split: if_splits)
  moreover have "same_place (if wm_hidden wm then s1 else s1\<lparr>enabled_list := enabled_list s1 @ [awm_alloc s]\<rparr>) s'"
    using "2.IH" [OF wm refl refl, of s1] s1 by simp
  ultimately show ?case by (auto simp: same_place_def split: if_splits)
qed simp

lemma InitResourceConstraints_place: "InitResourceConstraints cm ra s = Inr s' \<Longrightarrow> same_place s s'"
proof (induction cm ra s rule: InitResourceConstraints.induct)
  case (2 p c cm ra s)
  from "2.prems" obtain e1 s1 e2 s2 where
    s1: "(if rc_lower c > 0 then SetResourceConstraint p BT_LOWER_BOUND (rc_lower c) ra s else Inr (APP_SUCCESS, s)) = Inr (e1, s1)"
    and s2: "(if rc_upper c > 0 then SetResourceConstraint p BT_UPPER_BOUND (rc_upper c) ra s1 else Inr (APP_SUCCESS, s1)) = Inr (e2, s2)"
    and s3: "InitResourceConstraints cm ra s2 = Inr s'"
    by (auto elim!: seq_fault_InrE)
  have "same_place s s1" using s1 by (auto split: if_splits dest: SetResourceConstraint_place)
  moreover have "same_place s1 s2" using s2 by (auto split: if_splits dest: SetResourceConstraint_place)
  moreover have "same_place s2 s'" by (rule "2.IH" [OF s1 refl s2 refl s3])
  ultimately show ?case by (blast intro: same_place_trans)
qed simp

lemma SetRecipe_place:
  assumes "SetRecipe rcp u ra s = Inr (e, s')"
  shows "same_place s s'"
proof (cases rcp)
  case (Some r)
  with assms obtain s1 where s1: "InitWorkingModes u r (s\<lparr>app_recipe := Some r, sch_priority := ucast (rcp_priority r)\<rparr>) = Inr s1"
    "InitResourceConstraints (constraints r) ra s1 = Inr s'" by (auto simp: SetRecipe_def elim!: seq_fault_InrE)
  have "same_place s s1" using s1(1)
    by (auto simp: InitWorkingModes_def Let_def sort_by_value_def same_place_def elim!: seq_fault_InrE
        dest!: InitWorkingModes_loop_place)
  with InitResourceConstraints_place [OF s1(2)] show ?thesis by (blast intro: same_place_trans)
qed (use assms in \<open>simp add: SetRecipe_def\<close>)

lemma App_SetNextAWM_place [place]: "App_SetNextAWM w s = Inr s' \<Longrightarrow> same_place s s'"
  by (auto simp: App_SetNextAWM_def same_place_def split: option.splits)

lemma App_SyncContinue_place [place]: "App_SyncContinue s = Inr (e, s') \<Longrightarrow> same_place s s'"
  by (auto simp: App_SyncContinue_def same_place_def split: option.splits)

lemma place_keeps: "same_place (app_of am p) a \<Longrightarrow> keeps_queues p am (upd_app p a am)"
  by (rule upd_app_keeps) (simp_all add: same_place_def Uid_def)


section \<open>Every operation keeps the queues\<close>

named_theorems keeps_queue

declare ChangeEXCState_keeps [keeps_queue] DestroyEXC_keeps [keeps_queue]

lemma set_constraints_keeps [keeps_queue]:
  "set_constraints_loop p cons am = Inr (e, am') \<Longrightarrow> keeps_queues p am am'"
proof (induction p cons am rule: set_constraints_loop.induct)
  case (2 p con cons am)
  from "2.prems" obtain r a where a: "SetWorkingModeConstraint con (app_of am p) = Inr (r, a)"
    "(if r \<noteq> APP_SUCCESS then Inr (AM_ABORT, upd_app p a am) else set_constraints_loop p cons (upd_app p a am)) = Inr (e, am')"
    by (auto simp: Let_def elim!: seq_fault_InrE)
  have k: "keeps_queues p am (upd_app p a am)" by (rule place_keeps [OF SetConstraint_place [OF a(1)]])
  show ?case
  proof (cases "r = APP_SUCCESS")
    case True
    then have "keeps_queues p (upd_app p a am) am'" using "2.IH" [OF a(1) refl refl] a(2) by simp
    with k show ?thesis by (rule keeps_queues_trans)
  qed (use a(2) k in simp)
qed simp

lemma Set_sync_keeps [keeps_queue]: "SetForSynchronization p y am = Inr (e, am') \<Longrightarrow> keeps_queues p am am'"
  by (auto simp: SetForSynchronization_def split: if_splits elim!: seq_fault_InrE dest: ChangeEXCState_keeps)

lemma Unschedule_keeps [keeps_queue]: "Unschedule p am = Inr (e, am') \<Longrightarrow> keeps_queues p am am'"
  by (auto simp: Unschedule_def split: if_splits dest: Set_sync_keeps)

lemma Reschedule_keeps [keeps_queue]: "Reschedule mx p w am = Inr (e, am') \<Longrightarrow> keeps_queues p am am'"
  by (auto simp: Reschedule_def split: if_splits elim!: seq_fault_InrE dest: Set_sync_keeps)

lemma upd_awm_keeps: "keeps_queues p am (upd_awm p w wm am)"
  unfolding upd_awm_def by (rule place_keeps) (simp add: same_place_def)

lemma DisableEXC_keeps [keeps_queue]: "DisableEXC sm p rel (am, ra) = Inr (e, am', ra') \<Longrightarrow> keeps_queues p am am'"
  by (auto simp: DisableEXC_def split: if_splits elim!: seq_fault_InrE dest: ChangeEXCState_keeps)

lemma CheckEXC_keeps [keeps_queue]:
  "CheckEXC levels sm alive p rel (am, ra) = Inr (e, am', ra') \<Longrightarrow> keeps_queues p am am'"
  by (auto simp: CheckEXC_def Let_def split: if_splits elim!: seq_fault_InrE dest: DestroyEXC_keeps DisableEXC_keeps)

lemma ScheduleRequest_keeps [keeps_queue]:
  assumes "ScheduleRequest beyond mx p wp v b (am, ra) = Inr (e, am', ra')"
  shows "keeps_queues p am am'"
proof (cases wp)
  case (Some w)
  let ?a = "app_of am p"
  show ?thesis
  proof (cases "Blocking ?a \<or> Disabled ?a")
    case True
    then show ?thesis using assms Some
      by (auto simp: ScheduleRequest_def Let_def split: if_splits elim!: seq_fault_InrE dest: ChangeEXCState_keeps)
  next
    case False
    then have nb: "\<not> Blocking ?a" "\<not> Disabled ?a" by simp_all
    note run = assms [unfolded ScheduleRequest_def prod.case Some option.case Let_def if_not_P [OF nb(1)] if_not_P [OF nb(2)]]
    from run obtain rr ra1 where
      bk: "BookResources (Some (Uid ?a)) (GetSchedResourceBinding b (awm_objs ?a w)) v ra = Inr (rr, ra1)"
      by (elim seq_fault_InrE) auto
    show ?thesis
    proof (cases "rr = RA_SUCCESS")
      case True
      from run [unfolded bk seq_fault.simps prod.case] True obtain wm ra2 ret am1 where
        r: "Reschedule mx p w (upd_awm p w wm am) = Inr (ret, am1)"
        and fin: "(if ret \<noteq> AM_SUCCESS
           then Inr (ret, upd_awm p w (ClearResourceBinding mx (awm_objs (app_of am1 p) w)) am1,
                     ReleaseResources (Some (Uid ?a)) v ra2)
           else seq_fault (App_SetNextAWM (Some w) (app_of am1 p)) (\<lambda>a1. Inr (AM_SUCCESS, upd_app p a1 am1, ra2)))
           = Inr (e, am', ra')"
        by (auto elim!: seq_fault_InrE)
      have "keeps_queues p am am1" by (rule keeps_queues_trans [OF upd_awm_keeps Reschedule_keeps [OF r]])
      moreover have "keeps_queues p am1 am'"
        using fin by (auto split: if_splits elim!: seq_fault_InrE intro: upd_awm_keeps dest!: App_SetNextAWM_place place_keeps)
      ultimately show ?thesis by (rule keeps_queues_trans)
    next
      case False
      with run [unfolded bk seq_fault.simps prod.case] show ?thesis
        by (auto elim!: seq_fault_InrE dest: Unschedule_keeps)
    qed
  qed
qed (use assms in \<open>simp add: ScheduleRequest_def\<close>)

lemma ScheduleRequestAsPrev_keeps [keeps_queue]:
  "ScheduleRequestAsPrev p v (am, ra) = Inr (e, am', ra') \<Longrightarrow> keeps_queues p am am'"
  by (auto simp: ScheduleRequestAsPrev_def Let_def split: if_splits option.splits elim!: seq_fault_InrE
      dest!: App_SetNextAWM_place place_keeps)

lemma ScheduleRequestAbort_keeps [keeps_queue]:
  assumes "ScheduleRequestAbort p v (am, ra) = Inr (e, am', ra')"
  shows "keeps_queues p am am'"
proof (cases "next_awm (app_of am p) = None")
  case False
  from assms False obtain ret am1 where "Unschedule p am = Inr (ret, am1)" "am' = am1"
    by (auto simp: ScheduleRequestAbort_def App_SetNextAWM_def Let_def split: if_splits elim!: seq_fault_InrE)
  then show ?thesis by (auto dest: Unschedule_keeps)
qed (use assms in \<open>simp add: ScheduleRequestAbort_def\<close>)

lemma AM_SyncContinue_keeps [keeps_queue]:
  "AM_SyncContinue p am = Inr (e, am') \<Longrightarrow> keeps_queues p am am'"
  by (auto simp: AM_SyncContinue_def Let_def split: if_splits option.splits elim!: seq_fault_InrE
      dest!: App_SyncContinue_place place_keeps)

lemma AM_SyncAbort_keeps [keeps_queue]:
  assumes "AM_SyncAbort levels sm alive p (am, ra) = Inr (am', ra')"
  shows "keeps_queues p am am'"
proof -
  from assms obtain b am1 ra1 e where "CheckEXC levels sm alive p False (am, ra) = Inr (b, am1, ra1)"
    "ChangeEXCState p (if b then READY else FINISHED) SYNC_NONE am1 = Inr (e, am')"
    by (auto simp: AM_SyncAbort_def elim!: seq_fault_InrE)
  then show ?thesis by (blast intro: keeps_queues_trans CheckEXC_keeps ChangeEXCState_keeps)
qed


lemma App_SyncCommit_result:
  assumes "App_SyncCommit s = Inr (e, a)" "sch_state s = SYNC" "syncState s \<noteq> SYNC_NONE"
  shows "syncState a = SYNC_NONE \<and> Uid a = Uid s \<and>
    (sch_state a = READY \<or> sch_state a = FINISHED \<or> sch_state a = RUNNING)"
proof -
  have gg: "Uid s1 = Uid s" if "reset_goal_gap s = Inr s1" for s1
    using that by (auto simp: reset_goal_gap_def Uid_def split: option.splits if_splits)
  have run: "syncState a = SYNC_NONE \<and> Uid a = Uid s \<and> sch_state a = RUNNING"
    if "seq_fault (reset_goal_gap s) (Sched_SetState RUNNING SYNC_NONE) = Inr (e, a)"
    using that gg by (auto simp: Uid_def elim!: seq_fault_InrE Sched_SetState_cases)
  show ?thesis
  proof (cases "syncState s")
    case BLOCKED
    with assms show ?thesis by (auto simp: App_SyncCommit_def Uid_def elim!: seq_fault_InrE Sched_SetState_cases)
  next
    case DISABLED
    with assms show ?thesis by (auto simp: App_SyncCommit_def Uid_def elim!: seq_fault_InrE Sched_SetState_cases)
  qed (use assms run in \<open>simp_all add: App_SyncCommit_def\<close>)
qed

lemma AM_SyncCommit_keeps [keeps_queue]:
  assumes "AM_SyncCommit levels p am = Inr (e, am')"
  shows "keeps_queues p am am'"
  unfolding keeps_queues_def
proof (intro impI)
  assume ok: "queues_ok am" and reg: "registered am p"
  let ?a = "app_of am p" and ?u = "Uid (app_of am p)"
  have reg': "queue am UIDS ?u = Some p" using reg by (simp add: registered_def)
  note pl = queues_ok_placed [OF ok, of ?u, unfolded placed_def reg' option.case]
  from assms obtain r a r1 am1 am2 where
    c: "App_SyncCommit ?a = Inr (r, a)"
    and u: "UpdateStatusMaps p (sch_state ?a) (sch_state a) (upd_app p a am) = Inr (r1, am1)"
    and d: "RemoveFromSyncMap_state p (syncState ?a) am1 = Inr am2"
    and f: "(if Finished (app_of am2 p) then seq_fault (DestroyEXC levels p am2) (\<lambda>(_, am3). Inr (AM_SUCCESS, am3))
             else Inr (AM_SUCCESS, am2)) = Inr (e, am')"
    by (auto simp: AM_SyncCommit_def Let_def elim!: seq_fault_InrE)
  have y: "syncState ?a \<noteq> SYNC_NONE" using d by (auto simp: RemoveFromSyncMap_state_def)
  then have st: "sch_state ?a = SYNC" using pl by simp
  have a: "syncState a = SYNC_NONE" "Uid a = ?u" "sch_state a \<noteq> SYNC"
    using App_SyncCommit_result [OF c st y] by auto
  have ok1: "\<forall>r. om_ok (vecs (upd_app p a am) r)" using ok by (simp add: upd_app_def queues_ok_def)
  have n: "queue (upd_app p a am) (STATUS (sch_state a)) (Uid (app_of (upd_app p a am) p)) = None"
    using pl a st by (simp add: upd_app_def)
  note us = UpdateStatusMaps_queues [OF u ok1 n]
  have o1: "app_objs am1 = (app_objs am)(p := a)" "app_alloc am1 = app_alloc am" "\<forall>r. om_ok (vecs am1 r)"
    using us(1) ok1 by (simp_all add: same_objs_def upd_app_def)
  have er: "erase_app (SYNCQ (syncState ?a)) p am1 = Inr am2" using d y by (simp add: RemoveFromSyncMap_state_def)
  note es = erase_app_queues [OF er]
  have o2: "app_objs am2 = (app_objs am)(p := a)" "app_alloc am2 = app_alloc am" "\<forall>r. om_ok (vecs am2 r)"
    using es(1) o1 by (simp_all add: same_objs_def)
  have q2: "queue am2 r v =
      (if v = ?u \<and> r = SYNCQ (syncState ?a) then None
       else if v = ?u \<and> r = STATUS (sch_state a) then Some p
       else if v = ?u \<and> r = STATUS SYNC then None else queue am r v)" for r v
  proof -
    have "queue am1 r v = (if v = ?u \<and> r = STATUS (sch_state a) then Some p
        else if v = ?u \<and> r = STATUS SYNC then None else queue am r v)"
      using us(2) [of r v] a st by (auto simp: upd_app_def)
    then show ?thesis using es(2) [of r v] a(2) by (auto simp: o1)
  qed
  have "local_change p am am2" using o2 q2 by (simp add: local_change_def)
  moreover have "placed am2 ?u" using pl a st q2 reg' o2 by (auto simp: placed_def)
  ultimately have "queues_ok am2" by (rule local_change_placed [OF ok])
  moreover have "registered am2 p" "Uid (app_of am2 p) = ?u" using q2 reg' o2 a by (simp_all add: registered_def)
  moreover have "keeps_queues p am2 am'" using f by (auto split: if_splits elim!: seq_fault_InrE dest: DestroyEXC_keeps)
  ultimately show "queues_ok am' \<and> registered am' p \<and> Uid (app_of am' p) = ?u" by (simp add: keeps_queues_def)
qed

text \<open>The cleanup of a finished application, which leaves the registry.\<close>

lemma CleanupEXC_queues:
  assumes "CleanupEXC plm p am = Inr (e, am')" "queues_ok am" "registered am p" "sch_state (app_of am p) = FINISHED"
  shows "queues_ok am'"
proof -
  let ?u = "Uid (app_of am p)"
  have reg: "queue am UIDS ?u = Some p" using assms(3) by (simp add: registered_def)
  note pl = queues_ok_placed [OF assms(2), of ?u, unfolded placed_def reg option.case]
  from assms(1) obtain am1 where s: "erase_app (STATUS FINISHED) p am = Inr am1"
    and f: "am' = am1 \<or> erase_app UIDS p am1 = Inr am'"
    using assms(4) by (auto simp: CleanupEXC_def StatusRemove_def split: if_splits elim!: seq_fault_InrE)
  note e1 = erase_app_queues [OF s]
  have o1: "app_objs am1 = app_objs am" "app_alloc am1 = app_alloc am" "\<forall>r. om_ok (vecs am1 r)"
    using e1(1) assms(2) by (simp_all add: same_objs_def queues_ok_def)
  have "local_change p am am1" using o1 e1(2) by (simp add: local_change_def)
  moreover have "placed am1 ?u" using pl reg assms(4) o1 by (auto simp: placed_def e1(2))
  ultimately have ok1: "queues_ok am1" by (rule local_change_placed [OF assms(2)])
  show ?thesis using f
  proof
    assume er: "erase_app UIDS p am1 = Inr am'"
    note e2 = erase_app_queues [OF er]
    have o2: "app_objs am' = app_objs am1" "app_alloc am' = app_alloc am1" "\<forall>r. om_ok (vecs am' r)"
      using e2(1) o1 by (simp_all add: same_objs_def)
    have "local_change p am1 am'" using o2 e2(2) by (simp add: local_change_def)
    moreover have "placed am' (Uid (app_of am1 p))" using pl assms(4) o1 by (simp add: placed_def e1(2) e2(2))
    ultimately show ?thesis by (rule local_change_placed [OF ok1])
  qed (use ok1 in simp)
qed

lemma CreateEXC_queues:
  assumes "CreateEXC levels rload name pid eid rcp lang prio weak cont ra am = Inr (po, am')"
    "queues_ok am" "queue am UIDS (Uid_of pid eid) = None"
  shows "queues_ok am'"
proof -
  let ?a0 = "SetPriority levels prio (Application_new name pid eid lang cont)"
  from assms(1) obtain rr rc am1 where l: "LoadRecipe levels rload rcp weak ra am = Inr (rr, rc, am1)"
    and rest: "am' = am1 \<or> (\<exists>a p. SetRecipe (Some rc) (Uid ?a0) ra ?a0 = Inr (APP_SUCCESS, a) \<and> p = app_alloc am1 \<and>
      enroll levels p ((upd_app p a am1)\<lparr>app_alloc := p + 1\<rparr>) = Inr am')"
    by (auto simp: CreateEXC_def Let_def split: if_splits elim!: seq_fault_InrE)
  have am1: "app_objs am1 = app_objs am" "app_alloc am1 = app_alloc am" "vecs am1 = vecs am"
    using l by (auto simp: LoadRecipe_def Let_def split: option.splits prod.splits if_splits elim!: seq_fault_InrE)
  have ok1: "queues_ok am1" by (rule queues_ok_irrelevant [OF assms(2)]) (use assms(2) in \<open>simp_all add: am1 queues_ok_def\<close>)
  show ?thesis using rest
  proof (elim disjE exE conjE)
    fix a p
    assume sr: "SetRecipe (Some rc) (Uid ?a0) ra ?a0 = Inr (APP_SUCCESS, a)" and p: "p = app_alloc am1"
      and en: "enroll levels p ((upd_app p a am1)\<lparr>app_alloc := p + 1\<rparr>) = Inr am'"
    let ?u = "Uid_of pid eid" and ?am2 = "(upd_app p a am1)\<lparr>app_alloc := p + 1\<rparr>"
    have a: "sch_state a = NEW" "syncState a = SYNC_NONE" "Uid a = ?u"
      using SetRecipe_place [OF sr] by (simp_all add: same_place_def SetPriority_def Application_new_def Uid_def)
    let ?am3 = "?am2\<lparr>am_apps := am_apps ?am2 @ [(sch_pid a, p)]\<rparr>"
    have am': "am' = insert_app (LANG (language a)) p (insert_app (STATUS NEW) p (insert_app (PRIO (sch_priority a)) p
        (insert_app UIDS p ?am3)))"
      using en a(1) by (auto simp: enroll_def Let_def upd_app_def split: if_splits)
    have ok3: "\<forall>r. om_ok (vecs ?am3 r)" using ok1 by (simp add: upd_app_def queues_ok_def)
    have none: "queue am1 (STATUS s) ?u = None" "queue am1 (SYNCQ y) ?u = None" "queue am1 UIDS ?u = None" for s y
      using queues_ok_placed [OF ok1, of ?u] assms(3) am1 by (simp_all add: placed_def)
    have obj: "app_objs am' = (app_objs am1)(p := a)" "app_alloc am' = p + 1"
      by (simp_all add: am' insert_app_def upd_vec_def upd_app_def)
    have oks: "\<forall>r. om_ok (vecs am' r)" using ok3 by (simp add: am' insert_app_def upd_vec_def)
    have q: "queue am' UIDS v = (if v = ?u then Some p else queue am1 UIDS v)"
      "queue am' (STATUS s) v = (if v = ?u \<and> s = NEW then Some p else queue am1 (STATUS s) v)"
      "queue am' (SYNCQ y) v = queue am1 (SYNCQ y) v" for v s y
      using ok3 none by (auto simp: am' insert_app_def upd_vec_def upd_app_def a(3))
    have "placed am' v" for v
    proof (cases "v = ?u")
      case True
      then show ?thesis using a none obj q by (simp add: placed_def)
    next
      case False
      have "app_of am' r = app_of am1 r" if "queue am1 UIDS v = Some r" for r
        using queues_ok_uid [OF ok1 that] obj p by simp
      then show ?thesis using queues_ok_placed [OF ok1, of v] q False obj p
        by (cases "queue am1 UIDS v") (auto simp: placed_def)
    qed
    then show ?thesis using oks by (simp add: queues_ok_def)
  qed (use ok1 in simp)
qed


section \<open>Runs of the application manager\<close>

text \<open>A step is a call of an operation that returns. Three conditions are on the callers. An
  application is created under a pair of process and execution context that no registered application
  has: \<open>CreateEXC\<close> does not check it (the last theorem of the file shows what happens otherwise), the run-time library of one process numbers its contexts. Operations on an
  application object are called on objects that the map of all applications holds. And
  \<open>CleanupEXC\<close> is called on applications that are \<open>FINISHED\<close>, as \<open>DestroyEXC\<close> leaves
  them. The accounter may change in any way in between.\<close>

inductive am_step :: "System \<Rightarrow> System \<Rightarrow> bool" where
  create: "CreateEXC levels rload name pid eid rcp lang prio weak cont ra am = Inr (po, am') \<Longrightarrow>
     GetApplication_pid pid eid am = None \<Longrightarrow> am_step (am, ra) (am', ra)"
| destroy: "registered am p \<Longrightarrow> DestroyEXC levels p am = Inr (e, am') \<Longrightarrow> am_step (am, ra) (am', ra)"
| cleanup: "registered am p \<Longrightarrow> Finished (app_of am p) \<Longrightarrow> CleanupEXC plm p am = Inr (e, am') \<Longrightarrow> am_step (am, ra) (am', ra)"
| constraints: "SetConstraintsEXC pid eid cons am = Inr (e, am') \<Longrightarrow> am_step (am, ra) (am', ra)"
| clear: "ClearConstraintsEXC pid eid am = Inr (e, am') \<Longrightarrow> am_step (am, ra) (am', ra)"
| profile: "AM_SetRuntimeProfile pid eid gap cusage ctime am = (e, am') \<Longrightarrow> am_step (am, ra) (am', ra)"
| enable: "registered am p \<Longrightarrow> EnableEXC p am = Inr (e, am') \<Longrightarrow> am_step (am, ra) (am', ra)"
| disable: "registered am p \<Longrightarrow> DisableEXC sm p rel (am, ra) = Inr (e, sys') \<Longrightarrow> am_step (am, ra) sys'"
| check: "registered am p \<Longrightarrow> CheckEXC levels sm alive p rel (am, ra) = Inr (b, sys') \<Longrightarrow> am_step (am, ra) sys'"
| schedule: "registered am p \<Longrightarrow> ScheduleRequest beyond mx p wp v b (am, ra) = Inr (e, sys') \<Longrightarrow> am_step (am, ra) sys'"
| as_prev: "registered am p \<Longrightarrow> ScheduleRequestAsPrev p v (am, ra) = Inr (e, sys') \<Longrightarrow> am_step (am, ra) sys'"
| abort: "registered am p \<Longrightarrow> ScheduleRequestAbort p v (am, ra) = Inr (e, sys') \<Longrightarrow> am_step (am, ra) sys'"
| unschedule: "registered am p \<Longrightarrow> Unschedule p am = Inr (e, am') \<Longrightarrow> am_step (am, ra) (am', ra)"
| no_schedule: "registered am p \<Longrightarrow> NoSchedule p am = Inr (e, am') \<Longrightarrow> am_step (am, ra) (am', ra)"
| commit: "registered am p \<Longrightarrow> AM_SyncCommit levels p am = Inr (e, am') \<Longrightarrow> am_step (am, ra) (am', ra)"
| sync_abort: "registered am p \<Longrightarrow> AM_SyncAbort levels sm alive p (am, ra) = Inr sys' \<Longrightarrow> am_step (am, ra) sys'"
| continue: "registered am p \<Longrightarrow> AM_SyncContinue p am = Inr (e, am') \<Longrightarrow> am_step (am, ra) (am', ra)"
| first: "GetFirst r i am = Inr (po, am') \<Longrightarrow> am_step (am, ra) (am', ra)"
| nxt: "GetNext i am = Inr (po, am') \<Longrightarrow> am_step (am, ra) (am', ra)"
| release: "am_step (am, ra) (Release_it i am, ra)"
| accounter: "am_step (am, ra) (am, ra')"

inductive_cases am_stepE: "am_step (am, ra) (am', ra')"

lemma keeps_queuesD:
  "keeps_queues p am am' \<Longrightarrow> queues_ok am \<Longrightarrow> registered am p \<Longrightarrow> queues_ok am'"
  by (simp add: keeps_queues_def)

lemma iterators_queues:
  assumes "app_objs am' = app_objs am" "app_alloc am' = app_alloc am" "vecs am' = vecs am" "queues_ok am"
  shows "queues_ok am'"
  by (rule queues_ok_irrelevant [OF assms(4)]) (use assms in \<open>simp_all add: queues_ok_def\<close>)

lemma Release_it_only: "app_objs (Release_it i am) = app_objs am" "app_alloc (Release_it i am) = app_alloc am"
  "vecs (Release_it i am) = vecs am"
  by (simp_all add: Release_it_def upd_it_def split: option.splits)

lemma GetFirst_only:
  assumes "GetFirst r i am = Inr (po, am')"
  shows "app_objs am' = app_objs am" "app_alloc am' = app_alloc am" "vecs am' = vecs am"
  using assms by (auto simp: GetFirst_def Let_def upd_it_def Retain_def split: if_splits elim!: seq_fault_InrE)

lemma GetNext_only:
  assumes "GetNext i am = Inr (po, am')"
  shows "app_objs am' = app_objs am" "app_alloc am' = app_alloc am" "vecs am' = vecs am"
  using assms by (auto simp: GetNext_def Let_def upd_it_def Release_it_only split: if_splits elim!: seq_fault_InrE)

lemma GetApplication_registered:
  "queues_ok am \<Longrightarrow> GetApplication_pid pid eid am = Some p \<Longrightarrow> registered am p"
  unfolding GetApplication_pid_def GetApplication_def by (rule registered_uid)

lemma am_step_queues:
  assumes "am_step (am, ra) (am', ra')" "queues_ok am"
  shows "queues_ok am'"
  using assms(1)
proof cases
  case create
  then show ?thesis using CreateEXC_queues assms(2) by (auto simp: GetApplication_pid_def GetApplication_def)
next
  case (cleanup p plm e)
  then show ?thesis using CleanupEXC_queues assms(2) by (auto simp: Finished_def)
next
  case (constraints pid eid cons e)
  then show ?thesis using assms(2)
    by (auto simp: SetConstraintsEXC_def split: option.splits intro: keeps_queuesD set_constraints_keeps GetApplication_registered)
next
  case (clear pid eid e)
  then show ?thesis using assms(2)
    by (auto simp: ClearConstraintsEXC_def split: option.splits elim!: seq_fault_InrE
        intro: keeps_queuesD place_keeps [OF ClearConstraints_place] GetApplication_registered)
next
  case (profile pid eid gap cusage ctime e)
  then show ?thesis using assms(2)
    by (auto simp: AM_SetRuntimeProfile_def Let_def SetRuntimeProfile_def split: option.splits
        intro!: queues_ok_upd_app simp: Uid_def)
next
  case (first r i po)
  then show ?thesis using GetFirst_only assms(2) by (blast intro: iterators_queues)
next
  case (nxt i po)
  then show ?thesis using GetNext_only assms(2) by (blast intro: iterators_queues)
next
  case (release i)
  then show ?thesis using Release_it_only assms(2) by (auto intro: iterators_queues)
next
  case accounter
  then show ?thesis using assms(2) by simp
qed (use assms(2) in \<open>auto simp: EnableEXC_def NoSchedule_def dest!: keeps_queue intro: keeps_queuesD\<close>)


lemma queues_ok_new: "queues_ok ApplicationManager_new"
  by (simp add: queues_ok_def placed_def ApplicationManager_new_def)

lemma am_reachable_queues:
  assumes "am_step\<^sup>*\<^sup>* (am, ra) (am', ra')" "queues_ok am"
  shows "queues_ok am'"
  using assms
proof (induction "(am', ra')" arbitrary: am' ra' rule: rtranclp_induct)
  case (step y)
  then show ?case by (cases y) (auto dest: am_step_queues)
qed simp

text \<open>C13: no application is lost between the queues. Take any state that the application manager
  reaches from its initial one by calls of its operations in which no application is created under a
  number that a registered one has, and only finished applications are cleaned up (\<open>am_step\<close>). There
  an application found under a number has that number; unless it is finished it is in the queue of
  its state and in no other queue of a state (a finished one waits for its clean-up, and nothing is
  claimed of its state queue); and it is in the queue of its synchronisation state exactly when its
  state is \<open>SYNC\<close>, and in no other.\<close>

theorem applications_stay_queued:
  assumes "am_step\<^sup>*\<^sup>* (ApplicationManager_new, ra) (am, ra')" "GetApplication u am = Some p"
  shows "Uid (app_of am p) = u \<and>
    (sch_state (app_of am p) \<noteq> FINISHED \<longrightarrow>
       (\<forall>s. queue am (STATUS s) u = (if s = sch_state (app_of am p) then Some p else None))) \<and>
    (\<forall>y. queue am (SYNCQ y) u =
       (if sch_state (app_of am p) = SYNC \<and> syncState (app_of am p) = y then Some p else None))"
proof -
  have "placed am u" by (rule queues_ok_placed [OF am_reachable_queues [OF assms(1) queues_ok_new]])
  with assms(2) show ?thesis by (auto simp: placed_def GetApplication_def)
qed

text \<open>An application that is created and enabled.\<close>

definition load_two :: "string \<Rightarrow> Recipe \<Rightarrow> RLExitCode \<times> Recipe" where
  "load_two name rcp = (RL_SUCCESS, recipe_two)"

lemma case_answer:
  assumes "case x of Inr (e, a) \<Rightarrow> P e a | Inl _ \<Rightarrow> False"
  shows "\<exists>e a. x = Inr (e, a) \<and> P e a"
  using assms by (auto split: sum.splits prod.splits)

lemma case_created:
  assumes "case x of Inr (Some p, a) \<Rightarrow> P p a | _ \<Rightarrow> False"
  shows "\<exists>p a. x = Inr (Some p, a) \<and> P p a"
  using assms by (cases x) (auto split: prod.splits option.splits)

lemma create_and_enable:
  "\<exists>am1 am2. CreateEXC 5 load_two ''demo'' 100 0 ''two'' RTLIB_LANG_CPP 3 False False ra0 ApplicationManager_new = Inr (Some 0, am1) \<and>
     EnableEXC 0 am1 = Inr (AM_SUCCESS, am2) \<and> registered am1 0 \<and> GetApplication 3200 am2 = Some 0 \<and>
     sch_state (app_of am2 0) = READY"
proof -
  let ?c = "CreateEXC 5 load_two ''demo'' 100 0 ''two'' RTLIB_LANG_CPP 3 False False ra0 ApplicationManager_new"
  have run: "(case ?c of
      Inr (Some p, am1) \<Rightarrow> p = 0 \<and> registered am1 0 \<and>
        (case EnableEXC 0 am1 of
           Inr (e, am2) \<Rightarrow> e = AM_SUCCESS \<and> GetApplication 3200 am2 = Some 0 \<and> sch_state (app_of am2 0) = READY
         | Inl _ \<Rightarrow> False)
    | _ \<Rightarrow> False)"
    by code_simp
  from case_created [OF run] obtain am1 where c: "?c = Inr (Some 0, am1)" "registered am1 0" and
    e: "case EnableEXC 0 am1 of
      Inr (e, am2) \<Rightarrow> e = AM_SUCCESS \<and> GetApplication 3200 am2 = Some 0 \<and> sch_state (app_of am2 0) = READY
    | Inl _ \<Rightarrow> False" by blast
  from case_answer [OF e] c show ?thesis by blast
qed

theorem applications_stay_queued_witness:
  "\<exists>am ra'. am_step\<^sup>*\<^sup>* (ApplicationManager_new, ra0) (am, ra') \<and> GetApplication 3200 am = Some 0 \<and>
     queue am (STATUS READY) 3200 = Some 0 \<and> queue am (STATUS NEW) 3200 = None"
proof -
  obtain am1 am2 where c: "CreateEXC 5 load_two ''demo'' 100 0 ''two'' RTLIB_LANG_CPP 3 False False ra0 ApplicationManager_new = Inr (Some 0, am1)"
    "EnableEXC 0 am1 = Inr (AM_SUCCESS, am2)" "registered am1 0" "GetApplication 3200 am2 = Some 0" "sch_state (app_of am2 0) = READY"
    using create_and_enable by blast
  have "am_step (ApplicationManager_new, ra0) (am1, ra0)"
    by (rule am_step.create [OF c(1)]) (simp add: GetApplication_pid_def GetApplication_def ApplicationManager_new_def)
  moreover have "am_step (am1, ra0) (am2, ra0)" by (rule am_step.enable [OF c(3,2)])
  ultimately have run: "am_step\<^sup>*\<^sup>* (ApplicationManager_new, ra0) (am2, ra0)" by simp
  from applications_stay_queued [OF run c(4)] c(5) have "queue am2 (STATUS READY) 3200 = Some 0" "queue am2 (STATUS NEW) 3200 = None"
    by simp_all
  with run c(4) show ?thesis by blast
qed

text \<open>What the condition on \<open>CreateEXC\<close> is for. When an application is registered under a number
  that stands already for another one that has left the state \<open>NEW\<close>, the map by numbers keeps the
  first, but the queue of new applications gets the second: the number stands in two queues of
  states, and the second application is not found under it.\<close>

theorem duplicate_number_misplaces:
  assumes "CreateEXC levels rload name pid eid rcp lang prio weak cont ra am = Inr (Some p, am')" "queues_ok am"
    "GetApplication_pid pid eid am = Some q" "sch_state (app_of am q) \<notin> {NEW, FINISHED}"
  shows "p \<noteq> q \<and> GetApplication_pid pid eid am' = Some q \<and>
    queue am' (STATUS (sch_state (app_of am q))) (Uid_of pid eid) = Some q \<and> queue am' (STATUS NEW) (Uid_of pid eid) = Some p"
proof -
  let ?a0 = "SetPriority levels prio (Application_new name pid eid lang cont)" and ?u = "Uid_of pid eid"
  obtain rc am1 a where l: "LoadRecipe levels rload rcp weak ra am = Inr (RL_SUCCESS, rc, am1)"
    and sr: "SetRecipe (Some rc) (Uid ?a0) ra ?a0 = Inr (APP_SUCCESS, a)" and p: "p = app_alloc am1"
    and en: "enroll levels p ((upd_app p a am1)\<lparr>app_alloc := p + 1\<rparr>) = Inr am'"
    using assms(1) by (auto simp: CreateEXC_def Let_def split: if_splits elim!: seq_fault_InrE)
  have am1: "app_alloc am1 = app_alloc am" "vecs am1 = vecs am"
    using l by (auto simp: LoadRecipe_def Let_def split: option.splits prod.splits if_splits elim!: seq_fault_InrE)
  have a: "sch_state a = NEW" "Uid a = ?u"
    using SetRecipe_place [OF sr] by (simp_all add: same_place_def SetPriority_def Application_new_def Uid_def)
  have pl: "queue am UIDS ?u = Some q" "q < app_alloc am" "queue am (STATUS NEW) ?u = None"
    "queue am (STATUS (sch_state (app_of am q))) ?u = Some q"
    using queues_ok_placed [OF assms(2), of ?u] assms(3,4)
    by (auto simp: placed_def GetApplication_pid_def GetApplication_def)
  have ok: "om_ok (vecs am r)" for r using assms(2) by (rule queues_ok_om)
  show ?thesis
    using en a pl ok assms(4)
    by (auto simp: enroll_def Let_def insert_app_def upd_vec_def upd_app_def am1 p GetApplication_pid_def GetApplication_def
        split: if_splits)
qed

end
