(* ===== verification/App_Lifecycle.thy ===== *)
theory App_Lifecycle
  imports App_Scheduling
begin

text \<open>
  The life of an application in the application manager
  (\<^verbatim>\<open>bbque/application_manager.cc\<close>), on the operations of \<^verbatim>\<open>App_Queues\<close> and
  \<^verbatim>\<open>App_Scheduling\<close>: how it is scheduled and started, and how it is cleaned up, with the
  calls that cannot complete.
\<close>

section \<open>The cleanup of finished applications\<close>

text \<open>The state of the cleanup loop: its iterator is the only one on the queue of finished
  applications, and is at the first entry.\<close>

definition visiting :: "itptr \<Rightarrow> AppsUidMap \<Rightarrow> ApplicationManager \<Rightarrow> bool" where
  "visiting i m am \<longleftrightarrow>
     vecs am (STATUS FINISHED) = m \<and> om_ok m \<and> rets am (STATUS FINISHED) = [i] \<and> rets am UIDS = [] \<and>
     it_map (iters am i) = Some (STATUS FINISHED) \<and> it_ret (iters am i) = Some (STATUS FINISHED) \<and>
     it_pos (iters am i) = begin_key m \<and> \<not> it_updated (iters am i) \<and>
     (\<forall>(k, p) \<in> set m. Uid (app_of am p) = k \<and> sch_state (app_of am p) = FINISHED)"

definition releases :: "(Application \<Rightarrow> bool) \<Rightarrow> Application \<Rightarrow> bool" where
  "releases plm a \<longleftrightarrow> sch_count a = 0 \<or> plm a"

lemma next_key_first:
  assumes "om_ok ((k, p) # m)"
  shows "next_key (Some k) ((k, p) # m) = Inr (begin_key m)"
  using assms by (cases m) (auto simp: next_key_def om_ok_def begin_key_def)

lemma om_erase_first: "om_ok ((k, p) # m) \<Longrightarrow> om_erase k ((k, p) # m) = m"
  by (auto simp: om_ok_def om_erase_def intro!: filter_True)

text \<open>One round: the first entry leaves the queue, and the iterator is at the next.\<close>

lemma StatusRemove_first:
  assumes "visiting i ((k, p) # m) am"
  obtains am1 where "StatusRemove p am = Inr am1" "app_objs am1 = app_objs am" "rets am1 = rets am"
    "vecs am1 = (vecs am)(STATUS FINISHED := m)"
    "iters am1 = (iters am)(i := (iters am i)\<lparr>it_pos := begin_key m, it_updated := True\<rparr>)"
proof -
  have v: "vecs am (STATUS FINISHED) = (k, p) # m" "om_ok ((k, p) # m)" "rets am (STATUS FINISHED) = [i]"
    "it_map (iters am i) = Some (STATUS FINISHED)" "it_pos (iters am i) = Some k" "Uid (app_of am p) = k"
    "sch_state (app_of am p) = FINISHED"
    using assms by (auto simp: visiting_def begin_key_def)
  have "StatusRemove p am = Inr (upd_vec (STATUS FINISHED) (om_erase k)
      (upd_it i ((iters am i)\<lparr>it_pos := begin_key m, it_updated := True\<rparr>) am))"
    by (simp add: StatusRemove_def erase_app_def v It_Update_def it_vec_def next_key_first [OF v(2)])
  then show thesis by (rule that) (simp_all add: upd_vec_def upd_it_def v om_erase_first [OF v(2)])
qed

lemma Cleanup_round:
  assumes "visiting i ((k, p) # m) am"
  obtains e am1 am2 where "CleanupEXC plm p am = Inr (e, am1)"
    "GetNext i am1 = Inr (case m of [] \<Rightarrow> None | x # _ \<Rightarrow> Some (snd x), am2)"
    "app_objs am2 = app_objs am" "vecs am2 (STATUS FINISHED) = m" "m \<noteq> [] \<longrightarrow> visiting i m am2"
    "vecs am2 UIDS = (if releases plm (app_of am p) then om_erase k (vecs am UIDS) else vecs am UIDS)"
proof -
  obtain am0 where s: "StatusRemove p am = Inr am0" "app_objs am0 = app_objs am" "rets am0 = rets am"
    "vecs am0 = (vecs am)(STATUS FINISHED := m)"
    "iters am0 = (iters am)(i := (iters am i)\<lparr>it_pos := begin_key m, it_updated := True\<rparr>)"
    by (rule StatusRemove_first [OF assms])
  have v: "rets am (STATUS FINISHED) = [i]" "rets am UIDS = []" "Uid (app_of am p) = k"
    "it_map (iters am i) = Some (STATUS FINISHED)" "it_ret (iters am i) = Some (STATUS FINISHED)"
    "\<forall>(k, p) \<in> set m. Uid (app_of am p) = k \<and> sch_state (app_of am p) = FINISHED" "om_ok m"
    using assms by (auto simp: visiting_def om_ok_def)
  define am1 where "am1 = (if releases plm (app_of am p) then upd_vec UIDS (om_erase k) am0 else am0)"
  have c: "\<exists>e. CleanupEXC plm p am = Inr (e, am1)"
    using v s by (auto simp: CleanupEXC_def releases_def am1_def erase_app_def word_neq_0_conv)
  have a1: "app_objs am1 = app_objs am" "rets am1 = rets am" "vecs am1 (STATUS FINISHED) = m" "iters am1 = iters am0"
    "vecs am1 UIDS = (if releases plm (app_of am p) then om_erase k (vecs am UIDS) else vecs am UIDS)"
    using s by (simp_all add: am1_def upd_vec_def)
  let ?it = "(iters am i)\<lparr>it_pos := begin_key m, it_updated := False\<rparr>"
  let ?am2 = "if m = [] then Release_it i (upd_it i ?it am1) else upd_it i ?it am1"
  have n: "GetNext i am1 = Inr (case m of [] \<Rightarrow> None | x # _ \<Rightarrow> Some (snd x), ?am2)"
    by (cases m) (auto simp: GetNext_def It_next_def a1 s Let_def begin_key_def It_Get_def it_vec_def upd_it_def v)
  show thesis
  proof (rule exE [OF c], rule that [OF _ n])
    show "app_objs ?am2 = app_objs am" "vecs ?am2 (STATUS FINISHED) = m"
      "vecs ?am2 UIDS = (if releases plm (app_of am p) then om_erase k (vecs am UIDS) else vecs am UIDS)"
      by (simp_all add: upd_it_def Release_it_def a1 split: option.split)
    show "m \<noteq> [] \<longrightarrow> visiting i m ?am2"
      using v by (simp add: visiting_def upd_it_def a1)
  qed assumption
qed

lemma Cleanup_loop_empties:
  "visiting i m am \<Longrightarrow> m = (k, p) # m' \<Longrightarrow>
     \<exists>am'. Cleanup_loop (length m) plm i (Some p) am = Inr (Some am') \<and> app_objs am' = app_objs am \<and>
       vecs am' (STATUS FINISHED) = [] \<and>
       (\<forall>u. queue am' UIDS u =
          (if \<exists>q. om_find m u = Some q \<and> releases plm (app_of am q) then None else queue am UIDS u))"
proof (induction m arbitrary: am k p m')
  case (Cons x m)
  then have x: "x = (k, p)" and m: "m' = m" by simp_all
  from Cons.prems have vis: "visiting i ((k, p) # m) am" by simp
  then have k: "om_find m k = None" by (auto simp: visiting_def om_ok_def map_of_eq_None_iff)
  obtain e am1 am2 where r: "CleanupEXC plm p am = Inr (e, am1)"
    "GetNext i am1 = Inr (case m of [] \<Rightarrow> None | x # _ \<Rightarrow> Some (snd x), am2)"
    "app_objs am2 = app_objs am" "vecs am2 (STATUS FINISHED) = m" "m \<noteq> [] \<longrightarrow> visiting i m am2"
    "vecs am2 UIDS = (if releases plm (app_of am p) then om_erase k (vecs am UIDS) else vecs am UIDS)"
    by (rule Cleanup_round [OF vis, of plm])
  show ?case
  proof (cases m)
    case Nil
    then show ?thesis using r by (auto simp: x)
  next
    case (Cons y m2)
    obtain k2 p2 where y: "y = (k2, p2)" by (cases y)
    from Cons.IH [of am2 k2 p2 m2] r(5) Cons y obtain am' where
      "Cleanup_loop (length m) plm i (Some p2) am2 = Inr (Some am')" "app_objs am' = app_objs am2"
      "vecs am' (STATUS FINISHED) = []"
      "\<forall>u. queue am' UIDS u = (if \<exists>q. om_find m u = Some q \<and> releases plm (app_of am2 q) then None else queue am2 UIDS u)"
      by auto
    with r Cons y x k show ?thesis by auto
  qed
qed simp

text \<open>C17: the cleanup of the finished applications ends, within as many rounds as the queue of finished
  applications has entries, and leaves that queue empty; it takes out of the registry the applications of
  the queue that were never scheduled or whose platform data was released, and no other. It needs
  that no other iterator is on the two maps.\<close>

theorem cleanup_ends_with_no_finished:
  assumes "queues_ok am" "rets am (STATUS FINISHED) = []" "rets am UIDS = []" "\<not> it_updated (iters am i)"
  shows "\<exists>am'. Cleanup plm i am = Inr (Some am') \<and> app_objs am' = app_objs am \<and>
    \<not> HasApplications (STATUS FINISHED) am' \<and>
    (\<forall>u. GetApplication u am' =
       (if \<exists>q. queue am (STATUS FINISHED) u = Some q \<and> (sch_count (app_of am q) = 0 \<or> plm (app_of am q)) then None
        else GetApplication u am))"
proof (cases "vecs am (STATUS FINISHED)")
  case Nil
  then show ?thesis
    by (auto simp: Cleanup_def GetFirst_def Let_def It_Init_def begin_key_def upd_it_def HasApplications_def GetApplication_def)
next
  case (Cons x m)
  obtain k p where x: "x = (k, p)" by (cases x)
  let ?m = "vecs am (STATUS FINISHED)" and ?it = "It_Init (STATUS FINISHED) am (iters am i)"
  define am1 where "am1 = Retain i (STATUS FINISHED) (upd_it i ?it am)"
  have am1: "app_objs am1 = app_objs am" "vecs am1 = vecs am" "iters am1 i = ?it" "rets am1 UIDS = []"
    "rets am1 (STATUS FINISHED) = [i]"
    using assms by (simp_all add: am1_def Retain_def upd_it_def)
  have fin: "Uid (app_of am q) = u \<and> sch_state (app_of am q) = FINISHED" if "queue am (STATUS FINISHED) u = Some q" for u q
    using queues_ok_placed [OF assms(1), of u] that by (auto simp: placed_def split: option.splits) (metis option.distinct(1) option.inject)+
  have "\<forall>(u, q) \<in> set ?m. Uid (app_of am q) = u \<and> sch_state (app_of am q) = FINISHED"
    using fin queues_ok_om [OF assms(1), of "STATUS FINISHED"]
    by (auto simp: om_ok_def strict_sorted_iff)
  then have vis: "visiting i ?m am1"
    using am1 assms queues_ok_om [OF assms(1)] by (simp add: visiting_def It_Init_def)
  have first: "GetFirst (STATUS FINISHED) i am = Inr (Some p, am1)"
    using Cons x by (simp add: GetFirst_def Let_def It_Init_def begin_key_def It_Get_def it_vec_def am1_def upd_it_def)
  from Cleanup_loop_empties [OF vis Cons [unfolded x], of plm] first am1 show ?thesis
    by (auto simp: Cleanup_def HasApplications_def GetApplication_def releases_def)
qed


text \<open>The witness: an application is created and destroyed, and then cleaned up.\<close>

lemma create_and_destroy:
  "\<exists>am1 am2. CreateEXC 5 load_two ''demo'' 100 0 ''two'' RTLIB_LANG_CPP 3 False False ra0 ApplicationManager_new = Inr (Some 0, am1) \<and>
     DestroyEXC 5 0 am1 = Inr (AM_SUCCESS, am2) \<and> registered am1 0 \<and> GetApplication 3200 am2 = Some 0 \<and>
     queue am2 (STATUS FINISHED) 3200 = Some 0 \<and> sch_count (app_of am2 0) = 0 \<and>
     rets am2 (STATUS FINISHED) = [] \<and> rets am2 UIDS = [] \<and> \<not> it_updated (iters am2 1)"
proof -
  let ?c = "CreateEXC 5 load_two ''demo'' 100 0 ''two'' RTLIB_LANG_CPP 3 False False ra0 ApplicationManager_new"
  have run: "(case ?c of
      Inr (Some p, am1) \<Rightarrow> p = 0 \<and> registered am1 0 \<and>
        (case DestroyEXC 5 0 am1 of
           Inr (e, am2) \<Rightarrow> e = AM_SUCCESS \<and> GetApplication 3200 am2 = Some 0 \<and> queue am2 (STATUS FINISHED) 3200 = Some 0 \<and>
             sch_count (app_of am2 0) = 0 \<and> rets am2 (STATUS FINISHED) = [] \<and> rets am2 UIDS = [] \<and> \<not> it_updated (iters am2 1)
         | Inl _ \<Rightarrow> False)
    | _ \<Rightarrow> False)"
    by code_simp
  from case_created [OF run] obtain am1 where c: "?c = Inr (Some 0, am1)" "registered am1 0" and
    e: "case DestroyEXC 5 0 am1 of
           Inr (e, am2) \<Rightarrow> e = AM_SUCCESS \<and> GetApplication 3200 am2 = Some 0 \<and> queue am2 (STATUS FINISHED) 3200 = Some 0 \<and>
             sch_count (app_of am2 0) = 0 \<and> rets am2 (STATUS FINISHED) = [] \<and> rets am2 UIDS = [] \<and> \<not> it_updated (iters am2 1)
         | Inl _ \<Rightarrow> False" by blast
  from case_answer [OF e] c show ?thesis by blast
qed

theorem cleanup_ends_with_no_finished_witness:
  "\<exists>am am'. GetApplication 3200 am = Some 0 \<and> HasApplications (STATUS FINISHED) am \<and>
     Cleanup (\<lambda>_. False) 1 am = Inr (Some am') \<and> \<not> HasApplications (STATUS FINISHED) am' \<and> GetApplication 3200 am' = None"
proof -
  obtain am1 am2 where c: "CreateEXC 5 load_two ''demo'' 100 0 ''two'' RTLIB_LANG_CPP 3 False False ra0 ApplicationManager_new = Inr (Some 0, am1)"
    "DestroyEXC 5 0 am1 = Inr (AM_SUCCESS, am2)" "registered am1 0" "GetApplication 3200 am2 = Some 0"
    "queue am2 (STATUS FINISHED) 3200 = Some 0" "sch_count (app_of am2 0) = 0"
    "rets am2 (STATUS FINISHED) = []" "rets am2 UIDS = []" "\<not> it_updated (iters am2 1)"
    using create_and_destroy by blast
  have "queues_ok am1"
    by (rule CreateEXC_queues [OF c(1) queues_ok_new]) (simp add: ApplicationManager_new_def)
  then have "queues_ok am2" using DestroyEXC_keeps [OF c(2)] c(3) by (simp add: keeps_queues_def)
  from cleanup_ends_with_no_finished [OF this c(7-9), of "\<lambda>_. False"] obtain am' where
    "Cleanup (\<lambda>_. False) 1 am2 = Inr (Some am')" "\<not> HasApplications (STATUS FINISHED) am'"
    "GetApplication 3200 am' = None"
    using c(5,6) by auto
  moreover have "HasApplications (STATUS FINISHED) am2" using c(5) by (auto simp: HasApplications_def)
  ultimately show ?thesis using c(4) by blast
qed


section \<open>From a request to a running application\<close>

lemma SetForSynchronization_success:
  assumes "SetForSynchronization p y am = Inr (AM_SUCCESS, am')" "queues_ok am" "registered am p"
    "sch_state (app_of am p) \<noteq> SYNC"
  shows "y \<noteq> SYNC_NONE \<and>
    app_of am' p = (app_of am p)\<lparr>preSyncState := sch_state (app_of am p), syncState := y, sch_state := SYNC\<rparr>"
proof -
  obtain e where c: "ChangeEXCState p SYNC y am = Inr (e, am')" and y: "y \<noteq> SYNC_NONE"
    using assms(1) by (auto simp: SetForSynchronization_def split: if_splits elim!: seq_fault_InrE)
  let ?a = "(app_of am p)\<lparr>preSyncState := sch_state (app_of am p), syncState := y, sch_state := SYNC\<rparr>"
  have "Sched_SetState SYNC y (app_of am p) = Inr (APP_SUCCESS, ?a)"
    using y by (simp add: Sched_SetState_def SetSyncState_def)
  from ChangeEXCState_success [OF assms(2,3) c _ this] assms(4) y show ?thesis by simp
qed

lemma ScheduleRequest_success:
  assumes "ScheduleRequest beyond mx p (Some w) v b (am, ra) = Inr (AM_SUCCESS, am', ra')"
  obtains ra1 ra2 wm c am1 where "\<not> Blocking (app_of am p)" "\<not> Disabled (app_of am p)"
    "BookResources (Some (Uid (app_of am p))) (GetSchedResourceBinding b (awm_objs (app_of am p) w)) v ra = Inr (RA_SUCCESS, ra1)"
    "SetResourceBinding beyond mx v b ra1 (awm_objs (app_of am p) w) = Inr (c, ra', wm)"
    "Reschedule mx p w (upd_awm p w wm am) = Inr (AM_SUCCESS, am1)"
    "am' = upd_app p ((app_of am1 p)\<lparr>next_awm := Some w, curr_inv := False\<rparr>) am1"
  using assms
  by (auto simp: ScheduleRequest_def Let_def App_SetNextAWM_def split: if_splits elim!: seq_fault_InrE intro: that)

lemma reset_goal_gap_only:
  assumes "reset_goal_gap s = Inr s'"
  shows "next_awm s' = next_awm s" "sch_state s' = sch_state s" "syncState s' = syncState s" "sch_count s' = sch_count s"
  using assms by (auto simp: reset_goal_gap_def split: option.splits if_splits elim!: seq_fault_InrE)

lemma App_SyncCommit_starting:
  assumes "App_SyncCommit s = Inr (e, s')" "sch_state s = SYNC" "syncState s \<notin> {BLOCKED, DISABLED, SYNC_NONE}" "next_awm s = Some w"
  shows "sch_state s' = RUNNING \<and> syncState s' = SYNC_NONE \<and> awm s' = Some w \<and> next_awm s' = None \<and>
    sch_count s' = sch_count s + 1"
proof -
  obtain s1 where r: "reset_goal_gap s = Inr s1" and s: "Sched_SetState RUNNING SYNC_NONE s1 = Inr (e, s')"
    using assms(1-3) by (auto simp: App_SyncCommit_def split: SyncState.splits elim!: seq_fault_InrE)
  note o = reset_goal_gap_only [OF r]
  with s assms(4) show ?thesis
    by (auto simp: Sched_SetState_def SetSyncState_def settle_awms_def)
qed

lemma AM_SyncCommit_app:
  assumes "AM_SyncCommit levels p am = Inr (e, am')" "App_SyncCommit (app_of am p) = Inr (c, s)" "sch_state s \<noteq> FINISHED"
  shows "app_of am' p = s"
proof -
  obtain r am1 am2 where u: "UpdateStatusMaps p (sch_state (app_of am p)) (sch_state s) (upd_app p s am) = Inr (r, am1)"
    and y: "RemoveFromSyncMap_state p (syncState (app_of am p)) am1 = Inr am2"
    and f: "(if Finished (app_of am2 p) then seq_fault (DestroyEXC levels p am2) (\<lambda>(_, am3). Inr (AM_SUCCESS, am3))
             else Inr (AM_SUCCESS, am2)) = Inr (e, am')"
    using assms(1,2) unfolding AM_SyncCommit_def Let_def by (auto elim!: seq_fault_InrE)
  have 1: "app_objs am1 = app_objs (upd_app p s am)"
    using u by (auto simp: UpdateStatusMaps_def insert_app_def upd_vec_def split: if_splits elim!: seq_fault_InrE
      dest!: erase_app_queues(1) simp: same_objs_def)
  have 2: "app_objs am2 = app_objs am1"
    using y by (auto simp: RemoveFromSyncMap_state_def split: if_splits dest!: erase_app_queues(1) simp: same_objs_def)
  have "app_of am2 p = s" by (simp add: 1 2 upd_app_def)
  with f assms(3) show ?thesis by (simp add: Finished_def)
qed

lemma upd_awm_place:
  assumes "queues_ok am" "registered am p"
  shows "queues_ok (upd_awm p w wm am)" "registered (upd_awm p w wm am) p"
    "app_of (upd_awm p w wm am) p = (app_of am p)\<lparr>awm_objs := (awm_objs (app_of am p))(w := wm)\<rparr>"
  using assms queues_ok_upd_app [OF assms(1), of "(app_of am p)\<lparr>awm_objs := (awm_objs (app_of am p))(w := wm)\<rparr>" p]
  by (simp_all add: upd_awm_def Uid_def registered_def upd_app_def)

text \<open>C16: from a request to a running application. When the request to schedule a ready application in
  a working mode is answered with success, the resource accounter has accepted the booking of the
  binding of that working mode for the application, and the application waits in the queue of those that
  start; and when the synchronisation is then committed, the application is in the queue of the
  running ones, in that working mode, and its count of schedules is one higher.\<close>

theorem scheduled_application_runs:
  assumes "queues_ok am" "registered am p" "sch_state (app_of am p) = READY"
    "ScheduleRequest beyond mx p (Some w) v b (am, ra) = Inr (AM_SUCCESS, am1, ra1)"
    "AM_SyncCommit levels p am1 = Inr (e, am2)"
  shows "(\<exists>ra0. BookResources (Some (Uid (app_of am p))) (GetSchedResourceBinding b (awm_objs (app_of am p) w)) v ra =
       Inr (RA_SUCCESS, ra0)) \<and>
    queue am1 (STATUS SYNC) (Uid (app_of am p)) = Some p \<and> queue am1 (SYNCQ STARTING) (Uid (app_of am p)) = Some p \<and>
    queue am2 (STATUS RUNNING) (Uid (app_of am p)) = Some p \<and> queue am2 (SYNCQ STARTING) (Uid (app_of am p)) = None \<and>
    awm (app_of am2 p) = Some w \<and> next_awm (app_of am2 p) = None \<and>
    sch_count (app_of am2 p) = sch_count (app_of am p) + 1"
proof -
  obtain ra0 wm c am0 where b: "BookResources (Some (Uid (app_of am p))) (GetSchedResourceBinding b (awm_objs (app_of am p) w)) v ra = Inr (RA_SUCCESS, ra0)"
    and r: "Reschedule mx p w (upd_awm p w wm am) = Inr (AM_SUCCESS, am0)"
    and am1: "am1 = upd_app p ((app_of am0 p)\<lparr>next_awm := Some w, curr_inv := False\<rparr>) am0"
    by (rule ScheduleRequest_success [OF assms(4)])
  note m = upd_awm_place [OF assms(1,2), of w wm]
  have "SetForSynchronization p STARTING (upd_awm p w wm am) = Inr (AM_SUCCESS, am0)"
    using r assms(3) by (simp add: Reschedule_def m(3))
  from SetForSynchronization_success [OF this m(1,2)] assms(3)
  have a0: "app_of am0 p = (app_of (upd_awm p w wm am) p)\<lparr>preSyncState := READY, syncState := STARTING, sch_state := SYNC\<rparr>"
    by (simp add: m(3))
  have a1: "sch_state (app_of am1 p) = SYNC" "syncState (app_of am1 p) = STARTING" "next_awm (app_of am1 p) = Some w"
    "sch_count (app_of am1 p) = sch_count (app_of am p)"
    by (simp_all add: am1 upd_app_def a0 m(3))
  have k1: "queues_ok am1" "registered am1 p" "Uid (app_of am1 p) = Uid (app_of am p)"
    using ScheduleRequest_keeps [OF assms(4)] assms(1,2) by (simp_all add: keeps_queues_def)
  have k2: "queues_ok am2" "registered am2 p" "Uid (app_of am2 p) = Uid (app_of am p)"
    using AM_SyncCommit_keeps [OF assms(5)] k1 by (simp_all add: keeps_queues_def)
  obtain d s where s: "App_SyncCommit (app_of am1 p) = Inr (d, s)"
    using assms(5) by (auto simp: AM_SyncCommit_def Let_def elim!: seq_fault_InrE)
  have s': "sch_state s = RUNNING \<and> syncState s = SYNC_NONE \<and> awm s = Some w \<and> next_awm s = None \<and> sch_count s = sch_count (app_of am p) + 1"
    using App_SyncCommit_starting [OF s a1(1) _ a1(3)] a1(2,4) by simp
  then have a2: "app_of am2 p = s" by (intro AM_SyncCommit_app [OF assms(5) s]) simp
  have "queue am1 (STATUS SYNC) (Uid (app_of am p)) = Some p \<and> queue am1 (SYNCQ STARTING) (Uid (app_of am p)) = Some p"
    using queues_ok_placed [OF k1(1), of "Uid (app_of am p)"] k1(2,3) a1 by (simp add: placed_def registered_def)
  moreover have "queue am2 (STATUS RUNNING) (Uid (app_of am p)) = Some p \<and> queue am2 (SYNCQ STARTING) (Uid (app_of am p)) = None"
    using queues_ok_placed [OF k2(1), of "Uid (app_of am p)"] k2(2,3) s' by (simp add: placed_def registered_def a2)
  ultimately show ?thesis using b s' by (auto simp: a2)
qed


text \<open>The witness: a ready application whose only working mode is bound to resources that have
  the amount it asks for.\<close>

definition wm_twelve :: WorkingMode where
  "wm_twelve = (WorkingMode_new 0 ''low'' 1 None)\<lparr>sched_bindings := [twelve SEQUENTIAL]\<rparr>"

definition demo_app :: "State \<Rightarrow> Application" where
  "demo_app st = (Application_new ''demo'' 100 0 RTLIB_LANG_CPP False)\<lparr>sch_state := st, awm_objs := (\<lambda>_. wm_twelve)\<rparr>"

definition demo_manager :: "State \<Rightarrow> ApplicationManager" where
  "demo_manager st = ApplicationManager_new\<lparr>app_objs := (\<lambda>_. demo_app st), app_alloc := 1, am_apps := [(100, 0)],
     vecs := (\<lambda>_. [])(UIDS := [(3200, 0)], STATUS st := [(3200, 0)])\<rparr>"

lemma demo_manager_ok:
  assumes "st \<noteq> SYNC"
  shows "queues_ok (demo_manager st)" "registered (demo_manager st) 0" "app_of (demo_manager st) 0 = demo_app st"
proof -
  have u: "Uid (demo_app st) = 3200" "syncState (demo_app st) = SYNC_NONE" "sch_state (demo_app st) = st"
    by (simp_all add: demo_app_def Uid_def Uid_of_def Application_new_def BBQUE_UID_SHIFT_def)
  then show "queues_ok (demo_manager st)" "registered (demo_manager st) 0" "app_of (demo_manager st) 0 = demo_app st"
    using assms by (simp_all add: queues_ok_def placed_def registered_def demo_manager_def om_ok_def)
qed

theorem scheduled_application_runs_witness:
  "\<exists>am1 am2 ra1. sch_state (app_of (demo_manager READY) 0) = READY \<and>
     ScheduleRequest (\<lambda>_. Some []) 31 0 (Some 0) 5 0 (demo_manager READY, ra_ten) = Inr (AM_SUCCESS, am1, ra1) \<and>
     AM_SyncCommit 5 0 am1 = Inr (AM_SUCCESS, am2) \<and> queue am2 (STATUS RUNNING) 3200 = Some 0 \<and> awm (app_of am2 0) = Some 0"
proof -
  let ?s = "ScheduleRequest (\<lambda>_. Some []) 31 0 (Some 0) 5 0 (demo_manager READY, ra_ten)"
  have r: "case ?s of
      Inr (c, sys) \<Rightarrow> c = AM_SUCCESS \<and> (case AM_SyncCommit 5 0 (fst sys) of Inr (e, _) \<Rightarrow> e = AM_SUCCESS | Inl _ \<Rightarrow> False)
    | Inl _ \<Rightarrow> False"
    by code_simp
  from case_answer [OF r] obtain am1 ra1 where s: "?s = Inr (AM_SUCCESS, am1, ra1)"
    and c: "case AM_SyncCommit 5 0 am1 of Inr (e, _) \<Rightarrow> e = AM_SUCCESS | Inl _ \<Rightarrow> False" by auto
  from case_answer [OF c] obtain am2 where c: "AM_SyncCommit 5 0 am1 = Inr (AM_SUCCESS, am2)" by blast
  have st: "sch_state (app_of (demo_manager READY) 0) = READY" "Uid (app_of (demo_manager READY) 0) = 3200" by code_simp+
  from scheduled_application_runs [OF demo_manager_ok(1,2) st(1) s c] st s c show ?thesis by simp
qed

section \<open>Calls that cannot complete\<close>

lemma SetForSynchronization_BLOCKED:
  assumes "SetForSynchronization p BLOCKED am = Inr (AM_SUCCESS, am')" "queues_ok am" "registered am p"
    "sch_state (app_of am p) \<noteq> SYNC"
  shows "Blocking (app_of am' p)" "preSyncState (app_of am' p) = sch_state (app_of am p)"
    "next_awm (app_of am' p) = next_awm (app_of am p)"
  using SetForSynchronization_success [OF assms] by (simp_all add: Blocking_def Sched_Synching_def)

text \<open>C37: a running application that is unscheduled cannot be scheduled again before the
  synchronisation. Unscheduling leaves it blocked with \<open>RUNNING\<close> as the state before; the next request
  forces the transition back to \<open>RUNNING\<close>, which takes the next working mode and counts a schedule
  of it, and there is none.\<close>

theorem request_after_unschedule_faults:
  assumes "queues_ok am" "registered am p" "sch_state (app_of am p) = RUNNING" "next_awm (app_of am p) = None"
    "Unschedule p am = Inr (AM_SUCCESS, am1)"
  shows "ScheduleRequest beyond mx p (Some w) v b (am1, ra) = Inl NullDeref"
proof -
  have "SetForSynchronization p BLOCKED am = Inr (AM_SUCCESS, am1)"
    using assms(3,5) by (simp add: Unschedule_def Blocking_def Sched_Synching_def)
  note s = SetForSynchronization_BLOCKED [OF this assms(1,2)]
  have "Sched_SetState RUNNING SYNC_NONE (app_of am1 p) = Inl NullDeref"
    using s assms(3,4) by (simp add: Sched_SetState_def SetSyncState_def settle_awms_def)
  then have "ChangeEXCState p (preSyncState (app_of am1 p)) SYNC_NONE am1 = Inl NullDeref"
    using s assms(3) by (auto simp: ChangeEXCState_def Let_def Blocking_def Sched_Synching_def)
  then show ?thesis using s assms(3) by (simp add: ScheduleRequest_def Let_def)
qed

theorem request_after_unschedule_faults_witness:
  "\<exists>am1. Unschedule 0 (demo_manager RUNNING) = Inr (AM_SUCCESS, am1) \<and>
     ScheduleRequest (\<lambda>_. None) 31 0 (Some 0) 5 0 (am1, ra_ten) = Inl NullDeref"
proof -
  have r: "case Unschedule 0 (demo_manager RUNNING) of Inr (c, _) \<Rightarrow> c = AM_SUCCESS | Inl _ \<Rightarrow> False" by code_simp
  from case_answer [OF r] obtain am1 where u: "Unschedule 0 (demo_manager RUNNING) = Inr (AM_SUCCESS, am1)" by blast
  have "sch_state (app_of (demo_manager RUNNING) 0) = RUNNING" "next_awm (app_of (demo_manager RUNNING) 0) = None" by code_simp+
  from request_after_unschedule_faults [OF demo_manager_ok(1,2) this u] u show ?thesis by blast
qed

text \<open>Aborting a request never succeeds. When there is a next working mode and the application can
  be unscheduled, the next working mode is set to the null pointer, and setting it reads the
  identifier of what it was set to.\<close>

theorem schedule_abort_never_succeeds:
  "ScheduleRequestAbort p v sys \<noteq> Inr (AM_SUCCESS, sys')"
  by (auto simp: ScheduleRequestAbort_def Let_def App_SetNextAWM_def split: prod.splits if_splits elim!: seq_fault_InrE)


text \<open>The list of executions per process, and what identifies its entries.\<close>

definition same_apps :: "ApplicationManager \<Rightarrow> ApplicationManager \<Rightarrow> bool" where
  "same_apps am am' \<longleftrightarrow> am_apps am' = am_apps am \<and>
     (\<forall>q. sch_pid (app_of am' q) = sch_pid (app_of am q) \<and> exc_id (app_of am' q) = exc_id (app_of am q))"

lemma same_apps_refl [simp]: "same_apps am am"
  by (simp add: same_apps_def)

lemma same_apps_trans: "same_apps am am1 \<Longrightarrow> same_apps am1 am2 \<Longrightarrow> same_apps am am2"
  by (simp add: same_apps_def)

lemma erase_app_apps: "erase_app r p am = Inr am' \<Longrightarrow> same_apps am am'"
  by (erule erase_app_result) (simp add: same_apps_def upd_vec_def)

lemma insert_app_apps [simp]: "same_apps am (insert_app r p am)"
  by (simp add: same_apps_def insert_app_def upd_vec_def)

lemma UpdateStatusMaps_apps: "UpdateStatusMaps p s s' am = Inr (e, am') \<Longrightarrow> same_apps am am'"
  by (auto simp: UpdateStatusMaps_def split: if_splits elim!: seq_fault_InrE
      intro: same_apps_trans [OF insert_app_apps] erase_app_apps)

lemma Sched_SetState_apps:
  assumes "Sched_SetState ns ny (app_of am p) = Inr (ret, a)"
  shows "same_apps am (upd_app p a am)"
  using assms by (auto simp: same_apps_def upd_app_def elim!: Sched_SetState_cases)

lemma ChangeEXCState_apps:
  assumes "ChangeEXCState p ns ny am = Inr (e, am')"
  shows "same_apps am am'"
proof (cases "sch_state (app_of am p) = ns \<and> syncState (app_of am p) = ny")
  case False
  let ?a = "app_of am p"
  note run = assms [unfolded ChangeEXCState_def Let_def if_not_P [OF False]]
  from run obtain ret a where s: "Sched_SetState ns ny ?a = Inr (ret, a)"
    and rest: "am' = upd_app p a am \<or> (\<exists>am2 am3.
      (if sch_state ?a = SYNC then RemoveFromSyncMap_state p (syncState ?a) (upd_app p a am) else Inr (upd_app p a am)) = Inr am2 \<and>
      (if ns = SYNC then AddToSyncMap p am2 else Inr am2) = Inr am3 \<and>
      (am' = am3 \<or> UpdateStatusMaps p (sch_state ?a) ns am3 = Inr (e, am')))"
    by (elim seq_fault_InrE) (auto split: if_splits elim!: seq_fault_InrE)
  note 1 = Sched_SetState_apps [OF s]
  show ?thesis using rest
  proof (elim disjE exE conjE)
    fix am2 am3
    assume 2: "(if sch_state ?a = SYNC then RemoveFromSyncMap_state p (syncState ?a) (upd_app p a am) else Inr (upd_app p a am)) = Inr am2"
      and 3: "(if ns = SYNC then AddToSyncMap p am2 else Inr am2) = Inr am3"
    have "same_apps (upd_app p a am) am2"
      using 2 by (auto simp: RemoveFromSyncMap_state_def split: if_splits dest: erase_app_apps)
    moreover have "same_apps am2 am3"
      using 3 by (auto simp: AddToSyncMap_def AddToSyncMap_state_def split: if_splits)
    ultimately have 4: "same_apps am am3" using 1 by (blast intro: same_apps_trans)
    show "same_apps am am'" if "am' = am3" using that 4 by simp
    show "same_apps am am'" if "UpdateStatusMaps p (sch_state ?a) ns am3 = Inr (e, am')"
      using same_apps_trans [OF 4 UpdateStatusMaps_apps [OF that]] .
  qed (use 1 in simp)
qed (use assms in \<open>simp add: ChangeEXCState_def Let_def\<close>)

lemma DestroyEXC_apps:
  assumes "DestroyEXC levels p am = Inr (e, am')"
  obtains am0 where "same_apps am am0"
    "am_apps am' = apps_erase (app_objs am0) (sch_pid (app_of am0 p)) (exc_id (app_of am0 p)) (am_apps am0)"
proof -
  obtain r am1 am2 am3 where
    1: "(if sch_state (app_of am p) \<noteq> FINISHED then ChangeEXCState p FINISHED SYNC_NONE am else Inr (AM_SUCCESS, am)) = Inr (r, am1)"
    and 2: "PriorityRemove levels p am1 = Inr am2" and 3: "LangRemove p am2 = Inr am3"
    and 4: "am_apps am' = am_apps (AppsRemove p am3)"
    using assms unfolding DestroyEXC_def Let_def
    by (elim seq_fault_InrE, simp only: split_beta, elim seq_fault_InrE, simp only: prod.collapse) auto
  have "same_apps am am1" using 1 by (auto split: if_splits dest: ChangeEXCState_apps)
  moreover have "same_apps am1 am2" using 2 by (auto simp: PriorityRemove_def split: if_splits dest: erase_app_apps)
  moreover have "same_apps am2 am3" using 3 by (auto simp: LangRemove_def dest: erase_app_apps)
  ultimately have "same_apps am am3" by (blast intro: same_apps_trans)
  then show thesis by (rule that) (simp add: 4 AppsRemove_def)
qed

lemma DestroyEXC_answer: "DestroyEXC levels p am = Inr (e, am') \<Longrightarrow> e = AM_SUCCESS"
  by (auto simp: DestroyEXC_def Let_def split_beta elim!: seq_fault_InrE)

lemma apps_erase_gone:
  assumes "distinct (map (\<lambda>e. (fst e, exc_id (objs (snd e)))) xs)" "(k, q) \<in> set xs"
  shows "(k, q) \<notin> set (apps_erase objs k (exc_id (objs q)) xs)"
  using assms by (induction xs) (force simp: image_iff)+

text \<open>Destroying all the executions of a process with at least one never completes. The loop erases
  the entry that its iterator is at, and then increments the iterator.\<close>

theorem destroy_process_never_completes:
  assumes "(pid, p) \<in> set (am_apps am)"
    "\<forall>(k, q) \<in> set (am_apps am). k = sch_pid (app_of am q)"
    "distinct (map (\<lambda>(k, q). (k, exc_id (app_of am q))) (am_apps am))"
  shows "DestroyEXC_pid levels pid am \<noteq> Inr (result, am')"
proof
  assume d: "DestroyEXC_pid levels pid am = Inr (result, am')"
  obtain e es where es: "filter (\<lambda>e. fst e = pid) (am_apps am) = e # es"
    using assms(1) by (cases "filter (\<lambda>e. fst e = pid) (am_apps am)") (auto simp: filter_empty_conv)
  have "e \<in> set (am_apps am) \<and> fst e = pid" using arg_cong [OF es, of set] by auto
  then obtain q where e: "e = (pid, q)" "(pid, q) \<in> set (am_apps am)" by (cases e) auto
  obtain am1 where d1: "DestroyEXC levels q am = Inr (AM_SUCCESS, am1)" and in1: "(pid, q) \<in> set (am_apps am1)"
    using d by (auto simp: DestroyEXC_pid_def es e(1) split: if_splits elim!: seq_fault_InrE dest: DestroyEXC_answer)
  obtain am0 where "same_apps am am0"
    "am_apps am1 = apps_erase (app_objs am0) (sch_pid (app_of am0 q)) (exc_id (app_of am0 q)) (am_apps am0)"
    by (rule DestroyEXC_apps [OF d1])
  moreover have "distinct (map (\<lambda>e. (fst e, exc_id (app_of am (snd e)))) (am_apps am))"
    using assms(3) by (simp add: split_def)
  ultimately have "(pid, q) \<notin> set (am_apps am1)"
    using apps_erase_gone [of "app_objs am0" "am_apps am0" pid q] assms(2) e(2) by (auto simp: same_apps_def)
  with in1 show False by simp
qed


theorem destroy_process_never_completes_witness:
  "(100, 0) \<in> set (am_apps (demo_manager READY)) \<and> DestroyEXC_pid 5 100 (demo_manager READY) \<noteq> Inr (AM_SUCCESS, ApplicationManager_new)"
  using destroy_process_never_completes [of 100 0 "demo_manager READY" 5 AM_SUCCESS ApplicationManager_new]
  by (simp add: demo_manager_def demo_app_def Application_new_def)

end
