(* ===== verification/Sync_Policy.thy ===== *)
theory Sync_Policy
  imports Schedulable
begin

text \<open>
  The synchronisation policy SASB (\<^verbatim>\<open>plugins/syncpol/sasb/sasb_syncpol.cc\<close>), which names the
  queues of applications to synchronise, one per call, and says which applications of the queue
  take part.

  Whether a queue has entries is the argument \<open>has\<close>. Metrics and their timer are left out, and with
  them the reading of the metric of the queue served before.
\<close>

section \<open>State\<close>

text \<open>The steps of a session, in their order.\<close>

abbreviation (input) STEP10 :: u8 where "STEP10 \<equiv> 0"
abbreviation (input) STEP11 :: u8 where "STEP11 \<equiv> 1"
abbreviation (input) STEP21 :: u8 where "STEP21 \<equiv> 2"
abbreviation (input) STEP22 :: u8 where "STEP22 \<equiv> 3"
abbreviation (input) STEP23 :: u8 where "STEP23 \<equiv> 4"
abbreviation (input) STEP31 :: u8 where "STEP31 \<equiv> 5"
abbreviation (input) STEP32 :: u8 where "STEP32 \<equiv> 6"
abbreviation (input) STEP33 :: u8 where "STEP33 \<equiv> 7"
abbreviation (input) STEP40 :: u8 where "STEP40 \<equiv> 8"

record SasbSyncPol =
  sp_status :: u8
  max_latency :: u32
  servedSyncState :: SyncState

definition SasbSyncPol_new :: SasbSyncPol where
  "SasbSyncPol_new = \<lparr>sp_status = STEP10, max_latency = 0, servedSyncState = STARTING\<rparr>"

section \<open>The queue to serve\<close>

definition step1 :: "(SyncState \<Rightarrow> bool) \<Rightarrow> SasbSyncPol \<Rightarrow> SyncState \<times> SasbSyncPol" where
  "step1 has sp =
     (if has DISABLED then (DISABLED, sp\<lparr>sp_status := STEP11\<rparr>)
      else if has BLOCKED then (BLOCKED, sp)
      else (SYNC_NONE, sp))"

definition step2 :: "(SyncState \<Rightarrow> bool) \<Rightarrow> SasbSyncPol \<Rightarrow> SyncState" where
  "step2 has sp =
     (let y = (if sp_status sp = STEP21 then MIGRATE
               else if sp_status sp = STEP22 then MIGREC
               else if sp_status sp = STEP23 then RECONF
               else SYNC_NONE)
      in if has y then y else SYNC_NONE)"

definition step3 :: "(SyncState \<Rightarrow> bool) \<Rightarrow> SasbSyncPol \<Rightarrow> SyncState" where
  "step3 has sp =
     (let y = (if sp_status sp = STEP31 then MIGRATE
               else if sp_status sp = STEP32 then MIGREC
               else if sp_status sp = STEP33 then RECONF
               else SYNC_NONE)
      in if has y then y else SYNC_NONE)"

definition step4 :: "(SyncState \<Rightarrow> bool) \<Rightarrow> SyncState" where
  "step4 has = (if has STARTING then STARTING else SYNC_NONE)"

definition sasb_step :: "(SyncState \<Rightarrow> bool) \<Rightarrow> SasbSyncPol \<Rightarrow> SyncState \<times> SasbSyncPol" where
  "sasb_step has sp =
     (if sp_status sp \<in> {STEP10, STEP11} then step1 has sp
      else if sp_status sp \<in> {STEP21, STEP22, STEP23} then (step2 has sp, sp)
      else if sp_status sp \<in> {STEP31, STEP32, STEP33} then (step3 has sp, sp)
      else if sp_status sp = STEP40 then (step4 has, sp)
      else (SYNC_NONE, sp))"

lemma sasb_step_none:
  "sasb_step has sp = (SYNC_NONE, sp') \<Longrightarrow> sp' = sp"
  by (auto simp: sasb_step_def step1_def split: if_splits)

text \<open>The loop over the steps; it stops after the first step with a queue to serve, at the next
  step.\<close>

function sasb_loop :: "(SyncState \<Rightarrow> bool) \<Rightarrow> SasbSyncPol \<Rightarrow> SyncState \<times> SasbSyncPol" where
  "sasb_loop has sp =
     (if \<not> sp_status sp \<le> STEP40 then (SYNC_NONE, sp)
      else case sasb_step has sp of
        (y, sp1) \<Rightarrow>
          let sp2 = sp1\<lparr>sp_status := sp_status sp1 + 1\<rparr>
          in if y \<noteq> SYNC_NONE then (y, sp2) else sasb_loop has sp2)"
  by pat_completeness auto
termination
proof (relation "measure (\<lambda>(has, sp). 9 - unat (sp_status sp))", goal_cases)
  case (2 has sp y sp1 sp2)
  then have s: "sp_status sp \<le> 8" "sp1 = sp" using sasb_step_none [of has sp sp1] by auto
  then have "unat (sp_status sp2) = unat (sp_status sp) + 1" "unat (sp_status sp) \<le> 8"
    using 2 by (simp_all add: word_le_nat_alt unat_word_ariths)
  then show ?case by simp
qed simp

declare sasb_loop.simps [simp del]

definition GetApplicationsQueue :: "(SyncState \<Rightarrow> bool) \<Rightarrow> bool \<Rightarrow> SasbSyncPol \<Rightarrow> SyncState \<times> SasbSyncPol" where
  "GetApplicationsQueue has restart sp =
     (let sp1 = sp\<lparr>sp_status := sp_status sp + 1\<rparr>;
          sp2 = (if restart then sp1\<lparr>servedSyncState := SYNC_NONE, sp_status := STEP10\<rparr> else sp1)
      in case sasb_loop has (sp2\<lparr>max_latency := 0\<rparr>) of
        (y, sp3) \<Rightarrow>
          if y = SYNC_NONE then (SYNC_NONE, sp3\<lparr>servedSyncState := SYNC_NONE\<rparr>)
          else (y, (if sp_status sp3 \<le> STEP40 then sp3\<lparr>sp_status := sp_status sp3 - 1\<rparr> else sp3)\<lparr>servedSyncState := y\<rparr>))"

section \<open>The applications of the queue\<close>

definition lowers_value :: "'a Schedulable_scheme \<Rightarrow> fault + bool" where
  "lowers_value a =
     (case (next_awm a, awm a) of
        (Some n, Some c) \<Rightarrow> Inr (value_normal (awm_objs a n) < value_normal (awm_objs a c))
      | _ \<Rightarrow> Inl NullDeref)"

definition DoSync :: "'a Schedulable_scheme \<Rightarrow> SasbSyncPol \<Rightarrow> fault + bool" where
  "DoSync a sp =
     (if sp_status sp \<in> {STEP10, STEP11} then Inr True
      else if sp_status sp = STEP21 then seq_fault (lowers_value a) (\<lambda>b. Inr (syncState a = MIGRATE \<and> b))
      else if sp_status sp = STEP22 then seq_fault (lowers_value a) (\<lambda>b. Inr (syncState a = MIGREC \<and> b))
      else if sp_status sp = STEP23 then seq_fault (lowers_value a) (\<lambda>b. Inr (syncState a = RECONF \<and> b))
      else if sp_status sp = STEP31 then Inr (syncState a = MIGRATE)
      else if sp_status sp = STEP32 then Inr (syncState a = MIGREC)
      else if sp_status sp = STEP33 then Inr (syncState a = RECONF)
      else Inr True)"

definition CheckLatency :: "u32 \<Rightarrow> SasbSyncPol \<Rightarrow> SasbSyncPol" where
  "CheckLatency latency sp = (if max_latency sp < latency then sp\<lparr>max_latency := latency\<rparr> else sp)"

definition EstimatedSyncTime :: "SasbSyncPol \<Rightarrow> u32" where
  "EstimatedSyncTime sp = max_latency sp"


section \<open>The order of a session\<close>

text \<open>The step at which the policy is after it has named a queue.\<close>

definition serves :: "SyncState \<Rightarrow> u8 \<Rightarrow> bool" where
  "serves y st \<longleftrightarrow>
     (case y of
        DISABLED \<Rightarrow> st = STEP11
      | BLOCKED \<Rightarrow> st = STEP10 \<or> st = STEP11
      | MIGRATE \<Rightarrow> st = STEP21 \<or> st = STEP31
      | MIGREC \<Rightarrow> st = STEP22 \<or> st = STEP32
      | RECONF \<Rightarrow> st = STEP23 \<or> st = STEP33
      | STARTING \<Rightarrow> st = STEP40 + 1
      | SYNC_NONE \<Rightarrow> False)"

lemma sasb_step_cases:
  assumes "sasb_step has sp = (y, sp1)" "sp_status sp \<le> STEP40" "y \<noteq> SYNC_NONE"
  shows "has y" "sp_status sp \<le> sp_status sp1" "max_latency sp1 = max_latency sp"
    "y \<noteq> STARTING \<Longrightarrow> serves y (sp_status sp1)" "y = STARTING \<Longrightarrow> sp_status sp1 = STEP40"
proof -
  have k: "sp_status sp \<in> {0, 1, 2, 3, 4, 5, 6, 7, 8}"
  proof -
    have "unat (sp_status sp) \<in> {0, 1, 2, 3, 4, 5, 6, 7, 8}" using assms(2) by (auto simp: word_le_nat_alt)
    then show ?thesis by (auto simp: word_unat_eq_iff)
  qed
  show "has y" "sp_status sp \<le> sp_status sp1" "max_latency sp1 = max_latency sp"
    "y \<noteq> STARTING \<Longrightarrow> serves y (sp_status sp1)" "y = STARTING \<Longrightarrow> sp_status sp1 = STEP40"
    using k assms(1,3)
    by (auto simp: sasb_step_def step1_def step2_def step3_def step4_def Let_def serves_def split: if_splits)
qed

lemma sasb_loop_served:
  assumes "sasb_loop has sp = (y, sp')" "y \<noteq> SYNC_NONE"
  shows "\<exists>sp1. has y \<and> sp_status sp \<le> sp_status sp1 \<and> sp_status sp1 \<le> STEP40 \<and> max_latency sp1 = max_latency sp \<and>
    (y \<noteq> STARTING \<longrightarrow> serves y (sp_status sp1)) \<and> (y = STARTING \<longrightarrow> sp_status sp1 = STEP40) \<and>
    sp' = sp1\<lparr>sp_status := sp_status sp1 + 1\<rparr>"
  using assms
proof (induction has sp rule: sasb_loop.induct)
  case (1 has sp)
  from 1(2,3) have le: "sp_status sp \<le> STEP40" by (subst (asm) sasb_loop.simps) (auto split: if_splits)
  obtain z sp1 where s: "sasb_step has sp = (z, sp1)" by fastforce
  show ?case
  proof (cases "z = SYNC_NONE")
    case True
    then have "sp1 = sp" using sasb_step_none s by blast
    have r: "sasb_loop has (sp\<lparr>sp_status := sp_status sp + 1\<rparr>) = (y, sp')"
      using 1(2) le s True \<open>sp1 = sp\<close> by (subst (asm) sasb_loop.simps) (simp add: Let_def)
    have "sp_status sp \<le> sp_status sp + 1"
      using le by (simp add: word_le_nat_alt unat_word_ariths)
    moreover have "\<exists>sp2. has y \<and> sp_status sp + 1 \<le> sp_status sp2 \<and> sp_status sp2 \<le> STEP40 \<and> max_latency sp2 = max_latency sp \<and>
        (y \<noteq> STARTING \<longrightarrow> serves y (sp_status sp2)) \<and> (y = STARTING \<longrightarrow> sp_status sp2 = STEP40) \<and>
        sp' = sp2\<lparr>sp_status := sp_status sp2 + 1\<rparr>"
      using 1(1) [OF _ s [symmetric] refl _ _ 1(3)] le True r \<open>sp1 = sp\<close> by simp
    ultimately show ?thesis by (blast intro: order_trans)
  next
    case False
    then have y: "z = y" "sp' = sp1\<lparr>sp_status := sp_status sp1 + 1\<rparr>"
      using 1(2) le s by (subst (asm) sasb_loop.simps, simp add: Let_def)+
    note c = sasb_step_cases [OF s le False]
    have "sp_status sp1 \<le> STEP40"
      using c(4,5) y by (cases y) (auto simp: serves_def)
    with c y show ?thesis by blast
  qed
qed


lemma GetApplicationsQueue_served:
  assumes "GetApplicationsQueue has restart sp = (y, sp')" "y \<noteq> SYNC_NONE"
  shows "has y \<and> serves y (sp_status sp') \<and> max_latency sp' = 0 \<and> servedSyncState sp' = y \<and>
    (\<not> restart \<longrightarrow> sp_status sp + 1 \<le> sp_status sp')"
proof -
  let ?sp2 = "(if restart then (sp\<lparr>sp_status := sp_status sp + 1\<rparr>)\<lparr>servedSyncState := SYNC_NONE, sp_status := STEP10\<rparr>
    else sp\<lparr>sp_status := sp_status sp + 1\<rparr>)\<lparr>max_latency := 0\<rparr>"
  obtain z sp3 where l: "sasb_loop has ?sp2 = (z, sp3)" by fastforce
  then have z: "z = y" and sp': "sp' = (if sp_status sp3 \<le> STEP40 then sp3\<lparr>sp_status := sp_status sp3 - 1\<rparr> else sp3)\<lparr>servedSyncState := y\<rparr>"
    using assms by (auto simp: GetApplicationsQueue_def Let_def split: if_splits)
  from sasb_loop_served [OF l] z assms(2) obtain sp1 where s: "has y" "sp_status ?sp2 \<le> sp_status sp1" "sp_status sp1 \<le> STEP40"
    "max_latency sp1 = 0" "y \<noteq> STARTING \<Longrightarrow> serves y (sp_status sp1)" "y = STARTING \<Longrightarrow> sp_status sp1 = STEP40"
    "sp3 = sp1\<lparr>sp_status := sp_status sp1 + 1\<rparr>" by auto
  have st: "serves y (sp_status sp') \<and> sp_status sp1 \<le> sp_status sp'"
  proof (cases "y = STARTING")
    case True
    then show ?thesis using s(6,7) by (simp add: sp' serves_def)
  next
    case False
    with s(5) have "serves y (sp_status sp1)" by simp
    with False assms(2) have "sp_status sp1 + 1 \<le> STEP40" by (cases y) (auto simp: serves_def)
    with \<open>serves y (sp_status sp1)\<close> s(7) show ?thesis by (simp add: sp')
  qed
  with s show ?thesis by (auto simp: sp' split: if_splits intro: order_trans)
qed

lemma serves_step:
  assumes "serves y st"
  shows "unat st \<le> 9"
  using assms by (cases y) (auto simp: serves_def)

text \<open>What the synchronisation manager relies on: the policy names non-empty queues, and after a
  restart it comes to an end.\<close>

locale sync_policy =
  fixes queue_of :: "(SyncState \<Rightarrow> bool) \<Rightarrow> bool \<Rightarrow> 'p \<Rightarrow> SyncState \<times> 'p" and at_step :: "'p \<Rightarrow> nat" and steps :: nat
  assumes nonempty: "queue_of has restart p = (y, p') \<Longrightarrow> y \<noteq> SYNC_NONE \<Longrightarrow> has y"
    and bounded: "queue_of has restart p = (y, p') \<Longrightarrow> y \<noteq> SYNC_NONE \<Longrightarrow> at_step p' \<le> steps"
    and later: "queue_of has False p = (y, p') \<Longrightarrow> y \<noteq> SYNC_NONE \<Longrightarrow> at_step p \<le> steps \<Longrightarrow> at_step p < at_step p'"

interpretation sasb: sync_policy GetApplicationsQueue "\<lambda>sp. unat (sp_status sp)" 9
proof
  show "has y" if "GetApplicationsQueue has restart p = (y, p')" "y \<noteq> SYNC_NONE" for has restart p y p'
    using GetApplicationsQueue_served [OF that] by simp
  show "unat (sp_status p') \<le> 9" if "GetApplicationsQueue has restart p = (y, p')" "y \<noteq> SYNC_NONE" for has restart p y p'
    using GetApplicationsQueue_served [OF that] serves_step by blast
  show "unat (sp_status p) < unat (sp_status p')"
    if "GetApplicationsQueue has False p = (y, p')" "y \<noteq> SYNC_NONE" "unat (sp_status p) \<le> 9" for has p y p'
  proof -
    have "sp_status p + 1 \<le> sp_status p'" using GetApplicationsQueue_served [OF that(1,2)] by simp
    then show ?thesis using that(3) by (simp add: word_le_nat_alt unat_word_ariths)
  qed
qed

text \<open>The queues named in a session, each with the step of the policy at which its applications are
  synchronised, when before each call the queues are as the list says; the session ends at the
  first call that names none.\<close>

fun queue_calls :: "(SyncState \<Rightarrow> bool) list \<Rightarrow> bool \<Rightarrow> SasbSyncPol \<Rightarrow> (SyncState \<times> u8) list" where
  "queue_calls [] restart sp = []"
| "queue_calls (has # hs) restart sp =
     (case GetApplicationsQueue has restart sp of
        (y, sp') \<Rightarrow> if y = SYNC_NONE then [] else (y, sp_status sp') # queue_calls hs False sp')"

text \<open>The queues that are named, with their steps, in the order of a session.\<close>

definition sasb_plan :: "(SyncState \<times> u8) list" where
  "sasb_plan = [(BLOCKED, STEP10), (BLOCKED, STEP11), (DISABLED, STEP11),
     (MIGRATE, STEP21), (MIGREC, STEP22), (RECONF, STEP23),
     (MIGRATE, STEP31), (MIGREC, STEP32), (RECONF, STEP33), (STARTING, STEP40 + 1)]"

lemma serves_plan: "serves y st \<Longrightarrow> (y, st) \<in> set sasb_plan"
  by (cases y) (auto simp: serves_def sasb_plan_def)

lemma serves_takes:
  assumes "serves y st" "sp_status sp = st" "syncState a = y"
  shows "DoSync a sp = (if st \<in> {STEP21, STEP22, STEP23} then lowers_value a else Inr True)"
  using assms by (cases "lowers_value a"; cases y) (auto simp: serves_def DoSync_def)

lemma queue_calls_later:
  assumes "unat (sp_status sp) \<le> 9"
  shows "sorted_wrt (<) (sp_status sp # map snd (queue_calls hs False sp)) \<and> (\<forall>(y, st)\<in>set (queue_calls hs False sp). serves y st)"
  using assms
proof (induction hs arbitrary: sp)
  case (Cons has hs)
  obtain z sp' where q: "GetApplicationsQueue has False sp = (z, sp')" by fastforce
  show ?case
  proof (cases "z = SYNC_NONE")
    case False
    have z: "serves z (sp_status sp')" using GetApplicationsQueue_served [OF q False] by simp
    have "sp_status sp < sp_status sp'" using sasb.later [OF q False Cons.prems] by (simp add: word_less_nat_alt)
    then show ?thesis using Cons.IH [OF serves_step [OF z]] z q False by (auto intro: less_trans)
  qed (use q in simp)
qed simp

lemma queue_calls_steps:
  "sorted_wrt (<) (map snd (queue_calls hs True sp)) \<and> (\<forall>(y, st)\<in>set (queue_calls hs True sp). serves y st)"
proof (cases hs)
  case (Cons has hs')
  obtain y sp' where q: "GetApplicationsQueue has True sp = (y, sp')" by fastforce
  show ?thesis
  proof (cases "y = SYNC_NONE")
    case False
    then have z: "serves y (sp_status sp')" using GetApplicationsQueue_served [OF q False] by simp
    from queue_calls_later [OF serves_step [OF z], of hs'] z Cons q False show ?thesis by auto
  qed (use Cons q in simp)
qed simp

text \<open>C20: a session of the policy ends, and frees resources before it takes them. Whatever happens to
  the queues between the calls, at most nine of them are named after a restart, at later and
  later steps: the queues of disabled and blocked applications at the first steps; then the three queues of
  those that move or change their working mode, at steps at which only the applications take part
  whose value gets lower; then the same three queues for the other applications in them; and last
  the queue of the starting ones.\<close>

theorem sasb_session_bounded_and_ordered:
  "length (queue_calls hs True sp) \<le> 9 \<and> sorted_wrt (<) (map snd (queue_calls hs True sp)) \<and>
   (\<forall>(y, st)\<in>set (queue_calls hs True sp). (y, st) \<in> set sasb_plan \<and>
      (\<forall>a sp'. sp_status sp' = st \<longrightarrow> syncState a = y \<longrightarrow>
         DoSync a sp' = (if st \<in> {STEP21, STEP22, STEP23} then lowers_value a else Inr True)))"
proof (intro conjI)
  let ?c = "queue_calls hs True sp"
  show s: "sorted_wrt (<) (map snd ?c)" using queue_calls_steps by blast
  have v: "serves y st" if "(y, st) \<in> set ?c" for y st using that queue_calls_steps [of hs sp] by auto
  have "set (map snd ?c) \<subseteq> snd ` set sasb_plan" using v serves_plan by force
  then have "card (set (map snd ?c)) \<le> card (snd ` set sasb_plan)" by (intro card_mono) simp_all
  also have "card (snd ` set sasb_plan) = 9" by (simp add: sasb_plan_def)
  finally show "length ?c \<le> 9" using distinct_card [of "map snd ?c"] s strict_sorted_iff [of "map snd ?c"] by simp
  show "\<forall>(y, st)\<in>set ?c. (y, st) \<in> set sasb_plan \<and>
      (\<forall>a sp'. sp_status sp' = st \<longrightarrow> syncState a = y \<longrightarrow>
         DoSync a sp' = (if st \<in> {STEP21, STEP22, STEP23} then lowers_value a else Inr True))"
    by (intro ballI, unfold split_paired_all prod.case, intro conjI allI impI) (erule serves_plan [OF v] serves_takes [OF v])+
qed

theorem sasb_session_bounded_and_ordered_witness:
  "\<exists>ys. queue_calls [\<lambda>y. y = RECONF \<or> y = STARTING, \<lambda>y. y = RECONF \<or> y = STARTING, \<lambda>y. y = STARTING, \<lambda>_. False] True SasbSyncPol_new = ys \<and>
     ys = [(RECONF, STEP23), (RECONF, STEP33), (STARTING, 9)] \<and> sorted_wrt (<) (map snd ys) \<and> length ys \<le> 9"
proof -
  let ?ys = "queue_calls [\<lambda>y. y = RECONF \<or> y = STARTING, \<lambda>y. y = RECONF \<or> y = STARTING, \<lambda>y. y = STARTING, \<lambda>_. False] True SasbSyncPol_new"
  have "?ys = [(RECONF, STEP23), (RECONF, STEP33), (STARTING, 9)]" by code_simp
  with sasb_session_bounded_and_ordered [of "[\<lambda>y. y = RECONF \<or> y = STARTING, \<lambda>y. y = RECONF \<or> y = STARTING, \<lambda>y. y = STARTING, \<lambda>_. False]" SasbSyncPol_new]
  show ?thesis by simp
qed

text \<open>Disabled applications hide the blocked ones. When a session starts with a disabled application
  the queue of blocked ones is not named in it: the first step moves on to the second one, and
  the next call moves on once more.\<close>

theorem disabled_hides_blocked:
  assumes "has DISABLED"
  shows "\<exists>ys. map fst (queue_calls (has # hs) True sp) = DISABLED # ys \<and> BLOCKED \<notin> set ys"
proof -
  have later: "BLOCKED \<notin> fst ` set (queue_calls hs False sp)" if "STEP11 \<le> sp_status sp" "unat (sp_status sp) \<le> 9" for hs sp
    using that
  proof (induction hs arbitrary: sp)
    case (Cons has hs)
    obtain z sp' where q: "GetApplicationsQueue has False sp = (z, sp')" by fastforce
    show ?case
    proof (cases "z = SYNC_NONE")
      case False
      have z: "serves z (sp_status sp')" using GetApplicationsQueue_served [OF q False] by simp
      have lt: "unat (sp_status sp) < unat (sp_status sp')" using sasb.later [OF q False Cons.prems(2)] .
      then have "1 < unat (sp_status sp')" using Cons.prems(1) by (simp add: word_le_nat_alt)
      then have "z \<noteq> BLOCKED" "STEP11 \<le> sp_status sp'" using z by (auto simp: serves_def word_le_nat_alt)
      with Cons.IH [OF _ serves_step [OF z]] q False show ?thesis by simp
    qed (use q in simp)
  qed simp
  obtain y sp' where q: "GetApplicationsQueue has True sp = (y, sp')" by fastforce
  have "y = DISABLED" using q assms
    by (simp add: GetApplicationsQueue_def Let_def sasb_loop.simps sasb_step_def step1_def)
  moreover from this have "sp_status sp' = STEP11"
    using GetApplicationsQueue_served [OF q] by (simp add: serves_def)
  ultimately show ?thesis using q later [of sp' hs] by simp
qed

theorem disabled_hides_blocked_witness:
  "\<exists>ys. map fst (queue_calls [\<lambda>y. y = DISABLED \<or> y = BLOCKED, \<lambda>y. y = BLOCKED] True SasbSyncPol_new) = DISABLED # ys \<and> BLOCKED \<notin> set ys"
  by (rule disabled_hides_blocked) simp

end
