(* ===== verification/Sync_Manager.thy ===== *)
theory Sync_Manager
  imports App_Lifecycle Sync_Policy
begin

text \<open>
  The synchronisation manager (\<^verbatim>\<open>bbque/synchronization_manager.cc\<close>): a session that takes the
  queues named by the policy one after the other and brings their applications from a scheduled to
  a running, ready or finished state, with the messages of the protocol that it exchanges with
  an application (\<^verbatim>\<open>bbque/application_proxy.cc\<close>).

  The build has asynchronous protocol calls and no process manager, which is the default of the
  build configuration; whether synchronisation points are forced is \<open>env_force\<close>. The answers of the
  platform manager (\<open>env_map\<close>, \<open>env_reclaim\<close>), of the application over its channel (\<open>env_rsp\<close>,
  \<open>None\<close> when none comes in time) and of the operating system (\<open>env_alive\<close>) come from the environment.
  Collections that the code orders by address are ordered by the numbers of the objects. Metrics,
  printing and sleeping are left out.
\<close>

section \<open>State and environment\<close>

datatype SMExitCode = SM_OK | NOTHING_TO_SYNC | SM_ABORTED | PLATFORM_SYNC_FAILED

record SyncManager =
  sm_am :: ApplicationManager
  sm_ra :: ResourceAccounter
  sm_policy :: SasbSyncPol
  sync_count :: u32
  sync_fails_apps :: "appptr list"

text \<open>What the synchronisation depends on besides the state.\<close>

record SyncEnv =
  env_force :: bool
  env_levels :: u16
  env_mx :: int
  env_beyond :: "nat \<Rightarrow> AssignMap option"
  env_hsh :: "string \<Rightarrow> u64"
  env_ready :: bool
  env_alive :: "u32 \<Rightarrow> bool"
  env_map :: "Application \<Rightarrow> AssignMap option \<Rightarrow> bool"
  env_reclaim :: "Application \<Rightarrow> bool"
  env_rsp :: "Application \<Rightarrow> u32 option"

abbreviation sm_app :: "SyncManager \<Rightarrow> appptr \<Rightarrow> Application" where
  "sm_app sm p \<equiv> app_of (sm_am sm) p"

definition fails_insert :: "appptr \<Rightarrow> SyncManager \<Rightarrow> SyncManager" where
  "fails_insert p sm = sm\<lparr>sync_fails_apps := insort p (removeAll p (sync_fails_apps sm))\<rparr>"

section \<open>Walking a queue\<close>

text \<open>A computation that may run out of its rounds.\<close>

definition seq_loop :: "fault + 'a option \<Rightarrow> ('a \<Rightarrow> fault + 'b option) \<Rightarrow> fault + 'b option" where
  "seq_loop x f = seq_fault x (\<lambda>res. case res of None \<Rightarrow> Inr None | Some a \<Rightarrow> f a)"

fun visit :: "nat \<Rightarrow> itptr \<Rightarrow> (appptr \<Rightarrow> SyncManager \<times> 'a \<Rightarrow> fault + SyncManager \<times> 'a) \<Rightarrow> appptr option \<Rightarrow> SyncManager \<times> 'a \<Rightarrow>
    fault + (SyncManager \<times> 'a) option" where
  "visit fuel i body None s = Inr (Some s)"
| "visit 0 i body (Some p) s = Inr None"
| "visit (Suc fuel) i body (Some p) s =
     seq_fault (body p s) (\<lambda>(sm1, acc1).
       seq_fault (GetNext i (sm_am sm1)) (\<lambda>(next, am2). visit fuel i body next (sm1\<lparr>sm_am := am2\<rparr>, acc1)))"

definition for_each :: "mapref \<Rightarrow> itptr \<Rightarrow> (appptr \<Rightarrow> SyncManager \<times> 'a \<Rightarrow> fault + SyncManager \<times> 'a) \<Rightarrow> SyncManager \<times> 'a \<Rightarrow>
    fault + (SyncManager \<times> 'a) option" where
  "for_each r i body s =
     (case s of (sm, acc) \<Rightarrow>
        seq_fault (GetFirst r i (upd_it i AppsUidMapIt_new (sm_am sm))) (\<lambda>(first, am1).
          seq_loop (visit (length (vecs (sm_am sm) r)) i body first (sm\<lparr>sm_am := am1\<rparr>, acc)) (\<lambda>(sm', acc').
            Inr (Some (sm'\<lparr>sm_am := Release_it i (sm_am sm')\<rparr>, acc')))))"

section \<open>The exchange with an application\<close>

definition sm_Reshuffling :: "Application \<Rightarrow> fault + bool" where
  "sm_Reshuffling a =
     (if syncState a = RECONF then seq_fault (SwitchingAWM a) (\<lambda>switching. Inr (\<not> switching)) else Inr False)"

text \<open>Whether a step of the protocol contacts the application; \<open>None\<close> when the policy leaves it out.\<close>

definition to_contact :: "appptr \<Rightarrow> SyncManager \<Rightarrow> fault + bool option" where
  "to_contact p sm =
     (let a = sm_app sm p in
      seq_fault (DoSync a (sm_policy sm)) (\<lambda>take_part.
        if \<not> take_part then Inr None
        else seq_fault (sm_Reshuffling a) (\<lambda>reshuffling.
          Inr (Some (\<not> (reshuffling \<or> container a) \<and> \<not> Disabled a)))))"

text \<open>The message names the next working mode and the amounts that it has.\<close>

definition SyncP_PreChangeSend :: "SyncEnv \<Rightarrow> appptr \<Rightarrow> SyncManager \<Rightarrow> fault + SyncManager" where
  "SyncP_PreChangeSend env p sm =
     (let a = sm_app sm p in
      if Blocking a then Inr sm
      else case next_awm a of
        None \<Rightarrow> Inl NullDeref
      | Some w \<Rightarrow>
          let m = sync_bindings (awm_objs a w); v = sch_view_token (sm_ra sm) in
          seq_fault (GetAssignedAmount (env_mx env) m (Uid a) v PROC_ELEMENT UNDEFINED R_ID_ANY (sm_ra sm)) (\<lambda>(_, ra1).
            seq_fault (GetAssignedAmount (env_mx env) m (Uid a) v MEMORY UNDEFINED R_ID_ANY ra1) (\<lambda>(_, ra2).
              Inr (sm\<lparr>sm_ra := ra2\<rparr>))))"

text \<open>The answer, which is kept as the synchronisation time of the current working mode.\<close>

definition SyncP_PreChangeRecv :: "u32 \<Rightarrow> appptr \<Rightarrow> SyncManager \<Rightarrow> SyncManager" where
  "SyncP_PreChangeRecv latency p sm =
     (case awm (sm_app sm p) of
        None \<Rightarrow> sm
      | Some w \<Rightarrow> sm\<lparr>sm_am := upd_awm p w (SetRuntimeProfSyncTime latency (awm_objs (sm_app sm p) w)) (sm_am sm)\<rparr>)"

definition Sync_PreChange_Check_EXC_Response :: "SyncEnv \<Rightarrow> appptr \<Rightarrow> SyncManager \<Rightarrow> fault + SyncManager" where
  "Sync_PreChange_Check_EXC_Response env p sm =
     seq_fault (SyncP_PreChangeSend env p sm) (\<lambda>sm1.
       case env_rsp env (sm_app sm1 p) of
         None \<Rightarrow> Inr (fails_insert p sm1)
       | Some latency \<Rightarrow>
           let sm2 = SyncP_PreChangeRecv latency p sm1
           in Inr (sm2\<lparr>sm_policy := CheckLatency latency (sm_policy sm2)\<rparr>))"

text \<open>Collecting the answers. The loop goes on with the same entry when its application has been
  disabled meanwhile, and then does not end: the value \<open>Inr None\<close>.\<close>

fun collect_pre :: "SyncEnv \<Rightarrow> appptr list \<Rightarrow> SyncManager \<Rightarrow> fault + SyncManager option" where
  "collect_pre env [] sm = Inr (Some sm)"
| "collect_pre env (p # ps) sm =
     (if Disabled (sm_app sm p) then Inr None
      else seq_fault (Sync_PreChange_Check_EXC_Response env p sm) (collect_pre env ps))"

definition pre_change_body :: "appptr \<Rightarrow> SyncManager \<times> bool \<times> appptr list \<Rightarrow> fault + SyncManager \<times> bool \<times> appptr list" where
  "pre_change_body p s =
     (case s of (sm, in_progress, rsps) \<Rightarrow>
        seq_fault (to_contact p sm) (\<lambda>contact.
          Inr (case contact of
                 None \<Rightarrow> (sm, in_progress, rsps)
               | Some False \<Rightarrow> (sm, True, rsps)
               | Some True \<Rightarrow> (sm, True, insort p (removeAll p rsps)))))"

definition Sync_PreChange :: "SyncEnv \<Rightarrow> itptr \<Rightarrow> SyncState \<Rightarrow> SyncManager \<Rightarrow> fault + (SMExitCode \<times> SyncManager) option" where
  "Sync_PreChange env i y sm =
     seq_loop (for_each (SYNCQ y) i pre_change_body (sm, False, [])) (\<lambda>(sm1, in_progress, rsps).
       seq_loop (collect_pre env rsps sm1) (\<lambda>sm2.
         Inr (Some (if in_progress then SM_OK else NOTHING_TO_SYNC, sm2))))"


text \<open>With forced synchronisation points the applications are told to synchronise. The loop over
  the answers erases the entry that its iterator is at, and then increments the iterator.\<close>

definition sync_change_body :: "appptr \<Rightarrow> SyncManager \<times> appptr list \<Rightarrow> fault + SyncManager \<times> appptr list" where
  "sync_change_body p s =
     (case s of (sm, rsps) \<Rightarrow>
        seq_fault (to_contact p sm) (\<lambda>contact.
          Inr (if contact = Some True then (sm, insort p (removeAll p rsps)) else (sm, rsps))))"

fun collect_sync :: "SyncEnv \<Rightarrow> appptr list \<Rightarrow> SyncManager \<Rightarrow> fault + SyncManager" where
  "collect_sync env [] sm = Inr sm"
| "collect_sync env (p # ps) sm = (if Disabled (sm_app sm p) then collect_sync env ps sm else Inl Dangling)"

definition Sync_SyncChange :: "SyncEnv \<Rightarrow> itptr \<Rightarrow> SyncState \<Rightarrow> SyncManager \<Rightarrow> fault + (SMExitCode \<times> SyncManager) option" where
  "Sync_SyncChange env i y sm =
     seq_loop (for_each (SYNCQ y) i sync_change_body (sm, [])) (\<lambda>(sm1, rsps).
       seq_fault (collect_sync env rsps sm1) (\<lambda>sm2. Inr (Some (SM_OK, sm2))))"

text \<open>The request to change is sent and not waited for.\<close>

definition Sync_DoChange :: "itptr \<Rightarrow> SyncState \<Rightarrow> SyncManager \<Rightarrow> fault + (SMExitCode \<times> SyncManager) option" where
  "Sync_DoChange i y sm =
     seq_loop (for_each (SYNCQ y) i (\<lambda>p (sm, u). seq_fault (to_contact p sm) (\<lambda>_. Inr (sm, u))) (sm, ())) (\<lambda>(sm1, _).
       Inr (Some (SM_OK, sm1)))"

section \<open>The platform\<close>

definition MapResources :: "SyncEnv \<Rightarrow> Application \<Rightarrow> fault + SMExitCode" where
  "MapResources env a =
     seq_fault
       (if syncState a \<in> {STARTING, RECONF, MIGREC, MIGRATE}
        then case next_awm a of
               None \<Rightarrow> Inl NullDeref
             | Some w \<Rightarrow> Inr (env_map env a (sync_bindings (awm_objs a w)))
        else if syncState a = BLOCKED then Inr (env_reclaim env a)
        else Inr True)
       (\<lambda>done. Inr (if \<not> done \<and> env_alive env (sch_pid a) then PLATFORM_SYNC_FAILED else SM_OK))"

definition platform_body :: "SyncEnv \<Rightarrow> appptr \<Rightarrow> SyncManager \<times> bool \<Rightarrow> fault + SyncManager \<times> bool" where
  "platform_body env p s =
     (case s of (sm, success) \<Rightarrow>
        seq_fault (DoSync (sm_app sm p) (sm_policy sm)) (\<lambda>take_part.
          if \<not> take_part then Inr (sm, success)
          else seq_fault (MapResources env (sm_app sm p)) (\<lambda>result.
            Inr (if result \<noteq> SM_OK then (fails_insert p sm, success) else (sm, True)))))"

definition Sync_Platform :: "SyncEnv \<Rightarrow> itptr \<Rightarrow> SyncState \<Rightarrow> SyncManager \<Rightarrow> fault + (SMExitCode \<times> SyncManager) option" where
  "Sync_Platform env i y sm =
     seq_loop (for_each (SYNCQ y) i (platform_body env) (sm, False)) (\<lambda>(sm1, success).
       Inr (Some (if success then SM_OK else PLATFORM_SYNC_FAILED, sm1)))"

section \<open>The commit\<close>

text \<open>The accounter's \<open>SyncAcquireResources\<close> with the working mode that it reads and updates. A null map
  of assignments is dereferenced once the application is known to hold no resources.\<close>

definition sync_acquire :: "SyncEnv \<Rightarrow> appptr \<Rightarrow> System \<Rightarrow> fault + RAExitCode \<times> System" where
  "sync_acquire env p sys =
     (case sys of (am, ra) \<Rightarrow>
        let a = app_of am p in
        case next_awm a of
          None \<Rightarrow> (case SyncAcquireResources (Uid a) None ra of (result, ra1) \<Rightarrow> Inr (result, am, ra1))
        | Some w \<Rightarrow>
            let m = sync_bindings (awm_objs a w) in
            case SyncAcquireResources (Uid a) (Some (case m of None \<Rightarrow> [] | Some m \<Rightarrow> m)) ra of (result, ra1) \<Rightarrow>
              if result \<noteq> RA_SUCCESS then Inr (result, am, ra1)
              else if m = None then Inl NullDeref
              else seq_fault
                (UpdateBindingInfo (env_beyond env) (env_mx env) (ss_view (sync_ssn ra1)) False ra1 (awm_objs a w))
                (\<lambda>(ra2, wm). Inr (result, upd_awm p w wm am, ra2)))"

definition sm_SyncCommit :: "SyncEnv \<Rightarrow> appptr \<Rightarrow> SyncManager \<Rightarrow> fault + SyncManager" where
  "sm_SyncCommit env p sm =
     (let a = sm_app sm p in
      seq_fault
        (if Blocking a \<or> Disabled a then Inr (sm_am sm, sm_ra sm)
         else seq_fault (sync_acquire env p (sm_am sm, sm_ra sm)) (\<lambda>(result, sys).
           if result \<noteq> RA_SUCCESS then AM_SyncAbort (env_levels env) (env_ready env) (env_alive env) p sys
           else Inr sys))
        (\<lambda>(am1, ra1). seq_fault (AM_SyncCommit (env_levels env) p am1) (\<lambda>(_, am2).
           Inr (sm\<lparr>sm_am := am2, sm_ra := ra1\<rparr>))))"

definition post_change_body :: "SyncEnv \<Rightarrow> appptr \<Rightarrow> SyncManager \<times> unit \<Rightarrow> fault + SyncManager \<times> unit" where
  "post_change_body env p s =
     (case s of (sm, u) \<Rightarrow>
        seq_fault (DoSync (sm_app sm p) (sm_policy sm)) (\<lambda>take_part.
          if \<not> take_part \<or> p \<in> set (sync_fails_apps sm) then Inr (sm, u)
          else seq_fault (sm_SyncCommit env p sm) (\<lambda>sm1. Inr (sm1, u))))"

definition Sync_PostChange :: "SyncEnv \<Rightarrow> itptr \<Rightarrow> SyncState \<Rightarrow> SyncManager \<Rightarrow> fault + (SMExitCode \<times> SyncManager) option" where
  "Sync_PostChange env i y sm =
     seq_loop (for_each (SYNCQ y) i (post_change_body env) (sm, ())) (\<lambda>(sm1, _). Inr (Some (SM_OK, sm1)))"

section \<open>The session\<close>

text \<open>The steps for a queue; one that does not answer \<open>OK\<close> ends them.\<close>

fun run_steps :: "(SyncManager \<Rightarrow> fault + (SMExitCode \<times> SyncManager) option) list \<Rightarrow> SyncManager \<Rightarrow>
    fault + (SMExitCode \<times> SyncManager) option" where
  "run_steps [] sm = Inr (Some (SM_OK, sm))"
| "run_steps (f # fs) sm =
     seq_loop (f sm) (\<lambda>(result, sm1). if result \<noteq> SM_OK then Inr (Some (result, sm1)) else run_steps fs sm1)"

definition SyncApps :: "SyncEnv \<Rightarrow> itptr \<Rightarrow> SyncState \<Rightarrow> SyncManager \<Rightarrow> fault + (SMExitCode \<times> SyncManager) option" where
  "SyncApps env i y sm =
     (if \<not> HasApplications (SYNCQ y) (sm_am sm) then Inr (Some (NOTHING_TO_SYNC, sm))
      else if env_force env
      then run_steps [Sync_PreChange env i y, Sync_SyncChange env i y, Sync_Platform env i y, Sync_DoChange i y,
                      Sync_PostChange env i y] sm
      else run_steps [Sync_Platform env i y, Sync_PreChange env i y, Sync_PostChange env i y] sm)"

text \<open>The bindings of the running applications, up to a null pointer.\<close>

fun running_bindings :: "ApplicationManager \<Rightarrow> AppsUidMap \<Rightarrow> (AppUid \<times> AssignMap) list \<times> bool" where
  "running_bindings am [] = ([], False)"
| "running_bindings am ((u, p) # m) =
     (case map_option (\<lambda>w. sync_bindings (awm_objs (app_of am p) w)) (awm (app_of am p)) of
        Some (Some b) \<Rightarrow> (case running_bindings am m of (bs, null) \<Rightarrow> ((Uid (app_of am p), b) # bs, null))
      | _ \<Rightarrow> ([], True))"

definition start_session :: "SyncEnv \<Rightarrow> SyncManager \<Rightarrow> fault + RAExitCode \<times> SyncManager" where
  "start_session env sm =
     (case running_bindings (sm_am sm) (vecs (sm_am sm) (STATUS RUNNING)) of
        (running, null) \<Rightarrow>
          seq_fault (SyncStart (env_hsh env) running (sm_ra sm)) (\<lambda>(result, ra).
            if result = RA_SUCCESS \<and> null then Inl NullDeref else Inr (result, sm\<lparr>sm_ra := ra\<rparr>)))"

definition next_queue :: "bool \<Rightarrow> SyncManager \<Rightarrow> SyncState \<times> SyncManager" where
  "next_queue restart sm =
     (case GetApplicationsQueue (\<lambda>y. HasApplications (SYNCQ y) (sm_am sm)) restart (sm_policy sm) of
        (y, sp) \<Rightarrow> (y, sm\<lparr>sm_policy := sp\<rparr>))"

fun SyncSchedule_loop :: "nat \<Rightarrow> SyncEnv \<Rightarrow> itptr \<Rightarrow> SyncState \<Rightarrow> SyncManager \<Rightarrow> fault + SyncManager option" where
  "SyncSchedule_loop fuel env i SYNC_NONE sm = Inr (Some sm)"
| "SyncSchedule_loop 0 env i y sm = Inr None"
| "SyncSchedule_loop (Suc fuel) env i y sm =
     seq_loop (SyncApps env i y sm) (\<lambda>(_, sm1).
       case next_queue False sm1 of (y', sm2) \<Rightarrow> SyncSchedule_loop fuel env i y' sm2)"

text \<open>An application that is alive is disabled; one that is dead is by the check.\<close>

fun DisableFailedApps :: "SyncEnv \<Rightarrow> appptr list \<Rightarrow> SyncManager \<Rightarrow> fault + SyncManager" where
  "DisableFailedApps env [] sm = Inr (sm\<lparr>sync_fails_apps := []\<rparr>)"
| "DisableFailedApps env (p # ps) sm =
     seq_fault (CheckEXC (env_levels env) (env_ready env) (env_alive env) p True (sm_am sm, sm_ra sm)) (\<lambda>(is_alive, sys1).
       seq_fault (if is_alive then seq_fault (DisableEXC (env_ready env) p True sys1) (\<lambda>(_, sys2). Inr sys2) else Inr sys1)
         (\<lambda>(am2, ra2). DisableFailedApps env ps (sm\<lparr>sm_am := am2, sm_ra := ra2\<rparr>)))"

definition SyncSchedule :: "SyncEnv \<Rightarrow> itptr \<Rightarrow> SyncManager \<Rightarrow> fault + (SMExitCode \<times> SyncManager) option" where
  "SyncSchedule env i sm =
     (case next_queue True (sm\<lparr>sync_count := sync_count sm + 1\<rparr>) of
        (y, sm1) \<Rightarrow>
          if y = SYNC_NONE then Inr (Some (SM_OK, sm1))
          else seq_fault (start_session env sm1) (\<lambda>(started, sm2).
            if started \<noteq> RA_SUCCESS then Inr (Some (SM_ABORTED, sm2))
            else seq_loop (SyncSchedule_loop 10 env i y sm2) (\<lambda>sm3.
              case SyncCommit (sm_ra sm3) of (committed, ra) \<Rightarrow>
                if committed \<noteq> RA_SUCCESS then Inr (Some (SM_ABORTED, sm3\<lparr>sm_ra := ra\<rparr>))
                else seq_fault (DisableFailedApps env (sync_fails_apps sm3) (sm3\<lparr>sm_ra := ra\<rparr>)) (\<lambda>sm4.
                  Inr (Some (SM_OK, sm4))))))"

end
