(* ===== verification/Sync_Session.thy ===== *)
theory Sync_Session
  imports Sync_Manager
begin

text \<open>
  Synchronisation sessions: what a commit does to the queues and to the iterators that walk them,
  that every walk and every session ends, and the invariants that a session keeps. A property of
  the state that the three kinds of change of a session keep is kept by the whole session; this is
  the contract of the locale \<open>session_invariant\<close>, used for the step of the policy and for the queues.
\<close>

section \<open>What a commit does to the other applications\<close>

text \<open>An iterator that is moved on because its entry is erased.\<close>

definition advances :: "AppUid \<Rightarrow> AppsUidMapIt \<Rightarrow> AppsUidMapIt \<Rightarrow> bool" where
  "advances uid a b \<longleftrightarrow> b = a \<or>
     it_pos a = Some uid \<and> it_updated b \<and> it_map b = it_map a \<and> (\<forall>k. it_pos b = Some k \<longrightarrow> uid < k)"

text \<open>An iterator from which every later key of the map is still ahead.\<close>

definition skips_none :: "AppUid \<Rightarrow> AppsUidMap \<Rightarrow> AppUid option \<Rightarrow> bool" where
  "skips_none uid m pos \<longleftrightarrow> (\<forall>u\<in>fst ` set m. uid < u \<longrightarrow> (\<exists>k. pos = Some k \<and> k \<le> u))"

lemma advances_refl [simp]: "advances uid a a"
  by (simp add: advances_def)

lemma advances_once:
  assumes "advances uid a b" "advances uid b c"
  shows "advances uid a c \<and> (b = a \<or> c = b)"
  using assms by (auto simp: advances_def)

lemma next_key_greater:
  assumes "next_key pos m = Inr (Some k')"
  shows "\<exists>k. pos = Some k \<and> k < k'"
  using assms by (auto simp: next_key_def find_Some_iff split: option.splits if_splits) (metis fst_conv)

lemma next_key_skips_none:
  assumes "next_key (Some k) m = Inr pos" "om_ok m"
  shows "skips_none k m pos"
proof (unfold skips_none_def, intro ballI impI)
  fix u
  assume u: "u \<in> fst ` set m" "k < u"
  then obtain j where j: "j < length m" "fst (m ! j) = u" by (auto simp: in_set_conv_nth)
  have p: "pos = map_option fst (find (\<lambda>e. k < fst e) m)" using assms(1) by (auto simp: next_key_def split: if_splits)
  obtain e where e: "find (\<lambda>e. k < fst e) m = Some e"
    using u by (cases "find (\<lambda>e. k < fst e) m") (auto simp: find_None_iff)
  then obtain l where l: "l < length m" "m ! l = e" "\<forall>l'<l. \<not> k < fst (m ! l')" by (auto simp: find_Some_iff)
  have "l \<le> j" using l(3) j u by (meson leI)
  moreover have "sorted (map fst m)" using assms(2) by (simp add: om_ok_def strict_sorted_iff)
  ultimately have "fst e \<le> u" using sorted_nth_mono [of "map fst m" l j] l j by simp
  then show "\<exists>k'. pos = Some k' \<and> k' \<le> u" using p e by simp
qed

lemma It_Update_advances:
  assumes "It_Update am ait = Inr ait'" "it_pos ait = Some uid"
  shows "advances uid ait ait'"
    "it_map ait = Some r \<Longrightarrow> om_ok (vecs am r) \<Longrightarrow> skips_none uid (vecs am r) (it_pos ait')"
proof -
  obtain m pos where m: "it_vec ait am = Inr m" and n: "next_key (it_pos ait) m = Inr pos"
    and ait': "ait' = ait\<lparr>it_pos := pos, it_updated := True\<rparr>"
    using assms(1) by (auto simp: It_Update_def elim!: seq_fault_InrE)
  show "advances uid ait ait'" using next_key_greater [of "it_pos ait" m] n assms(2) by (auto simp: advances_def ait')
  show "skips_none uid (vecs am r) (it_pos ait')" if "it_map ait = Some r" "om_ok (vecs am r)"
    using next_key_skips_none n m that assms(2) by (simp add: ait' it_vec_def)
qed

lemma UpdateIterators_advances:
  "UpdateIterators is uid am = Inr am' \<Longrightarrow> advances uid (iters am i) (iters am' i) \<and>
     (it_map (iters am i) = Some r \<longrightarrow> om_ok (vecs am r) \<longrightarrow> iters am' i \<noteq> iters am i \<longrightarrow>
        skips_none uid (vecs am r) (it_pos (iters am' i)))"
proof (induction "is" uid am rule: UpdateIterators.induct)
  case (2 j "is" uid am)
  show ?case
  proof (cases "it_pos (iters am j) = Some uid")
    case True
    with "2.prems" obtain ait where u: "It_Update am (iters am j) = Inr ait" "UpdateIterators is uid (upd_it j ait am) = Inr am'"
      by (auto elim!: seq_fault_InrE)
    have v: "vecs (upd_it j ait am) = vecs am" by (simp add: upd_it_def)
    note 1 = It_Update_advances [OF u(1) True]
    note 3 = "2.IH"(2) [OF True _ u, simplified, unfolded v]
    show ?thesis
    proof (cases "i = j")
      case True
      then have i: "iters (upd_it j ait am) i = ait" by (simp add: upd_it_def)
      have a: "advances uid (iters am i) ait" "advances uid ait (iters am' i)" using 1(1) 3 i True by auto
      have "it_map (iters am i) = it_map ait" using a(1) by (auto simp: advances_def)
      then show ?thesis using advances_once [OF a] 1(2) [of r] 3 i True by auto
    next
      case False
      then have "iters (upd_it j ait am) i = iters am i" by (simp add: upd_it_def)
      with 3 show ?thesis by simp
    qed
  next
    case False
    with "2.prems" obtain k where "it_pos (iters am j) = Some k" "k \<noteq> uid" "UpdateIterators is uid am = Inr am'"
      by (auto split: option.splits if_splits)
    then show ?thesis using "2.IH"(1) by blast
  qed
qed simp

text \<open>A change that is about one application: it can take it out of the queue, and touches neither
  the other applications nor the registry nor the entries of the others; an iterator at the
  application may be moved to the next entry.\<close>

definition settles :: "appptr \<Rightarrow> mapref \<Rightarrow> itptr \<Rightarrow> ApplicationManager \<Rightarrow> ApplicationManager \<Rightarrow> bool" where
  "settles p mr i am am' \<longleftrightarrow>
     (\<forall>u. queue am' mr u = queue am mr u \<or> u = Uid (app_of am p) \<and> queue am' mr u = None) \<and>
     (om_ok (vecs am mr) \<longrightarrow> om_ok (vecs am' mr)) \<and>
     vecs am' UIDS = vecs am UIDS \<and> Uid (app_of am' p) = Uid (app_of am p) \<and> (\<forall>q. q \<noteq> p \<longrightarrow> app_of am' q = app_of am q) \<and>
     advances (Uid (app_of am p)) (iters am i) (iters am' i) \<and>
     (it_map (iters am i) = Some mr \<longrightarrow> om_ok (vecs am mr) \<longrightarrow> iters am' i \<noteq> iters am i \<longrightarrow>
        skips_none (Uid (app_of am p)) (vecs am' mr) (it_pos (iters am' i)))"

lemma settles_refl [simp]: "settles p mr i am am"
  by (simp add: settles_def)

lemma settles_keys: "settles p mr i am am' \<Longrightarrow> fst ` set (vecs am' mr) \<subseteq> fst ` set (vecs am mr)"
  unfolding settles_def dom_map_of_conv_image_fst [symmetric] by (elim conjE, rule subsetI, erule_tac x = x in allE) auto

lemma skips_none_fewer: "skips_none uid m pos \<Longrightarrow> fst ` set m' \<subseteq> fst ` set m \<Longrightarrow> skips_none uid m' pos"
  unfolding skips_none_def by blast

lemma settles_trans:
  assumes "settles p mr i am am1" "settles p mr i am1 am2"
  shows "settles p mr i am am2"
proof -
  let ?u = "Uid (app_of am p)"
  have u: "Uid (app_of am1 p) = ?u" using assms(1) by (simp add: settles_def)
  have a: "advances ?u (iters am i) (iters am1 i)" "advances ?u (iters am1 i) (iters am2 i)"
    using assms u by (auto simp: settles_def)
  have "skips_none ?u (vecs am2 mr) (it_pos (iters am2 i))"
    if "it_map (iters am i) = Some mr" "om_ok (vecs am mr)" "iters am2 i \<noteq> iters am i"
  proof (cases "iters am1 i = iters am i")
    case True
    then show ?thesis using assms that u by (auto simp: settles_def)
  next
    case False
    then have "iters am2 i = iters am1 i" using advances_once [OF a] by blast
    moreover have "skips_none ?u (vecs am1 mr) (it_pos (iters am1 i))" using assms(1) that False by (simp add: settles_def)
    ultimately show ?thesis using skips_none_fewer settles_keys [OF assms(2)] by simp
  qed
  moreover have "queue am2 mr v = queue am mr v \<or> v = ?u \<and> queue am2 mr v = None" for v
    using assms u unfolding settles_def by metis
  ultimately show ?thesis using assms advances_once [OF a] unfolding settles_def by simp
qed

lemma erase_app_settles:
  assumes "erase_app r p am = Inr am'" "r \<noteq> UIDS"
  shows "settles p mr i am am'"
proof -
  let ?u = "Uid (app_of am p)"
  obtain am1 where u: "UpdateIterators (rets am r) ?u am = Inr am1" and am': "am' = upd_vec r (om_erase ?u) am1"
    using assms(1) by (auto simp: erase_app_def elim!: seq_fault_InrE)
  obtain its where am1: "am1 = am\<lparr>iters := its\<rparr>" using UpdateIterators_only [OF u] by blast
  have fewer: "fst ` set (om_erase ?u m) \<subseteq> fst ` set m" for m :: AppsUidMap by (auto simp: om_erase_def)
  have v: "vecs am' mr = (if r = mr then om_erase ?u (vecs am mr) else vecs am mr)"
    using am' am1 by (simp add: upd_vec_def)
  note adv = UpdateIterators_advances [OF u, of i mr]
  have s: "skips_none ?u (vecs am' mr) pos" if "skips_none ?u (vecs am mr) pos" for pos
    using that v skips_none_fewer [OF that fewer] by simp
  from adv assms(2) show ?thesis unfolding settles_def using v s
    by (auto simp: am' am1 upd_vec_def)
qed

lemma insert_app_settles:
  assumes "r \<noteq> mr" "r \<noteq> UIDS"
  shows "settles p mr i am (insert_app r p am)"
  using assms by (auto simp: settles_def insert_app_def upd_vec_def)

lemma upd_app_settles:
  assumes "Uid a = Uid (app_of am p)"
  shows "settles p mr i am (upd_app p a am)"
  using assms by (simp add: settles_def upd_app_def)

lemma UpdateStatusMaps_settles:
  assumes "UpdateStatusMaps p s s' am = Inr (e, am')" "STATUS s' \<noteq> mr"
  shows "settles p mr i am am'"
  using assms
  by (auto simp: UpdateStatusMaps_def split: if_splits elim!: seq_fault_InrE
      intro: settles_trans [OF insert_app_settles] erase_app_settles)

lemma RemoveFromSyncMap_settles:
  "RemoveFromSyncMap_state p s am = Inr am' \<Longrightarrow> settles p mr i am am'"
  by (auto simp: RemoveFromSyncMap_state_def split: if_splits intro: erase_app_settles)

lemma AddToSyncMap_settles:
  assumes "AddToSyncMap p am = Inr am'" "SYNCQ (syncState (app_of am p)) \<noteq> mr"
  shows "settles p mr i am am'"
  using assms by (auto simp: AddToSyncMap_def AddToSyncMap_state_def split: if_splits intro: insert_app_settles)

lemma ChangeEXCState_settles:
  assumes "ChangeEXCState p ns ny am = Inr (e, am')" "ns = SYNC \<Longrightarrow> SYNCQ ny \<noteq> mr" "STATUS ns \<noteq> mr"
  shows "settles p mr i am am'"
proof (cases "sch_state (app_of am p) = ns \<and> syncState (app_of am p) = ny")
  case False
  let ?a = "app_of am p"
  note run = assms(1) [unfolded ChangeEXCState_def Let_def if_not_P [OF False]]
  from run obtain ret a where s: "Sched_SetState ns ny ?a = Inr (ret, a)"
    and rest: "am' = upd_app p a am \<or> ret = APP_SUCCESS \<and> (\<exists>am2 am3.
      (if sch_state ?a = SYNC then RemoveFromSyncMap_state p (syncState ?a) (upd_app p a am) else Inr (upd_app p a am)) = Inr am2 \<and>
      (if ns = SYNC then AddToSyncMap p am2 else Inr am2) = Inr am3 \<and>
      (am' = am3 \<or> UpdateStatusMaps p (sch_state ?a) ns am3 = Inr (e, am')))"
    by (elim seq_fault_InrE) (auto split: if_splits elim!: seq_fault_InrE)
  have 1: "settles p mr i am (upd_app p a am)" by (rule upd_app_settles [OF Sched_SetState_Uid [OF s]])
  show ?thesis using rest
  proof (elim disjE exE conjE)
    fix am2 am3
    assume ret: "ret = APP_SUCCESS"
      and 2: "(if sch_state ?a = SYNC then RemoveFromSyncMap_state p (syncState ?a) (upd_app p a am) else Inr (upd_app p a am)) = Inr am2"
      and 3: "(if ns = SYNC then AddToSyncMap p am2 else Inr am2) = Inr am3"
    have "settles p mr i (upd_app p a am) am2" using 2 by (auto split: if_splits intro: RemoveFromSyncMap_settles)
    moreover have "app_objs am2 = app_objs (upd_app p a am)"
      using 2 by (auto simp: RemoveFromSyncMap_state_def same_objs_def split: if_splits dest: erase_app_queues(1))
    then have "syncState (app_of am2 p) = ny" using Sched_SetState_result [OF s [unfolded ret]] by (simp add: upd_app_def)
    then have "settles p mr i am2 am3" using 3 assms(2) by (auto split: if_splits intro: AddToSyncMap_settles)
    ultimately have 4: "settles p mr i am am3" using 1 by (blast intro: settles_trans)
    show "settles p mr i am am'" if "am' = am3" using that 4 by simp
    show "settles p mr i am am'" if "UpdateStatusMaps p (sch_state ?a) ns am3 = Inr (e, am')"
      by (rule settles_trans [OF 4 UpdateStatusMaps_settles [OF that assms(3)]])
  qed (use 1 in simp)
qed (use assms in \<open>simp add: ChangeEXCState_def Let_def\<close>)

lemma DestroyEXC_settles:
  assumes "DestroyEXC levels p am = Inr (e, am')" "STATUS FINISHED \<noteq> mr"
  shows "settles p mr i am am'"
proof -
  obtain r am1 am2 am3 where
    1: "(if sch_state (app_of am p) \<noteq> FINISHED then ChangeEXCState p FINISHED SYNC_NONE am else Inr (AM_SUCCESS, am)) = Inr (r, am1)"
    and 2: "PriorityRemove levels p am1 = Inr am2" and 3: "LangRemove p am2 = Inr am3"
    and 4: "am' = (AppsRemove p am3)\<lparr>cleanup_timeout :=
      Some (100 - 10 * (ucast (AppsCount_of (STATUS FINISHED) (AppsRemove p am3)) mod 5))\<rparr>"
    using assms unfolding DestroyEXC_def Let_def by (elim seq_fault_InrE) (auto elim!: seq_fault_InrE)
  have "settles p mr i am am1" using 1 assms(2) by (auto split: if_splits intro: ChangeEXCState_settles)
  moreover have "settles p mr i am1 am2" using 2 by (auto simp: PriorityRemove_def split: if_splits intro: erase_app_settles)
  moreover have "settles p mr i am2 am3" using 3 by (auto simp: LangRemove_def intro: erase_app_settles)
  moreover have "settles p mr i am3 am'" by (simp add: 4 settles_def AppsRemove_def)
  ultimately show ?thesis by (blast intro: settles_trans)
qed


lemma App_SyncCommit_Uid:
  assumes "App_SyncCommit s = Inr (e, s')"
  shows "Uid s' = Uid s"
proof (cases "sch_state s = SYNC \<and> syncState s \<noteq> SYNC_NONE")
  case True
  then show ?thesis using App_SyncCommit_result [OF assms] by simp
next
  case False
  then show ?thesis using assms by (cases "sch_state s = SYNC") (simp_all add: App_SyncCommit_def)
qed

lemma AM_SyncCommit_settles:
  assumes "AM_SyncCommit levels p am = Inr (e, am')" "\<And>s. STATUS s \<noteq> mr"
  shows "settles p mr i am am'"
proof -
  obtain c s r am1 am2 where 0: "App_SyncCommit (app_of am p) = Inr (c, s)"
    and 1: "UpdateStatusMaps p (sch_state (app_of am p)) (sch_state s) (upd_app p s am) = Inr (r, am1)"
    and 2: "RemoveFromSyncMap_state p (syncState (app_of am p)) am1 = Inr am2"
    and 3: "am' = am2 \<or> (\<exists>e. DestroyEXC levels p am2 = Inr (e, am'))"
    using assms(1) unfolding AM_SyncCommit_def Let_def
    by (elim seq_fault_InrE) (auto split: if_splits elim!: seq_fault_InrE)
  have "settles p mr i am (upd_app p s am)" by (rule upd_app_settles [OF App_SyncCommit_Uid [OF 0]])
  moreover note UpdateStatusMaps_settles [OF 1 assms(2)] RemoveFromSyncMap_settles [OF 2]
  moreover have "settles p mr i am2 am'" using 3 assms(2) by (auto intro: DestroyEXC_settles)
  ultimately show ?thesis by (blast intro: settles_trans)
qed

lemma AM_SyncAbort_settles:
  assumes "AM_SyncAbort levels ready alive p (am, ra) = Inr (am', ra')" "\<And>s. STATUS s \<noteq> mr"
  shows "settles p mr i am am'"
proof -
  obtain b am1 ra1 e where c: "CheckEXC levels ready alive p False (am, ra) = Inr (b, am1, ra1)"
    and s: "ChangeEXCState p (if b then READY else FINISHED) SYNC_NONE am1 = Inr (e, am')"
    using assms(1) by (auto simp: AM_SyncAbort_def elim!: seq_fault_InrE)
  have "settles p mr i am am1"
    using c assms(2) by (auto simp: CheckEXC_def Let_def split: if_splits elim!: seq_fault_InrE intro: DestroyEXC_settles)
  moreover have "settles p mr i am1 am'" by (rule ChangeEXCState_settles [OF s]) (use assms(2) in \<open>simp_all split: if_splits\<close>)
  ultimately show ?thesis by (rule settles_trans)
qed

lemma upd_awm_settles: "settles p mr i am (upd_awm p w wm am)"
  unfolding upd_awm_def by (rule upd_app_settles) (simp add: Uid_def)

lemma sync_acquire_result:
  assumes "sync_acquire env p (am, ra) = Inr (c, am', ra')"
  shows "am' = am \<or> (\<exists>w wm. am' = upd_awm p w wm am)"
  using assms
  by (auto simp: sync_acquire_def Let_def split: option.splits prod.splits if_splits elim!: seq_fault_InrE)

lemma sync_acquire_settles:
  "sync_acquire env p (am, ra) = Inr (c, am', ra') \<Longrightarrow> settles p mr i am am'"
  by (drule sync_acquire_result) (auto intro: upd_awm_settles)

text \<open>The two ways of a commit.\<close>

lemma sm_SyncCommit_cases:
  assumes "sm_SyncCommit env p sm = Inr sm'"
  obtains (free) e am2 where "Blocking (sm_app sm p) \<or> Disabled (sm_app sm p)"
      "AM_SyncCommit (env_levels env) p (sm_am sm) = Inr (e, am2)" "sm' = sm\<lparr>sm_am := am2\<rparr>"
    | (acquired) am1 ra1 e am2 where "\<not> Blocking (sm_app sm p)" "\<not> Disabled (sm_app sm p)"
      "sync_acquire env p (sm_am sm, sm_ra sm) = Inr (RA_SUCCESS, am1, ra1)"
      "AM_SyncCommit (env_levels env) p am1 = Inr (e, am2)" "sm' = sm\<lparr>sm_am := am2, sm_ra := ra1\<rparr>"
    | (refused) c am0 ra0 am1 ra1 e am2 where "\<not> Blocking (sm_app sm p)" "\<not> Disabled (sm_app sm p)"
      "sync_acquire env p (sm_am sm, sm_ra sm) = Inr (c, am0, ra0)" "c \<noteq> RA_SUCCESS"
      "AM_SyncAbort (env_levels env) (env_ready env) (env_alive env) p (am0, ra0) = Inr (am1, ra1)"
      "AM_SyncCommit (env_levels env) p am1 = Inr (e, am2)" "sm' = sm\<lparr>sm_am := am2, sm_ra := ra1\<rparr>"
proof -
  obtain am1 ra1 e am2 where 1: "(if Blocking (sm_app sm p) \<or> Disabled (sm_app sm p) then Inr (sm_am sm, sm_ra sm)
         else seq_fault (sync_acquire env p (sm_am sm, sm_ra sm)) (\<lambda>(result, sys).
           if result \<noteq> RA_SUCCESS then AM_SyncAbort (env_levels env) (env_ready env) (env_alive env) p sys
           else Inr sys)) = Inr (am1, ra1)"
    and 2: "AM_SyncCommit (env_levels env) p am1 = Inr (e, am2)" "sm' = sm\<lparr>sm_am := am2, sm_ra := ra1\<rparr>"
    using assms unfolding sm_SyncCommit_def Let_def by (elim seq_fault_InrE) (auto elim!: seq_fault_InrE)
  show thesis
  proof (cases "Blocking (sm_app sm p) \<or> Disabled (sm_app sm p)")
    case True
    then show thesis using 1 2 free by simp
  next
    case False
    with 1 obtain c am0 ra0 where a: "sync_acquire env p (sm_am sm, sm_ra sm) = Inr (c, am0, ra0)"
      and b: "(if c \<noteq> RA_SUCCESS then AM_SyncAbort (env_levels env) (env_ready env) (env_alive env) p (am0, ra0)
           else Inr (am0, ra0)) = Inr (am1, ra1)"
      by (auto elim!: seq_fault_InrE)
    show thesis
    proof (cases "c = RA_SUCCESS")
      case True
      then show thesis using acquired False a b 2 by simp
    next
      case refusal: False
      then show thesis using refused [OF _ _ a refusal] False b 2 by simp
    qed
  qed
qed

lemma sm_SyncCommit_settles:
  assumes "sm_SyncCommit env p sm = Inr sm'" "\<And>s. STATUS s \<noteq> mr"
  shows "settles p mr i (sm_am sm) (sm_am sm')"
  using assms(1)
proof (cases rule: sm_SyncCommit_cases)
  case (refused c am0 ra0 am1 ra1 e am2)
  from settles_trans [OF sync_acquire_settles [OF refused(3)] settles_trans [OF AM_SyncAbort_settles [OF refused(5) assms(2)]
    AM_SyncCommit_settles [OF refused(6) assms(2)]]] refused(7) show ?thesis by simp
next
  case (free e am2)
  then show ?thesis using AM_SyncCommit_settles [OF free(2) assms(2)] by simp
next
  case (acquired am1 ra1 e am2)
  then show ?thesis
    using settles_trans [OF sync_acquire_settles [OF acquired(3)] AM_SyncCommit_settles [OF acquired(4) assms(2)]] by simp
qed


section \<open>Walks end\<close>

abbreviation keys_from :: "AppUid \<Rightarrow> AppsUidMap \<Rightarrow> AppUid set" where
  "keys_from k m \<equiv> {x \<in> fst ` set m. k \<le> x}"

lemma GetNext_later:
  assumes "GetNext i am1 = Inr (Some p, am2)" "advances uid ait (iters am1 i)" "\<not> it_updated ait" "it_pos ait = Some k"
    "it_map ait = Some r"
  shows "\<exists>k'. it_pos (iters am2 i) = Some k' \<and> k < k' \<and> k' \<in> fst ` set (vecs am2 r) \<and>
    \<not> it_updated (iters am2 i) \<and> it_map (iters am2 i) = Some r"
proof -
  have m: "it_map (iters am1 i) = Some r" using assms(2,5) by (auto simp: advances_def)
  obtain it2 where n: "It_next am1 (iters am1 i) = Inr it2" "it_pos it2 \<noteq> None" "It_Get (upd_it i it2 am1) it2 = Inr p"
    "am2 = upd_it i it2 am1"
    using assms(1) by (auto simp: GetNext_def Let_def split: if_splits elim!: seq_fault_InrE)
  then obtain k' where k': "it_pos it2 = Some k'" by blast
  have i2: "it_map it2 = Some r" "\<not> it_updated it2"
    using n(1) m by (auto simp: It_next_def split: if_splits elim!: seq_fault_InrE)
  have "k < k'"
  proof (cases "it_updated (iters am1 i)")
    case True
    then have "it_pos (iters am1 i) = Some k'" using n(1) k' by (auto simp: It_next_def)
    moreover have "iters am1 i \<noteq> ait" using True assms(3) by auto
    ultimately show ?thesis using assms(2,4) by (auto simp: advances_def)
  next
    case False
    then have "iters am1 i = ait" using assms(2) by (auto simp: advances_def)
    with False n(1) k' obtain m where "next_key (Some k) m = Inr (Some k')"
      using assms(4) by (auto simp: It_next_def elim!: seq_fault_InrE)
    then show ?thesis using next_key_greater by blast
  qed
  moreover have "k' \<in> fst ` set (vecs am2 r)"
    using n(3,4) i2 k' by (auto simp: It_Get_def it_vec_def upd_it_def split: option.splits) (metis fst_conv image_eqI map_of_SomeD)
  ultimately show ?thesis using n(4) i2 k' by (simp add: upd_it_def)
qed

lemma keys_from_decreases:
  assumes "fst ` set m' \<subseteq> fst ` set m" "k \<in> fst ` set m" "k < k'"
  shows "card (keys_from k' m') < card (keys_from k m)"
proof (rule psubset_card_mono)
  show "keys_from k' m' \<subset> keys_from k m" using assms by force
qed simp

lemma keys_from_length: "card (keys_from k m) \<le> length m"
  by (rule order_trans [OF card_mono order_trans [OF card_image_le card_length]]) auto

lemma visit_ends:
  assumes "card (keys_from k (vecs (sm_am sm) mr)) \<le> fuel" "it_pos (iters (sm_am sm) i) = Some k"
    "k \<in> fst ` set (vecs (sm_am sm) mr)" "\<not> it_updated (iters (sm_am sm) i)" "it_map (iters (sm_am sm) i) = Some mr"
    "\<And>p s s'. body p s = Inr s' \<Longrightarrow> settles p mr i (sm_am (fst s)) (sm_am (fst s'))"
  shows "visit fuel i body (Some p) (sm, acc) \<noteq> Inr None"
  using assms(1-5)
proof (induction fuel arbitrary: k p sm acc)
  case 0
  then have "keys_from k (vecs (sm_am sm) mr) = {}" by simp
  with "0.prems"(3) show ?case by blast
next
  case (Suc fuel)
  show ?case
  proof
    assume "visit (Suc fuel) i body (Some p) (sm, acc) = Inr None"
    then obtain sm1 acc1 po am2 where b: "body p (sm, acc) = Inr (sm1, acc1)" and n: "GetNext i (sm_am sm1) = Inr (po, am2)"
      and v: "visit fuel i body po (sm1\<lparr>sm_am := am2\<rparr>, acc1) = Inr None"
      by (auto elim!: seq_fault_InrE)
    from v obtain q where q: "po = Some q" by (cases po) auto
    have s: "settles p mr i (sm_am sm) (sm_am sm1)" using assms(6) [OF b] by simp
    then have adv: "advances (Uid (sm_app sm p)) (iters (sm_am sm) i) (iters (sm_am sm1) i)" by (simp add: settles_def)
    obtain k' where k': "it_pos (iters am2 i) = Some k'" "k < k'" "k' \<in> fst ` set (vecs am2 mr)"
      "\<not> it_updated (iters am2 i)" "it_map (iters am2 i) = Some mr"
      using GetNext_later [OF n [unfolded q] adv Suc.prems(4,2,5)] by blast
    have m2: "vecs am2 = vecs (sm_am sm1)" using GetNext_only [OF n] by simp
    have "card (keys_from k' (vecs am2 mr)) < card (keys_from k (vecs (sm_am sm) mr))"
      using keys_from_decreases [OF _ Suc.prems(3) k'(2)] settles_keys [OF s] m2 by simp
    with Suc.IH [where k = k' and sm = "sm1\<lparr>sm_am := am2\<rparr>" and p = q and acc = acc1] k' Suc.prems(1) v q show False by simp
  qed
qed

lemma GetFirst_starts:
  assumes "GetFirst r i (upd_it i AppsUidMapIt_new am) = Inr (Some p, am1)"
  shows "\<exists>k. it_pos (iters am1 i) = Some k \<and> k \<in> fst ` set (vecs am1 r) \<and> \<not> it_updated (iters am1 i) \<and>
    it_map (iters am1 i) = Some r"
  using assms
  by (cases "vecs am r") (auto simp: GetFirst_def Let_def It_Init_def AppsUidMapIt_new_def upd_it_def Retain_def begin_key_def
      elim!: seq_fault_InrE)

lemma for_each_ends:
  assumes "\<And>p s s'. body p s = Inr s' \<Longrightarrow> settles p mr i (sm_am (fst s)) (sm_am (fst s'))"
  shows "for_each mr i body s \<noteq> Inr None"
proof
  obtain sm acc where s: "s = (sm, acc)" by (cases s)
  assume "for_each mr i body s = Inr None"
  then obtain po am1 where f: "GetFirst mr i (upd_it i AppsUidMapIt_new (sm_am sm)) = Inr (po, am1)"
    and v: "visit (length (vecs (sm_am sm) mr)) i body po (sm\<lparr>sm_am := am1\<rparr>, acc) = Inr None"
    by (auto simp: for_each_def s seq_loop_def split: option.splits elim!: seq_fault_InrE)
  from v obtain p where p: "po = Some p" by (cases po) auto
  have m: "vecs am1 = vecs (sm_am sm)" using GetFirst_only [OF f] by (simp add: upd_it_def)
  obtain k where k: "it_pos (iters am1 i) = Some k" "k \<in> fst ` set (vecs am1 mr)" "\<not> it_updated (iters am1 i)"
    "it_map (iters am1 i) = Some mr"
    using GetFirst_starts [OF f [unfolded p]] by blast
  have "visit (length (vecs (sm_am sm) mr)) i body (Some p) (sm\<lparr>sm_am := am1\<rparr>, acc) \<noteq> Inr None"
    by (intro visit_ends [where k = k and mr = mr]) (use k assms keys_from_length [where k = k and m = "vecs am1 mr"] m in auto)
  with v p show False by simp
qed


text \<open>The applications that a walk visits are in the queue.\<close>

lemma It_Get_queued: "It_Get am ait = Inr p \<Longrightarrow> it_map ait = Some r \<Longrightarrow> \<exists>u. queue am r u = Some p"
  by (auto simp: It_Get_def it_vec_def split: option.splits)

lemma GetNext_queued:
  assumes "GetNext i am = Inr (po, am2)" "it_map (iters am i) = Some r"
  shows "(\<forall>q. po = Some q \<longrightarrow> (\<exists>u. queue am2 r u = Some q)) \<and> it_map (iters am2 i) = Some r"
proof -
  obtain it2 where n: "It_next am (iters am i) = Inr it2"
    and f: "(if it_pos it2 = None then Inr (None, Release_it i (upd_it i it2 am))
       else seq_fault (It_Get (upd_it i it2 am) it2) (\<lambda>p. Inr (Some p, upd_it i it2 am))) = Inr (po, am2)"
    using assms(1) by (auto simp: GetNext_def Let_def elim!: seq_fault_InrE)
  have m: "it_map it2 = Some r" using n assms(2) by (auto simp: It_next_def split: if_splits elim!: seq_fault_InrE)
  show ?thesis
  proof (cases "it_pos it2 = None")
    case True
    then show ?thesis using f m by (auto simp: Release_it_def upd_it_def split: option.splits)
  next
    case False
    then show ?thesis using f m It_Get_queued [of "upd_it i it2 am" it2] by (auto simp: upd_it_def elim!: seq_fault_InrE)
  qed
qed

lemma GetFirst_queued:
  assumes "GetFirst r i am = Inr (po, am1)"
  shows "(\<forall>q. po = Some q \<longrightarrow> (\<exists>u. queue am1 r u = Some q)) \<and> it_map (iters am1 i) = Some r"
proof -
  let ?it = "It_Init r am (iters am i)"
  have m: "it_map ?it = Some r" by (simp add: It_Init_def)
  have f: "(if it_pos ?it = None then Inr (None, upd_it i ?it am)
      else seq_fault (It_Get (upd_it i ?it am) ?it) (\<lambda>p. Inr (Some p, Retain i r (upd_it i ?it am)))) = Inr (po, am1)"
    using assms by (simp add: GetFirst_def Let_def)
  show ?thesis
  proof (cases "it_pos ?it = None")
    case True
    then show ?thesis using f m by (auto simp: upd_it_def)
  next
    case False
    then show ?thesis using f m It_Get_queued [of "upd_it i ?it am" ?it] by (auto simp: upd_it_def Retain_def elim!: seq_fault_InrE)
  qed
qed

text \<open>A property of states that the rounds of a walk keep is kept by the walk.\<close>

lemma visit_invariant:
  assumes "visit fuel i body po (sm, acc) = Inr (Some (sm', acc'))" "P sm acc"
    "\<And>p. po = Some p \<Longrightarrow> \<exists>u. queue (sm_am sm) r u = Some p" "it_map (iters (sm_am sm) i) = Some r"
    "\<And>p sm acc sm' acc'. P sm acc \<Longrightarrow> \<exists>u. queue (sm_am sm) r u = Some p \<Longrightarrow> body p (sm, acc) = Inr (sm', acc') \<Longrightarrow>
       P sm' acc' \<and> it_map (iters (sm_am sm') i) = it_map (iters (sm_am sm) i)"
    "\<And>sm acc am'. P sm acc \<Longrightarrow> app_objs am' = app_objs (sm_am sm) \<Longrightarrow> app_alloc am' = app_alloc (sm_am sm) \<Longrightarrow>
       vecs am' = vecs (sm_am sm) \<Longrightarrow> P (sm\<lparr>sm_am := am'\<rparr>) acc"
  shows "P sm' acc'"
  using assms(1-4)
proof (induction fuel arbitrary: po sm acc)
  case 0
  then show ?case by (cases po) auto
next
  case (Suc fuel)
  show ?case
  proof (cases po)
    case (Some p)
    with Suc.prems(1) obtain sm1 acc1 po2 am2 where b: "body p (sm, acc) = Inr (sm1, acc1)"
      and n: "GetNext i (sm_am sm1) = Inr (po2, am2)"
      and v: "visit fuel i body po2 (sm1\<lparr>sm_am := am2\<rparr>, acc1) = Inr (Some (sm', acc'))"
      by (auto elim!: seq_fault_InrE)
    have 1: "P sm1 acc1" "it_map (iters (sm_am sm1) i) = Some r"
      using assms(5) [OF Suc.prems(2,3) b] Some Suc.prems(4) by simp_all
    have P2: "P (sm1\<lparr>sm_am := am2\<rparr>) acc1" by (rule assms(6) [OF 1(1)]) (use GetNext_only [OF n] in simp_all)
    have "(\<forall>q. po2 = Some q \<longrightarrow> (\<exists>u. queue am2 r u = Some q)) \<and> it_map (iters am2 i) = Some r"
      using GetNext_queued [OF n 1(2)] by simp
    with Suc.IH [OF v P2] show ?thesis by simp
  qed (use Suc.prems in simp)
qed

lemma for_each_invariant:
  assumes "for_each r i body (sm, acc) = Inr (Some (sm', acc'))" "P sm acc"
    "\<And>p sm acc sm' acc'. P sm acc \<Longrightarrow> \<exists>u. queue (sm_am sm) r u = Some p \<Longrightarrow> body p (sm, acc) = Inr (sm', acc') \<Longrightarrow>
       P sm' acc' \<and> it_map (iters (sm_am sm') i) = it_map (iters (sm_am sm) i)"
    "\<And>sm acc am'. P sm acc \<Longrightarrow> app_objs am' = app_objs (sm_am sm) \<Longrightarrow> app_alloc am' = app_alloc (sm_am sm) \<Longrightarrow>
       vecs am' = vecs (sm_am sm) \<Longrightarrow> P (sm\<lparr>sm_am := am'\<rparr>) acc"
  shows "P sm' acc'"
proof -
  obtain po am1 sm2 where f: "GetFirst r i (upd_it i AppsUidMapIt_new (sm_am sm)) = Inr (po, am1)"
    and v: "visit (length (vecs (sm_am sm) r)) i body po (sm\<lparr>sm_am := am1\<rparr>, acc) = Inr (Some (sm2, acc'))"
    and sm': "sm' = sm2\<lparr>sm_am := Release_it i (sm_am sm2)\<rparr>"
    using assms(1) by (auto simp: for_each_def seq_loop_def split: option.splits elim!: seq_fault_InrE)
  have 1: "P (sm\<lparr>sm_am := am1\<rparr>) acc"
    by (rule assms(4) [OF assms(2)]) (use GetFirst_only [OF f] in \<open>simp_all add: upd_it_def\<close>)
  have 2: "(\<forall>q. po = Some q \<longrightarrow> (\<exists>u. queue am1 r u = Some q)) \<and> it_map (iters am1 i) = Some r"
    by (rule GetFirst_queued [OF f])
  have "P sm2 acc'"
  proof (rule visit_invariant [where r = r and P = P, OF v 1])
    show "\<exists>u. queue (sm_am (sm\<lparr>sm_am := am1\<rparr>)) r u = Some p" if "po = Some p" for p using 2 that by simp
    show "it_map (iters (sm_am (sm\<lparr>sm_am := am1\<rparr>)) i) = Some r" using 2 by simp
  qed (rule assms(3), assumption+, rule assms(4), assumption+)
  then show ?thesis unfolding sm' by (rule assms(4)) (simp_all add: Release_it_only)
qed

lemma settles_it_map: "settles p mr i am am' \<Longrightarrow> it_map (iters am' i) = it_map (iters am i)"
  by (auto simp: settles_def advances_def)

section \<open>The steps of the protocol end\<close>

lemma pre_change_body_am: "pre_change_body p (sm, acc) = Inr (sm', acc') \<Longrightarrow> sm' = sm"
  by (auto simp: pre_change_body_def split: option.splits bool.splits prod.splits elim!: seq_fault_InrE)

lemma sync_change_body_am: "sync_change_body p (sm, acc) = Inr (sm', acc') \<Longrightarrow> sm' = sm"
  by (auto simp: sync_change_body_def split: if_splits elim!: seq_fault_InrE)

lemma platform_body_am:
  "platform_body env p (sm, acc) = Inr (sm', acc') \<Longrightarrow> sm' = sm \<or> sm' = fails_insert p sm"
  by (auto simp: platform_body_def split: if_splits elim!: seq_fault_InrE)

lemma post_change_body_am:
  "post_change_body env p (sm, acc) = Inr (sm', acc') \<Longrightarrow> sm' = sm \<or> sm_SyncCommit env p sm = Inr sm'"
  by (auto simp: post_change_body_def split: if_splits elim!: seq_fault_InrE)

lemma fails_insert_only [simp]: "sm_am (fails_insert p sm) = sm_am sm" "sm_policy (fails_insert p sm) = sm_policy sm"
  "sm_ra (fails_insert p sm) = sm_ra sm"
  by (simp_all add: fails_insert_def)

lemma pre_change_body_settles: "pre_change_body p s = Inr s' \<Longrightarrow> settles p mr i (sm_am (fst s)) (sm_am (fst s'))"
  by (cases s, cases s') (auto dest: pre_change_body_am)

lemma sync_change_body_settles: "sync_change_body p s = Inr s' \<Longrightarrow> settles p mr i (sm_am (fst s)) (sm_am (fst s'))"
  by (cases s, cases s') (auto dest: sync_change_body_am)

lemma platform_body_settles: "platform_body env p s = Inr s' \<Longrightarrow> settles p mr i (sm_am (fst s)) (sm_am (fst s'))"
  by (cases s, cases s') (auto dest!: platform_body_am)

lemma post_change_body_settles: "post_change_body env p s = Inr s' \<Longrightarrow> settles p (SYNCQ y) i (sm_am (fst s)) (sm_am (fst s'))"
  by (cases s, cases s') (auto dest!: post_change_body_am intro: sm_SyncCommit_settles)

lemma seq_loop_None:
  assumes "seq_loop x f = Inr None"
  shows "x = Inr None \<or> (\<exists>a. x = Inr (Some a) \<and> f a = Inr None)"
  using assms by (auto simp: seq_loop_def split: option.splits elim!: seq_fault_InrE)

lemma seq_loop_Some:
  assumes "seq_loop x f = Inr (Some b)"
  obtains a where "x = Inr (Some a)" "f a = Inr (Some b)"
  using assms by (auto simp: seq_loop_def split: option.splits elim!: seq_fault_InrE)

text \<open>The collection of the answers ends: the applications asked are not disabled, and taking an
  answer disables none.\<close>

lemma response_disables_none:
  assumes "Sync_PreChange_Check_EXC_Response env p sm = Inr sm'"
  shows "Disabled (sm_app sm' q) = Disabled (sm_app sm q)"
  using assms
  by (auto simp: Sync_PreChange_Check_EXC_Response_def SyncP_PreChangeSend_def SyncP_PreChangeRecv_def Let_def
      upd_awm_def upd_app_def Disabled_def split: if_splits option.splits elim!: seq_fault_InrE)

lemma collect_pre_ends: "\<forall>p\<in>set ps. \<not> Disabled (sm_app sm p) \<Longrightarrow> collect_pre env ps sm \<noteq> Inr None"
  by (induction ps arbitrary: sm) (auto dest: response_disables_none elim!: seq_fault_InrE)

lemma asked_not_disabled:
  assumes "for_each (SYNCQ y) i pre_change_body (sm, False, []) = Inr (Some (sm1, fl, rsps))"
  shows "\<forall>p\<in>set rsps. \<not> Disabled (sm_app sm1 p)"
proof -
  have "\<forall>p\<in>set (snd (fl, rsps)). \<not> Disabled (sm_app sm1 p)"
  proof (rule for_each_invariant [OF assms, where P = "\<lambda>sm acc. \<forall>p\<in>set (snd acc). \<not> Disabled (sm_app sm p)"])
    fix p sm acc sm' acc'
    assume "\<forall>p\<in>set (snd acc). \<not> Disabled (sm_app sm p)" "pre_change_body p (sm, acc) = Inr (sm', acc')"
    then show "(\<forall>p\<in>set (snd acc'). \<not> Disabled (sm_app sm' p)) \<and> it_map (iters (sm_am sm') i) = it_map (iters (sm_am sm) i)"
      by (auto simp: pre_change_body_def to_contact_def Let_def set_insort_key split: option.splits bool.splits prod.splits if_splits
          elim!: seq_fault_InrE)
  qed auto
  then show ?thesis by simp
qed

lemma Sync_PreChange_ends: "Sync_PreChange env i y sm \<noteq> Inr None"
  using for_each_ends [where body = pre_change_body, OF pre_change_body_settles] collect_pre_ends asked_not_disabled
  by (auto simp: Sync_PreChange_def dest!: seq_loop_None)

lemma Sync_SyncChange_ends: "Sync_SyncChange env i y sm \<noteq> Inr None"
  using for_each_ends [where body = sync_change_body, OF sync_change_body_settles]
  by (auto simp: Sync_SyncChange_def dest!: seq_loop_None elim!: seq_fault_InrE)

lemma Sync_Platform_ends: "Sync_Platform env i y sm \<noteq> Inr None"
  using for_each_ends [where body = "platform_body env", OF platform_body_settles]
  by (auto simp: Sync_Platform_def dest!: seq_loop_None)

lemma Sync_PostChange_ends: "Sync_PostChange env i y sm \<noteq> Inr None"
  using for_each_ends [where body = "post_change_body env", OF post_change_body_settles]
  by (auto simp: Sync_PostChange_def dest!: seq_loop_None)

lemma Sync_DoChange_ends: "Sync_DoChange i y sm \<noteq> Inr None"
proof -
  have "for_each (SYNCQ y) i (\<lambda>p (sm, u). seq_fault (to_contact p sm) (\<lambda>_. Inr (sm, u))) (sm, ()) \<noteq> Inr None"
    by (rule for_each_ends) (auto elim!: seq_fault_InrE split: prod.splits)
  then show ?thesis by (auto simp: Sync_DoChange_def dest!: seq_loop_None)
qed

lemma run_steps_ends:
  "\<forall>f\<in>set fs. \<forall>sm. f sm \<noteq> Inr None \<Longrightarrow> run_steps fs sm \<noteq> Inr None"
  by (induction fs arbitrary: sm) (auto split: if_splits dest!: seq_loop_None)

lemma SyncApps_ends: "SyncApps env i y sm \<noteq> Inr None"
  by (simp add: SyncApps_def run_steps_ends Sync_PreChange_ends Sync_SyncChange_ends Sync_Platform_ends Sync_DoChange_ends
      Sync_PostChange_ends del: run_steps.simps)

section \<open>Invariants of a session\<close>

abbreviation queued :: "SyncManager \<Rightarrow> SyncState \<Rightarrow> appptr \<Rightarrow> bool" where
  "queued sm y p \<equiv> \<exists>u. queue (sm_am sm) (SYNCQ y) u = Some p"

lemma response_vecs:
  assumes "Sync_PreChange_Check_EXC_Response env p sm = Inr sm'"
  shows "vecs (sm_am sm') = vecs (sm_am sm)"
  using assms
  by (auto simp: Sync_PreChange_Check_EXC_Response_def SyncP_PreChangeSend_def SyncP_PreChangeRecv_def Let_def
      upd_awm_def upd_app_def split: if_splits option.splits elim!: seq_fault_InrE)

text \<open>A property of the state that moving iterators, noting a failure, taking an answer and committing
  an application keep is kept by the synchronisation of a queue.\<close>

locale session_invariant =
  fixes env :: SyncEnv and P :: "SyncManager \<Rightarrow> bool"
  assumes P_iterators: "P sm \<Longrightarrow> app_objs am' = app_objs (sm_am sm) \<Longrightarrow> app_alloc am' = app_alloc (sm_am sm) \<Longrightarrow>
      vecs am' = vecs (sm_am sm) \<Longrightarrow> P (sm\<lparr>sm_am := am'\<rparr>)"
    and P_fails: "P sm \<Longrightarrow> queued sm y p \<Longrightarrow> P (fails_insert p sm)"
    and P_response: "P sm \<Longrightarrow> queued sm y p \<Longrightarrow> Sync_PreChange_Check_EXC_Response env p sm = Inr sm' \<Longrightarrow> P sm'"
    and P_commit: "P sm \<Longrightarrow> queued sm y p \<Longrightarrow> sm_SyncCommit env p sm = Inr sm' \<Longrightarrow> P sm'"
begin

lemma collect_keeps:
  "collect_pre env ps sm = Inr (Some sm') \<Longrightarrow> P sm \<Longrightarrow> \<forall>p\<in>set ps. queued sm y p \<Longrightarrow> P sm'"
proof (induction ps arbitrary: sm)
  case (Cons p ps)
  then obtain sm1 where r: "Sync_PreChange_Check_EXC_Response env p sm = Inr sm1" and c: "collect_pre env ps sm1 = Inr (Some sm')"
    by (auto split: if_splits elim!: seq_fault_InrE)
  have "P sm1" using P_response [OF Cons.prems(2) _ r, of y] Cons.prems(3) by simp
  then show ?case using Cons.IH [OF c] Cons.prems(3) response_vecs [OF r] by simp
qed simp

lemma PreChange_keeps:
  assumes "Sync_PreChange env i y sm = Inr (Some (c, sm'))" "P sm"
  shows "P sm'"
proof -
  obtain sm1 fl rsps where w: "for_each (SYNCQ y) i pre_change_body (sm, False, []) = Inr (Some (sm1, fl, rsps))"
    and c: "collect_pre env rsps sm1 = Inr (Some sm')"
    using assms(1) by (auto simp: Sync_PreChange_def elim!: seq_loop_Some)
  have "P sm1 \<and> (\<forall>p\<in>set (snd (fl, rsps)). queued sm1 y p)"
  proof (rule for_each_invariant [OF w, where P = "\<lambda>sm acc. P sm \<and> (\<forall>p\<in>set (snd acc). queued sm y p)"])
    show "P sm \<and> (\<forall>p\<in>set (snd (False, [])). queued sm y p)" using assms(2) by simp
    show "(P sm' \<and> (\<forall>p\<in>set (snd acc'). queued sm' y p)) \<and> it_map (iters (sm_am sm') i) = it_map (iters (sm_am sm) i)"
      if "P sm \<and> (\<forall>p\<in>set (snd acc). queued sm y p)" "queued sm y p" "pre_change_body p (sm, acc) = Inr (sm', acc')"
      for p sm acc sm' acc'
    proof -
      have "sm' = sm" by (rule pre_change_body_am [OF that(3)])
      moreover have "set (snd acc') \<subseteq> insert p (set (snd acc))"
        using that(3) by (auto simp: pre_change_body_def set_insort_key split: option.splits bool.splits prod.splits elim!: seq_fault_InrE)
      ultimately show ?thesis using that(1,2) by auto
    qed
  qed (use P_iterators in simp)
  then show ?thesis using collect_keeps [OF c, of y] by simp
qed

lemma SyncChange_keeps:
  assumes "Sync_SyncChange env i y sm = Inr (Some (c, sm'))" "P sm"
  shows "P sm'"
proof -
  obtain sm1 rsps where w: "for_each (SYNCQ y) i sync_change_body (sm, []) = Inr (Some (sm1, rsps))"
    and c: "collect_sync env rsps sm1 = Inr sm'"
    using assms(1) by (auto simp: Sync_SyncChange_def elim!: seq_loop_Some seq_fault_InrE)
  have "P sm1"
    by (rule for_each_invariant [OF w, where P = "\<lambda>sm _. P sm"])
      (use assms(2) P_iterators in \<open>auto dest: sync_change_body_am\<close>)
  moreover have "collect_sync env ps s = Inr s' \<Longrightarrow> s' = s" for ps s s'
    by (induction ps) (auto split: if_splits)
  ultimately show ?thesis using c by blast
qed

lemma DoChange_keeps:
  assumes "Sync_DoChange i y sm = Inr (Some (c, sm'))" "P sm"
  shows "P sm'"
proof -
  obtain u where w: "for_each (SYNCQ y) i (\<lambda>p (sm, u). seq_fault (to_contact p sm) (\<lambda>_. Inr (sm, u))) (sm, ()) = Inr (Some (sm', u))"
    using assms(1) by (auto simp: Sync_DoChange_def elim!: seq_loop_Some)
  show ?thesis
    by (rule for_each_invariant [OF w, where P = "\<lambda>sm _. P sm"]) (use assms(2) P_iterators in \<open>auto elim!: seq_fault_InrE\<close>)
qed

lemma Platform_keeps:
  assumes "Sync_Platform env i y sm = Inr (Some (c, sm'))" "P sm"
  shows "P sm'"
proof -
  obtain b where w: "for_each (SYNCQ y) i (platform_body env) (sm, False) = Inr (Some (sm', b))"
    using assms(1) by (auto simp: Sync_Platform_def elim!: seq_loop_Some)
  show ?thesis
  proof (rule for_each_invariant [OF w, where P = "\<lambda>sm _. P sm"])
    show "P s' \<and> it_map (iters (sm_am s') i) = it_map (iters (sm_am s) i)"
      if "P s" "queued s y p" "platform_body env p (s, acc) = Inr (s', acc')" for p s acc s' acc'
      using platform_body_am [OF that(3)] that(1,2) P_fails by auto
  qed (use assms(2) P_iterators in auto)
qed

lemma PostChange_keeps:
  assumes "Sync_PostChange env i y sm = Inr (Some (c, sm'))" "P sm"
  shows "P sm'"
proof -
  obtain u where w: "for_each (SYNCQ y) i (post_change_body env) (sm, ()) = Inr (Some (sm', u))"
    using assms(1) by (auto simp: Sync_PostChange_def elim!: seq_loop_Some)
  show ?thesis
  proof (rule for_each_invariant [OF w, where P = "\<lambda>sm _. P sm"])
    show "P s' \<and> it_map (iters (sm_am s') i) = it_map (iters (sm_am s) i)"
      if "P s" "queued s y p" "post_change_body env p (s, acc) = Inr (s', acc')" for p s acc s' acc'
      using post_change_body_am [OF that(3)] that(1) P_commit [OF that(1,2)] settles_it_map [OF post_change_body_settles [OF that(3)]]
      by auto
  qed (use assms(2) P_iterators in auto)
qed

lemma run_steps_keeps:
  "run_steps fs sm = Inr (Some (c, sm')) \<Longrightarrow> P sm \<Longrightarrow>
     \<forall>f\<in>set fs. \<forall>sm c sm'. f sm = Inr (Some (c, sm')) \<longrightarrow> P sm \<longrightarrow> P sm' \<Longrightarrow> P sm'"
proof (induction fs arbitrary: sm)
  case (Cons f fs)
  then obtain c1 sm1 where f: "f sm = Inr (Some (c1, sm1))"
    and r: "(if c1 \<noteq> SM_OK then Inr (Some (c1, sm1)) else run_steps fs sm1) = Inr (Some (c, sm'))"
    by (auto elim!: seq_loop_Some)
  have "P sm1" using Cons.prems(2,3) f by auto
  then show ?case using Cons.IH [of sm1] Cons.prems(3) r by (auto split: if_splits)
qed simp

lemma SyncApps_keeps:
  assumes "SyncApps env i y sm = Inr (Some (c, sm'))" "P sm"
  shows "P sm'"
proof -
  have steps: "\<forall>f\<in>{Sync_PreChange env i y, Sync_SyncChange env i y, Sync_Platform env i y, Sync_DoChange i y, Sync_PostChange env i y}.
      \<forall>sm c sm'. f sm = Inr (Some (c, sm')) \<longrightarrow> P sm \<longrightarrow> P sm'"
    by (auto intro: PreChange_keeps SyncChange_keeps Platform_keeps DoChange_keeps PostChange_keeps)
  consider "sm' = sm"
    | fs where "run_steps fs sm = Inr (Some (c, sm'))"
      "set fs \<subseteq> {Sync_PreChange env i y, Sync_SyncChange env i y, Sync_Platform env i y, Sync_DoChange i y, Sync_PostChange env i y}"
    using assms(1) unfolding SyncApps_def
    by (simp only: split: if_splits) (auto simp del: run_steps.simps)
  then show ?thesis
  proof cases
    case (2 fs)
    then show ?thesis using run_steps_keeps [OF 2(1) assms(2)] steps by blast
  qed (use assms(2) in simp)
qed

end


lemma sm_SyncCommit_only:
  "sm_SyncCommit env p sm = Inr sm' \<Longrightarrow> sm_policy sm' = sm_policy sm \<and> sync_fails_apps sm' = sync_fails_apps sm"
  by (erule sm_SyncCommit_cases) auto

lemma response_only:
  assumes "Sync_PreChange_Check_EXC_Response env p sm = Inr sm'"
  shows "sp_status (sm_policy sm') = sp_status (sm_policy sm)"
  using assms
  by (auto simp: Sync_PreChange_Check_EXC_Response_def SyncP_PreChangeSend_def SyncP_PreChangeRecv_def Let_def CheckLatency_def
      split: if_splits option.splits elim!: seq_fault_InrE)

interpretation step_kept: session_invariant env "\<lambda>sm. sp_status (sm_policy sm) = st" for env st
  by unfold_locales (auto simp: response_only dest: sm_SyncCommit_only)

lemma SyncApps_step:
  "SyncApps env i y sm = Inr (Some (c, sm')) \<Longrightarrow> sp_status (sm_policy sm') = sp_status (sm_policy sm)"
  by (erule step_kept.SyncApps_keeps) simp

lemma next_queue_step:
  assumes "next_queue restart sm = (y, sm')" "y \<noteq> SYNC_NONE"
  shows "unat (sp_status (sm_policy sm')) \<le> 9"
    "\<not> restart \<Longrightarrow> unat (sp_status (sm_policy sm)) \<le> 9 \<Longrightarrow> unat (sp_status (sm_policy sm)) < unat (sp_status (sm_policy sm'))"
proof -
  obtain sp where q: "GetApplicationsQueue (\<lambda>y. HasApplications (SYNCQ y) (sm_am sm)) restart (sm_policy sm) = (y, sp)"
    and sm': "sm' = sm\<lparr>sm_policy := sp\<rparr>"
    using assms(1) by (auto simp: next_queue_def split: prod.splits)
  show "unat (sp_status (sm_policy sm')) \<le> 9" using sasb.bounded [OF q assms(2)] by (simp add: sm')
  show "unat (sp_status (sm_policy sm)) < unat (sp_status (sm_policy sm'))"
    if "\<not> restart" "unat (sp_status (sm_policy sm)) \<le> 9"
    using sasb.later [of "\<lambda>y. HasApplications (SYNCQ y) (sm_am sm)" "sm_policy sm" y sp] q that assms(2) by (simp add: sm')
qed

lemma loop_Suc:
  assumes "y \<noteq> SYNC_NONE"
  shows "SyncSchedule_loop (Suc fuel) env i y sm = seq_loop (SyncApps env i y sm) (\<lambda>(_, sm1).
    case next_queue False sm1 of (y', sm2) \<Rightarrow> SyncSchedule_loop fuel env i y' sm2)"
  using assms by (cases y) simp_all

lemma SyncSchedule_loop_ends:
  assumes "unat (sp_status (sm_policy sm)) \<le> 9" "9 - unat (sp_status (sm_policy sm)) < fuel"
  shows "SyncSchedule_loop fuel env i y sm \<noteq> Inr None"
  using assms
proof (induction fuel arbitrary: y sm)
  case (Suc fuel)
  show ?case
  proof (cases "y = SYNC_NONE")
    case False
    show ?thesis
    proof
      assume "SyncSchedule_loop (Suc fuel) env i y sm = Inr None"
      then obtain c sm1 where a: "SyncApps env i y sm = Inr (Some (c, sm1))"
        and n: "(case next_queue False sm1 of (y', sm2) \<Rightarrow> SyncSchedule_loop fuel env i y' sm2) = Inr None"
        unfolding loop_Suc [OF False] using SyncApps_ends by (auto dest!: seq_loop_None)
      obtain y' sm2 where q: "next_queue False sm1 = (y', sm2)" by fastforce
      show False
      proof (cases "y' = SYNC_NONE")
        case True
        then show False using n q by simp
      next
        case False
        note st = next_queue_step [OF q False] SyncApps_step [OF a]
        have "SyncSchedule_loop fuel env i y' sm2 \<noteq> Inr None"
          by (rule Suc.IH) (use st Suc.prems in auto)
        then show False using n q by simp
      qed
    qed
  qed simp
qed simp

text \<open>Every session ends: the policy serves at most nine queues, and the loop gets ten rounds.\<close>

lemma SyncSchedule_ends:
  "SyncSchedule env i sm \<noteq> Inr None"
proof
  assume s: "SyncSchedule env i sm = Inr None"
  obtain y sm1 where q: "next_queue True (sm\<lparr>sync_count := sync_count sm + 1\<rparr>) = (y, sm1)" by fastforce
  with s have y: "y \<noteq> SYNC_NONE" by (auto simp: SyncSchedule_def)
  with s q obtain c sm2 where st: "start_session env sm1 = Inr (c, sm2)"
    and l: "SyncSchedule_loop 10 env i y sm2 = Inr None"
    by (auto simp: SyncSchedule_def split: if_splits prod.splits elim!: seq_fault_InrE dest!: seq_loop_None)
  have "sm_policy sm2 = sm_policy sm1"
    using st by (auto simp: start_session_def split: prod.splits if_splits elim!: seq_fault_InrE)
  moreover have "unat (sp_status (sm_policy sm1)) \<le> 9" by (rule next_queue_step(1) [OF q y])
  ultimately have "SyncSchedule_loop 10 env i y sm2 \<noteq> Inr None" by (intro SyncSchedule_loop_ends) simp_all
  with l show False by simp
qed


text \<open>Everything stays where it belongs.\<close>

definition session_ok :: "SyncManager \<Rightarrow> bool" where
  "session_ok sm \<longleftrightarrow> queues_ok (sm_am sm) \<and> (\<forall>p\<in>set (sync_fails_apps sm). registered (sm_am sm) p)"

lemma queued_registered: "session_ok sm \<Longrightarrow> queued sm y p \<Longrightarrow> registered (sm_am sm) p"
proof (elim exE)
  fix u
  assume ok: "session_ok sm" and q: "queue (sm_am sm) (SYNCQ y) u = Some p"
  have "placed (sm_am sm) u" using ok by (simp add: session_ok_def queues_ok_placed)
  with q have "queue (sm_am sm) UIDS u = Some p" by (auto simp: placed_def split: option.splits if_splits)
  then show "registered (sm_am sm) p" using ok by (auto simp: session_ok_def intro: registered_uid)
qed

lemma settles_registered: "settles p mr i am am' \<Longrightarrow> registered am q \<Longrightarrow> registered am' q"
  by (cases "q = p") (simp_all add: settles_def registered_def)

lemma sync_acquire_keeps:
  assumes "sync_acquire env p (am, ra) = Inr (c, am', ra')"
  shows "keeps_queues p am am'"
  using sync_acquire_result [OF assms] upd_awm_place [of am p] by (auto simp: keeps_queues_def Uid_def)

lemma sm_SyncCommit_keeps:
  assumes "sm_SyncCommit env p sm = Inr sm'"
  shows "keeps_queues p (sm_am sm) (sm_am sm')"
  using assms
proof (cases rule: sm_SyncCommit_cases)
  case (free e am2)
  then show ?thesis by (simp add: AM_SyncCommit_keeps)
next
  case (acquired am1 ra1 e am2)
  from keeps_queues_trans [OF sync_acquire_keeps [OF acquired(3)] AM_SyncCommit_keeps [OF acquired(4)]] acquired(5) show ?thesis by simp
next
  case (refused c am0 ra0 am1 ra1 e am2)
  from keeps_queues_trans [OF sync_acquire_keeps [OF refused(3)] keeps_queues_trans [OF AM_SyncAbort_keeps [OF refused(5)]
    AM_SyncCommit_keeps [OF refused(6)]]] refused(7) show ?thesis by simp
qed

lemma response_place:
  assumes "Sync_PreChange_Check_EXC_Response env p sm = Inr sm'"
  shows "(sm_am sm' = sm_am sm \<or> (\<exists>w wm. sm_am sm' = upd_awm p w wm (sm_am sm))) \<and>
    set (sync_fails_apps sm') \<subseteq> insert p (set (sync_fails_apps sm))"
proof -
  obtain sm1 where s: "SyncP_PreChangeSend env p sm = Inr sm1"
    and r: "sm' = (case env_rsp env (sm_app sm1 p) of None \<Rightarrow> fails_insert p sm1
      | Some latency \<Rightarrow> (SyncP_PreChangeRecv latency p sm1)\<lparr>sm_policy := CheckLatency latency (sm_policy (SyncP_PreChangeRecv latency p sm1))\<rparr>)"
    using assms by (auto simp: Sync_PreChange_Check_EXC_Response_def Let_def split: option.splits elim!: seq_fault_InrE)
  have "sm_am sm1 = sm_am sm" "sync_fails_apps sm1 = sync_fails_apps sm"
    using s by (auto simp: SyncP_PreChangeSend_def Let_def split: if_splits option.splits elim!: seq_fault_InrE)
  then show ?thesis
    by (auto simp: r fails_insert_def set_insort_key SyncP_PreChangeRecv_def split: option.splits)
qed

interpretation queues_kept: session_invariant env session_ok for env
proof
  show "session_ok (sm\<lparr>sm_am := am'\<rparr>)"
    if "session_ok sm" "app_objs am' = app_objs (sm_am sm)" "app_alloc am' = app_alloc (sm_am sm)" "vecs am' = vecs (sm_am sm)" for sm am'
    using that by (auto simp: session_ok_def registered_def intro: iterators_queues)
  show "session_ok (fails_insert p sm)" if "session_ok sm" "queued sm y p" for sm y p
    using that queued_registered [OF that] by (auto simp: session_ok_def fails_insert_def set_insort_key)
  show "session_ok sm'" if "session_ok sm" "queued sm y p" "Sync_PreChange_Check_EXC_Response env p sm = Inr sm'" for env sm y p sm'
  proof -
    have reg: "registered (sm_am sm) p" by (rule queued_registered [OF that(1,2)])
    have "queues_ok (sm_am sm') \<and> settles p (SYNCQ y) 0 (sm_am sm) (sm_am sm')"
      using response_place [OF that(3)] upd_awm_place [OF _ reg] upd_awm_settles that(1) by (auto simp: session_ok_def)
    then show ?thesis
      using response_place [OF that(3)] that(1) reg settles_registered by (fastforce simp: session_ok_def)
  qed
  show "session_ok sm'" if "session_ok sm" "queued sm y p" "sm_SyncCommit env p sm = Inr sm'" for env sm y p sm'
    using sm_SyncCommit_keeps [OF that(3)] queued_registered [OF that(1,2)] that(1) sm_SyncCommit_only [OF that(3)]
      settles_registered [OF sm_SyncCommit_settles [OF that(3), where mr = "SYNCQ y"]]
    by (simp add: session_ok_def keeps_queues_def)
qed


lemma next_queue_ok: "next_queue restart sm = (y, sm') \<Longrightarrow> session_ok sm \<Longrightarrow> session_ok sm'"
  by (auto simp: next_queue_def session_ok_def split: prod.splits)

lemma loop_ok:
  "SyncSchedule_loop fuel env i y sm = Inr (Some sm') \<Longrightarrow> session_ok sm \<Longrightarrow> session_ok sm'"
proof (induction fuel arbitrary: y sm)
  case 0
  then show ?case by (cases y) simp_all
next
  case (Suc fuel)
  show ?case
  proof (cases "y = SYNC_NONE")
    case False
    with Suc.prems(1) obtain c sm1 y' sm2 where a: "SyncApps env i y sm = Inr (Some (c, sm1))"
      and q: "next_queue False sm1 = (y', sm2)" and l: "SyncSchedule_loop fuel env i y' sm2 = Inr (Some sm')"
      unfolding loop_Suc [OF False] by (auto elim!: seq_loop_Some split: prod.splits)
    show ?thesis by (rule Suc.IH [OF l next_queue_ok [OF q queues_kept.SyncApps_keeps [OF a Suc.prems(2)]]])
  qed (use Suc.prems in simp)
qed

lemma DisableEXC_settles:
  "DisableEXC ready p rel (am, ra) = Inr (e, am', ra') \<Longrightarrow> mr \<notin> {SYNCQ DISABLED, STATUS SYNC, STATUS FINISHED} \<Longrightarrow> settles p mr i am am'"
  by (auto simp: DisableEXC_def split: if_splits elim!: seq_fault_InrE intro: ChangeEXCState_settles)

lemma CheckEXC_settles:
  "CheckEXC levels ready alive p rel (am, ra) = Inr (b, am', ra') \<Longrightarrow> mr \<notin> {SYNCQ DISABLED, STATUS SYNC, STATUS FINISHED} \<Longrightarrow> settles p mr i am am'"
  by (auto simp: CheckEXC_def Let_def split: if_splits elim!: seq_fault_InrE intro: DestroyEXC_settles DisableEXC_settles)

lemma DisableFailedApps_ok:
  "DisableFailedApps env ps sm = Inr sm' \<Longrightarrow> queues_ok (sm_am sm) \<Longrightarrow> \<forall>p\<in>set ps. registered (sm_am sm) p \<Longrightarrow>
     queues_ok (sm_am sm') \<and> sync_fails_apps sm' = []"
proof (induction ps arbitrary: sm)
  case (Cons p ps)
  then obtain b am1 ra1 am2 ra2 where c: "CheckEXC (env_levels env) (env_ready env) (env_alive env) p True (sm_am sm, sm_ra sm) = Inr (b, am1, ra1)"
    and d: "(if b then seq_fault (DisableEXC (env_ready env) p True (am1, ra1)) (\<lambda>(_, sys2). Inr sys2) else Inr (am1, ra1)) = Inr (am2, ra2)"
    and r: "DisableFailedApps env ps (sm\<lparr>sm_am := am2, sm_ra := ra2\<rparr>) = Inr sm'"
    by (auto elim!: seq_fault_InrE)
  have "keeps_queues p am1 am2 \<and> settles p (SYNCQ STARTING) 0 am1 am2"
    using d by (auto split: if_splits elim!: seq_fault_InrE dest: DisableEXC_keeps DisableEXC_settles)
  then have k: "keeps_queues p (sm_am sm) am2 \<and> settles p (SYNCQ STARTING) 0 (sm_am sm) am2"
    using CheckEXC_keeps [OF c] CheckEXC_settles [OF c, of "SYNCQ STARTING" 0] keeps_queues_trans settles_trans by blast
  show ?case
    by (rule Cons.IH [OF r]) (use k Cons.prems settles_registered in \<open>auto simp: keeps_queues_def\<close>)
qed auto

text \<open>A session keeps the queues of the application manager consistent.\<close>

lemma SyncSchedule_ok:
  assumes "session_ok sm" "SyncSchedule env i sm = Inr (Some (result, sm'))"
  shows "session_ok sm'"
proof -
  obtain y sm1 where q: "next_queue True (sm\<lparr>sync_count := sync_count sm + 1\<rparr>) = (y, sm1)" by fastforce
  have ok1: "session_ok sm1" by (rule next_queue_ok [OF q]) (use assms(1) in \<open>simp add: session_ok_def\<close>)
  show ?thesis
  proof (cases "y = SYNC_NONE")
    case False
    with q assms(2) obtain c sm2 where s: "start_session env sm1 = Inr (c, sm2)"
      and rest: "(if c \<noteq> RA_SUCCESS then Inr (Some (SM_ABORTED, sm2))
            else seq_loop (SyncSchedule_loop 10 env i y sm2) (\<lambda>sm3.
              case SyncCommit (sm_ra sm3) of (committed, ra) \<Rightarrow>
                if committed \<noteq> RA_SUCCESS then Inr (Some (SM_ABORTED, sm3\<lparr>sm_ra := ra\<rparr>))
                else seq_fault (DisableFailedApps env (sync_fails_apps sm3) (sm3\<lparr>sm_ra := ra\<rparr>)) (\<lambda>sm4.
                  Inr (Some (SM_OK, sm4))))) = Inr (Some (result, sm'))"
      by (auto simp: SyncSchedule_def elim!: seq_fault_InrE)
    have ok2: "session_ok sm2"
      using s ok1 by (auto simp: start_session_def session_ok_def split: prod.splits if_splits elim!: seq_fault_InrE)
    show ?thesis
    proof (cases "c = RA_SUCCESS")
      case True
      with rest obtain sm3 where l: "SyncSchedule_loop 10 env i y sm2 = Inr (Some sm3)"
        and f: "(case SyncCommit (sm_ra sm3) of (committed, ra) \<Rightarrow>
                if committed \<noteq> RA_SUCCESS then Inr (Some (SM_ABORTED, sm3\<lparr>sm_ra := ra\<rparr>))
                else seq_fault (DisableFailedApps env (sync_fails_apps sm3) (sm3\<lparr>sm_ra := ra\<rparr>)) (\<lambda>sm4.
                  Inr (Some (SM_OK, sm4)))) = Inr (Some (result, sm'))"
        by (auto elim: seq_loop_Some)
      have ok3: "session_ok sm3" by (rule loop_ok [OF l ok2])
      have failed: "session_ok sm4" if "DisableFailedApps env (sync_fails_apps sm3) (sm3\<lparr>sm_ra := ra\<rparr>) = Inr sm4" for ra sm4
        using DisableFailedApps_ok [OF that] ok3 by (simp add: session_ok_def)
      show ?thesis
        using f ok3 failed by (auto simp: session_ok_def split: prod.splits if_splits elim!: seq_fault_InrE)
    qed (use rest ok2 in simp)
  qed (use q assms(2) ok1 in \<open>auto simp: SyncSchedule_def\<close>)
qed

definition demo_env :: SyncEnv where
  "demo_env = \<lparr>env_force = False, env_levels = 5, env_mx = 31, env_beyond = (\<lambda>_. Some []), env_hsh = (\<lambda>_. 9), env_ready = True,
     env_alive = (\<lambda>_. True), env_map = (\<lambda>_ _. True), env_reclaim = (\<lambda>_. True), env_rsp = (\<lambda>_. Some 7)\<rparr>"

definition demo_idle :: SyncManager where
  "demo_idle = \<lparr>sm_am = demo_manager READY, sm_ra = ra_ten, sm_policy = SasbSyncPol_new, sync_count = 0, sync_fails_apps = []\<rparr>"

end
