(* ===== verification/Sync_Settlement.thy ===== *)
theory Sync_Settlement
  imports Sync_Session
begin

text \<open>
  What the last step of the synchronisation of a queue makes of the applications in it: the commit of
  one application, that a walk leaves no application out although the applications leave the queue
  under it, and the commit after a refused acquisition of resources.
\<close>

section \<open>What a commit makes of an application\<close>

definition committed :: "Application \<Rightarrow> Application \<Rightarrow> bool" where
  "committed a a' \<longleftrightarrow> syncState a' = SYNC_NONE \<and> next_awm a' = None \<and>
     (if syncState a = BLOCKED then sch_state a' = READY \<and> awm a' = None
      else if syncState a = DISABLED then sch_state a' = FINISHED \<and> awm a' = None
      else sch_state a' = RUNNING \<and> awm a' = next_awm a \<and> awm a' \<noteq> None)"

lemma committed_cong: "syncState a = syncState b \<Longrightarrow> next_awm a = next_awm b \<Longrightarrow> committed a a' = committed b a'"
  by (simp add: committed_def)

lemma committed_state: "committed a a' \<Longrightarrow> sch_state a' \<noteq> SYNC"
  by (auto simp: committed_def split: if_splits)

lemma App_SyncCommit_committed:
  assumes "App_SyncCommit s = Inr (e, s')" "sch_state s = SYNC" "syncState s \<noteq> SYNC_NONE"
  shows "committed s s'"
proof (cases "syncState s = BLOCKED \<or> syncState s = DISABLED")
  case True
  then show ?thesis using assms
    by (auto simp: App_SyncCommit_def committed_def elim!: seq_fault_InrE Sched_SetState_cases)
next
  case False
  then obtain s1 where r: "reset_goal_gap s = Inr s1" and s: "Sched_SetState RUNNING SYNC_NONE s1 = Inr (e, s')"
    using assms by (auto simp: App_SyncCommit_def split: SyncState.splits elim!: seq_fault_InrE)
  then obtain w where "next_awm s1 = Some w" by (auto elim: Sched_SetState_cases)
  then have "next_awm s = Some w" using reset_goal_gap_only(1) [OF r] by simp
  then show ?thesis using App_SyncCommit_starting [OF assms(1,2)] False assms(3) by (simp add: committed_def)
qed

lemma DestroyEXC_finished:
  assumes "DestroyEXC levels p am = Inr (e, am')" "sch_state (app_of am p) = FINISHED"
  shows "app_objs am' = app_objs am"
proof -
  obtain am1 am2 where "PriorityRemove levels p am = Inr am1" "LangRemove p am1 = Inr am2" "app_objs am' = app_objs am2"
    using assms unfolding DestroyEXC_def Let_def by (auto simp: AppsRemove_def elim!: seq_fault_InrE)
  then show ?thesis
    by (auto simp: PriorityRemove_def LangRemove_def same_objs_def split: if_splits dest!: erase_app_queues(1))
qed

lemma AM_SyncCommit_committed:
  assumes "AM_SyncCommit levels p am = Inr (e, am')" "sch_state (app_of am p) = SYNC"
  shows "committed (app_of am p) (app_of am' p)"
proof -
  obtain c s r am1 am2 where 0: "App_SyncCommit (app_of am p) = Inr (c, s)"
    and 1: "UpdateStatusMaps p (sch_state (app_of am p)) (sch_state s) (upd_app p s am) = Inr (r, am1)"
    and 2: "RemoveFromSyncMap_state p (syncState (app_of am p)) am1 = Inr am2"
    and 3: "am' = am2 \<or> sch_state (app_of am2 p) = FINISHED \<and> (\<exists>e. DestroyEXC levels p am2 = Inr (e, am'))"
    using assms(1) unfolding AM_SyncCommit_def Let_def
    by (elim seq_fault_InrE) (auto simp: Finished_def split: if_splits elim!: seq_fault_InrE)
  have y: "syncState (app_of am p) \<noteq> SYNC_NONE" using 2 by (auto simp: RemoveFromSyncMap_state_def)
  have "app_objs am1 = app_objs (upd_app p s am)"
    using 1 by (auto simp: UpdateStatusMaps_def insert_app_def upd_vec_def split: if_splits elim!: seq_fault_InrE
      dest!: erase_app_queues(1) simp: same_objs_def)
  moreover have "app_objs am2 = app_objs am1"
    using 2 by (auto simp: RemoveFromSyncMap_state_def split: if_splits dest!: erase_app_queues(1) simp: same_objs_def)
  ultimately have "app_of am' p = s" using 3 DestroyEXC_finished by (auto simp: upd_app_def)
  then show ?thesis using App_SyncCommit_committed [OF 0 assms(2) y] by simp
qed

text \<open>An application that has left the synchronisation cannot be committed.\<close>

lemma AM_SyncCommit_needs_sync: "syncState (app_of am p) = SYNC_NONE \<Longrightarrow> AM_SyncCommit levels p am \<noteq> Inr x"
  by (auto simp: AM_SyncCommit_def RemoveFromSyncMap_state_def Let_def elim!: seq_fault_InrE)

lemma ChangeEXCState_none:
  assumes "ChangeEXCState p ns SYNC_NONE am = Inr (e, am')" "ns \<noteq> SYNC"
  shows "syncState (app_of am' p) = SYNC_NONE \<and> sch_state (app_of am' p) = ns"
proof (cases "sch_state (app_of am p) = ns \<and> syncState (app_of am p) = SYNC_NONE")
  case False
  let ?a = "app_of am p"
  note run = assms(1) [unfolded ChangeEXCState_def Let_def if_not_P [OF False]]
  from run obtain ret a where s: "Sched_SetState ns SYNC_NONE ?a = Inr (ret, a)"
    and rest: "am' = upd_app p a am \<or> (\<exists>am2 am3.
      (if sch_state ?a = SYNC then RemoveFromSyncMap_state p (syncState ?a) (upd_app p a am) else Inr (upd_app p a am)) = Inr am2 \<and>
      (if ns = SYNC then AddToSyncMap p am2 else Inr am2) = Inr am3 \<and>
      (am' = am3 \<or> UpdateStatusMaps p (sch_state ?a) ns am3 = Inr (e, am')))"
    by (elim seq_fault_InrE) (auto split: if_splits elim!: seq_fault_InrE)
  have "syncState a = SYNC_NONE" "sch_state a = ns" using s assms(2) by (auto elim: Sched_SetState_cases)
  moreover have "app_objs am' = app_objs (upd_app p a am)"
    using rest assms(2)
    by (auto simp: RemoveFromSyncMap_state_def UpdateStatusMaps_def insert_app_def upd_vec_def same_objs_def
        split: if_splits elim!: seq_fault_InrE dest!: erase_app_queues(1))
  ultimately show ?thesis by (simp add: upd_app_def)
qed (use assms in \<open>simp add: ChangeEXCState_def Let_def\<close>)

lemma AM_SyncAbort_none:
  "AM_SyncAbort levels ready alive p sys = Inr (am', ra') \<Longrightarrow>
     syncState (app_of am' p) = SYNC_NONE \<and> sch_state (app_of am' p) \<in> {READY, FINISHED}"
  by (auto simp: AM_SyncAbort_def elim!: seq_fault_InrE dest!: ChangeEXCState_none split: if_splits)

text \<open>An application that has left the synchronisation is committed outside of its states: the
  application refuses, its state queue stays, and then the queue of no synchronisation state is
  addressed.\<close>

lemma AM_SyncCommit_out_of_range:
  "syncState (app_of am p) = SYNC_NONE \<Longrightarrow> sch_state (app_of am p) \<noteq> SYNC \<Longrightarrow> AM_SyncCommit levels p am = Inl OutOfRange"
  by (simp add: AM_SyncCommit_def App_SyncCommit_def UpdateStatusMaps_def RemoveFromSyncMap_state_def Let_def)

text \<open>C38: a refused acquisition of resources is not survived. When the accounter refuses the resources of an
  application that is neither blocking nor disabled, the application is taken out of the
  synchronisation and then committed all the same. The commit ends with the fault of taking it out, if
  that has one, and otherwise by addressing, with the synchronisation state that the application no longer
  has, a queue outside of the array of queues.\<close>

theorem refused_acquisition_faults:
  assumes "\<not> Blocking (sm_app sm p)" "\<not> Disabled (sm_app sm p)" "sync_acquire env p (sm_am sm, sm_ra sm) = Inr (c, sys)"
    "c \<noteq> RA_SUCCESS"
  shows "sm_SyncCommit env p sm =
    Inl (case AM_SyncAbort (env_levels env) (env_ready env) (env_alive env) p sys of Inl f \<Rightarrow> f | Inr _ \<Rightarrow> OutOfRange)"
proof (cases "AM_SyncAbort (env_levels env) (env_ready env) (env_alive env) p sys")
  case (Inl f)
  then show ?thesis using assms by (simp add: sm_SyncCommit_def)
next
  case (Inr sys1)
  obtain am1 ra1 where 1: "sys1 = (am1, ra1)" by fastforce
  have "AM_SyncCommit (env_levels env) p am1 = Inl OutOfRange"
    by (rule AM_SyncCommit_out_of_range) (use AM_SyncAbort_none [OF Inr [unfolded 1]] in auto)
  then show ?thesis using assms Inr 1 by (simp add: sm_SyncCommit_def)
qed

lemma sm_SyncCommit_committed:
  assumes "sm_SyncCommit env p sm = Inr sm'" "sch_state (sm_app sm p) = SYNC"
  shows "committed (sm_app sm p) (sm_app sm' p)"
  using assms(1)
proof (cases rule: sm_SyncCommit_cases)
  case (free e am2)
  then show ?thesis using AM_SyncCommit_committed [OF free(2) assms(2)] by simp
next
  case (acquired am1 ra1 e am2)
  have "sch_state (app_of am1 p) = sch_state (sm_app sm p)" "syncState (app_of am1 p) = syncState (sm_app sm p)"
    "next_awm (app_of am1 p) = next_awm (sm_app sm p)"
    using sync_acquire_result [OF acquired(3)] by (auto simp: upd_awm_def upd_app_def)
  then show ?thesis using AM_SyncCommit_committed [OF acquired(4)] assms(2) acquired(5)
      committed_cong [of "app_of am1 p" "sm_app sm p"] by simp
next
  case (refused c am0 ra0 am1 ra1 e am2)
  then show ?thesis using AM_SyncCommit_needs_sync AM_SyncAbort_none by blast
qed

section \<open>A walk leaves no application out\<close>

lemma GetNext_skips_none:
  assumes "GetNext i am1 = Inr (po, am2)" "it_map (iters am1 i) = Some r" "om_ok (vecs am1 r)"
    "it_updated (iters am1 i) \<Longrightarrow> skips_none k (vecs am1 r) (it_pos (iters am1 i))"
    "\<not> it_updated (iters am1 i) \<Longrightarrow> it_pos (iters am1 i) = Some k"
  shows "skips_none k (vecs am1 r) (if po = None then None else it_pos (iters am2 i))"
    "po = Some p \<Longrightarrow> \<exists>k'. it_pos (iters am2 i) = Some k' \<and> queue am2 r k' = Some p"
proof -
  obtain it2 where n: "It_next am1 (iters am1 i) = Inr it2"
    and f: "(if it_pos it2 = None then Inr (None, Release_it i (upd_it i it2 am1))
       else seq_fault (It_Get (upd_it i it2 am1) it2) (\<lambda>p. Inr (Some p, upd_it i it2 am1))) = Inr (po, am2)"
    using assms(1) by (auto simp: GetNext_def Let_def elim!: seq_fault_InrE)
  have s: "skips_none k (vecs am1 r) (it_pos it2)"
  proof (cases "it_updated (iters am1 i)")
    case True
    then show ?thesis using n assms(4) by (auto simp: It_next_def)
  next
    case False
    then show ?thesis using n assms(2,3,5) next_key_skips_none by (auto simp: It_next_def it_vec_def elim!: seq_fault_InrE)
  qed
  have m: "it_map it2 = Some r" using n assms(2) by (auto simp: It_next_def split: if_splits elim!: seq_fault_InrE)
  have p2: "(po = None \<longrightarrow> it_pos it2 = None) \<and> (po \<noteq> None \<longrightarrow> it_pos (iters am2 i) = it_pos it2)"
    using f by (auto simp: upd_it_def split: if_splits elim!: seq_fault_InrE)
  with s show "skips_none k (vecs am1 r) (if po = None then None else it_pos (iters am2 i))" by (cases po) auto
  show "\<exists>k'. it_pos (iters am2 i) = Some k' \<and> queue am2 r k' = Some p" if "po = Some p"
    using f m that by (auto simp: It_Get_def it_vec_def upd_it_def split: if_splits option.splits elim!: seq_fault_InrE)
qed

text \<open>The state of a walk that has come to the key \<open>k\<close>, or to the end: the body has been applied to the
  applications before, and nothing has happened to the others.\<close>

definition walked :: "(SyncManager \<Rightarrow> appptr \<Rightarrow> SyncManager \<Rightarrow> bool) \<Rightarrow> (SyncManager \<Rightarrow> SyncManager \<Rightarrow> bool) \<Rightarrow> mapref \<Rightarrow>
    SyncManager \<Rightarrow> AppUid option \<Rightarrow> SyncManager \<Rightarrow> bool" where
  "walked outcome same mr sm0 pos sm \<longleftrightarrow>
     session_ok sm \<and> same sm0 sm \<and> vecs (sm_am sm) UIDS = vecs (sm_am sm0) UIDS \<and>
     (\<forall>u. queue (sm_am sm) mr u = None \<or> queue (sm_am sm) mr u = queue (sm_am sm0) mr u) \<and>
     (\<forall>u q. queue (sm_am sm0) mr u = Some q \<longrightarrow>
        (if \<forall>k. pos = Some k \<longrightarrow> u < k then outcome sm0 q sm
         else sm_app sm q = sm_app sm0 q \<and> queue (sm_am sm) mr u = Some q))"

text \<open>What the body of a loop over a queue promises: it changes one application, possibly taking it
  out of the queue, and brings it to an outcome that only depends on it. The relation \<open>same\<close> is about
  the rest of the state that the outcome depends on.\<close>

locale queue_walk =
  fixes body :: "appptr \<Rightarrow> SyncManager \<times> unit \<Rightarrow> fault + SyncManager \<times> unit" and mr :: mapref
    and outcome :: "SyncManager \<Rightarrow> appptr \<Rightarrow> SyncManager \<Rightarrow> bool" and same :: "SyncManager \<Rightarrow> SyncManager \<Rightarrow> bool"
  assumes body_settles: "body p s = Inr s' \<Longrightarrow> settles p mr i (sm_am (fst s)) (sm_am (fst s'))"
    and body_outcome: "body p (sm, x) = Inr (sm1, x') \<Longrightarrow> session_ok sm \<Longrightarrow> queue (sm_am sm) mr k = Some p \<Longrightarrow>
      sm_app sm p = sm_app sm0 p \<Longrightarrow> same sm0 sm \<Longrightarrow> outcome sm0 p sm1 \<and> session_ok sm1 \<and> same sm0 sm1"
    and outcome_local: "sm_app sm' p = sm_app sm p \<Longrightarrow> outcome sm0 p sm' = outcome sm0 p sm"
    and same_refl: "same sm sm"
    and same_am: "same sm0 sm \<Longrightarrow> same sm0 (sm\<lparr>sm_am := am\<rparr>)"
    and queue_uid: "session_ok sm \<Longrightarrow> queue (sm_am sm) mr u = Some p \<Longrightarrow> Uid (sm_app sm p) = u"
begin

lemma walked_round:
  assumes w: "walked outcome same mr sm0 (Some k) sm" and ok0: "session_ok sm0"
    and b: "body p (sm, x) = Inr (sm1, x')" and q: "queue (sm_am sm) mr k = Some p"
    and s: "skips_none k (vecs (sm_am sm1) mr) pos" and k: "\<forall>k'. pos = Some k' \<longrightarrow> k < k'"
  shows "walked outcome same mr sm0 pos sm1"
proof -
  have ok: "session_ok sm" and 0: "same sm0 sm" using w by (simp_all add: walked_def)
  have q0: "queue (sm_am sm0) mr k = Some p" using w q unfolding walked_def by (metis option.distinct(1))
  have p: "sm_app sm p = sm_app sm0 p" using w q0 by (auto simp: walked_def)
  note o = body_outcome [OF b ok q p 0]
  have st: "settles p mr i (sm_am sm) (sm_am sm1)" for i using body_settles [OF b] by simp
  have uid: "Uid (sm_app sm p) = k" by (rule queue_uid [OF ok q])
  have other: "r \<noteq> p \<and> sm_app sm1 r = sm_app sm r \<and> queue (sm_am sm1) mr u = queue (sm_am sm) mr u"
    if "queue (sm_am sm0) mr u = Some r" "u \<noteq> k" for u r
  proof -
    have "r \<noteq> p" using queue_uid [OF ok0 that(1)] queue_uid [OF ok0 q0] that(2) by auto
    then show ?thesis using st [of 0] that(2) uid by (auto simp: settles_def)
  qed
  have later: "u < k \<or> u = k \<or> k < u \<and> (\<exists>k'. pos = Some k' \<and> k' \<le> u)" if "queue (sm_am sm0) mr u = Some r" for u r
  proof (cases "k < u")
    case True
    then have "queue (sm_am sm1) mr u = Some r" using other [OF that] w that by (auto simp: walked_def)
    then have "u \<in> fst ` set (vecs (sm_am sm1) mr)" by (metis domI dom_map_of_conv_image_fst)
    then show ?thesis using s True by (auto simp: skips_none_def)
  qed auto
  have "if \<forall>k'. pos = Some k' \<longrightarrow> u < k' then outcome sm0 r sm1
        else sm_app sm1 r = sm_app sm0 r \<and> queue (sm_am sm1) mr u = Some r"
    if r: "queue (sm_am sm0) mr u = Some r" for u r
  proof -
    consider "u < k" | "u = k" | k' where "k < u" "pos = Some k'" "k' \<le> u" using later [OF r] by blast
    then show ?thesis
    proof cases
      case 1
      then have "outcome sm0 r sm" using w r by (auto simp: walked_def)
      then show ?thesis using other [OF r] 1 k outcome_local [of sm1 r sm] by auto
    next
      case 2
      then show ?thesis using o q0 r k by auto
    next
      case 3
      then show ?thesis using other [OF r] w r by (auto simp: walked_def)
    qed
  qed
  moreover have "queue (sm_am sm1) mr u = None \<or> queue (sm_am sm1) mr u = queue (sm_am sm0) mr u" for u
    using st [of 0] w unfolding settles_def walked_def by metis
  moreover have "vecs (sm_am sm1) UIDS = vecs (sm_am sm0) UIDS" using st [of 0] w by (simp add: settles_def walked_def)
  ultimately show ?thesis using o by (simp add: walked_def)
qed

lemma walked_iterators:
  assumes "walked outcome same mr sm0 pos sm" "app_objs am = app_objs (sm_am sm)" "app_alloc am = app_alloc (sm_am sm)"
    "vecs am = vecs (sm_am sm)"
  shows "walked outcome same mr sm0 pos (sm\<lparr>sm_am := am\<rparr>)"
proof -
  have "session_ok (sm\<lparr>sm_am := am\<rparr>)"
    by (rule queues_kept.P_iterators) (use assms in \<open>simp_all add: walked_def\<close>)
  moreover have "outcome sm0 q (sm\<lparr>sm_am := am\<rparr>) = outcome sm0 q sm" for q by (rule outcome_local) (simp add: assms(2))
  ultimately show ?thesis using assms same_am by (simp add: walked_def)
qed

lemma visit_walks:
  assumes "visit fuel i body (Some p) (sm, x) = Inr (Some (sm', x'))" "session_ok sm0"
    "walked outcome same mr sm0 (Some k) sm" "queue (sm_am sm) mr k = Some p"
    "it_pos (iters (sm_am sm) i) = Some k" "\<not> it_updated (iters (sm_am sm) i)" "it_map (iters (sm_am sm) i) = Some mr"
  shows "walked outcome same mr sm0 None sm'"
  using assms(1,3-)
proof (induction fuel arbitrary: p sm x k)
  case (Suc fuel)
  from Suc.prems(1) obtain sm1 x1 po am2 where b: "body p (sm, x) = Inr (sm1, x1)"
    and n: "GetNext i (sm_am sm1) = Inr (po, am2)"
    and v: "visit fuel i body po (sm1\<lparr>sm_am := am2\<rparr>, x1) = Inr (Some (sm', x'))"
    by (auto elim!: seq_fault_InrE)
  have s: "settles p mr i (sm_am sm) (sm_am sm1)" using body_settles [OF b] by simp
  have ok: "session_ok sm" using Suc.prems(2) by (simp add: walked_def)
  have uid: "Uid (sm_app sm p) = k" by (rule queue_uid [OF ok Suc.prems(3)])
  have om: "om_ok (vecs (sm_am sm) mr)" "om_ok (vecs (sm_am sm1) mr)"
    using ok s by (simp_all add: session_ok_def queues_ok_om settles_def)
  have adv: "advances k (iters (sm_am sm) i) (iters (sm_am sm1) i)"
    and sk: "iters (sm_am sm1) i \<noteq> iters (sm_am sm) i \<Longrightarrow> skips_none k (vecs (sm_am sm1) mr) (it_pos (iters (sm_am sm1) i))"
    using s uid Suc.prems(6) om(1) by (auto simp: settles_def)
  have m1: "it_map (iters (sm_am sm1) i) = Some mr" using settles_it_map [OF s] Suc.prems(6) by simp
  have i1: "it_updated (iters (sm_am sm1) i) \<Longrightarrow> skips_none k (vecs (sm_am sm1) mr) (it_pos (iters (sm_am sm1) i))"
    "\<not> it_updated (iters (sm_am sm1) i) \<Longrightarrow> it_pos (iters (sm_am sm1) i) = Some k"
    using sk adv Suc.prems(4,5) unfolding advances_def by metis+
  have g: "skips_none k (vecs (sm_am sm1) mr) (if po = None then None else it_pos (iters am2 i))"
    "\<And>p. po = Some p \<Longrightarrow> \<exists>k'. it_pos (iters am2 i) = Some k' \<and> queue am2 mr k' = Some p"
    using GetNext_skips_none [OF n m1 om(2) i1] by blast+
  have kept: "walked outcome same mr sm0 pos (sm1\<lparr>sm_am := am2\<rparr>)" if "walked outcome same mr sm0 pos sm1" for pos
    by (rule walked_iterators [OF that]) (use GetNext_only [OF n] in simp_all)
  show ?case
  proof (cases po)
    case None
    have "walked outcome same mr sm0 None sm1"
      by (rule walked_round [OF Suc.prems(2) assms(2) b Suc.prems(3)]) (use g(1) None in simp_all)
    then show ?thesis using kept v None by simp
  next
    case (Some p2)
    obtain k' where k': "it_pos (iters am2 i) = Some k'" "k < k'" "\<not> it_updated (iters am2 i)" "it_map (iters am2 i) = Some mr"
      using GetNext_later [OF n [unfolded Some] adv Suc.prems(5,4,6)] by blast
    have "walked outcome same mr sm0 (Some k') sm1"
      by (rule walked_round [OF Suc.prems(2) assms(2) b Suc.prems(3)]) (use g(1) Some k' in simp_all)
    from Suc.IH [OF v [unfolded Some] kept [OF this]] show ?thesis using k' g(2) [OF Some] by simp
  qed
qed simp

lemma for_each_walks:
  assumes "session_ok sm" "for_each mr i body (sm, ()) = Inr (Some (sm', ()))"
  shows "walked outcome same mr sm None sm'"
proof -
  let ?am0 = "upd_it i AppsUidMapIt_new (sm_am sm)"
  obtain po am1 sm2 where f: "GetFirst mr i ?am0 = Inr (po, am1)"
    and v: "visit (length (vecs (sm_am sm) mr)) i body po (sm\<lparr>sm_am := am1\<rparr>, ()) = Inr (Some (sm2, ()))"
    and sm': "sm' = sm2\<lparr>sm_am := Release_it i (sm_am sm2)\<rparr>"
    using assms(2) by (auto simp: for_each_def elim!: seq_loop_Some seq_fault_InrE)
  have om: "om_ok (vecs (sm_am sm) mr)" using assms(1) by (simp add: session_ok_def queues_ok_om)
  have first: "walked outcome same mr sm pos (sm\<lparr>sm_am := am1\<rparr>)"
    if "\<forall>u q. queue (sm_am sm) mr u = Some q \<longrightarrow> (\<exists>k. pos = Some k \<and> \<not> u < k)" for pos
  proof (rule walked_iterators)
    show "walked outcome same mr sm pos sm" using assms(1) same_refl that by (auto simp: walked_def)
  qed (use GetFirst_only [OF f] in \<open>simp_all add: upd_it_def\<close>)
  have "walked outcome same mr sm None sm2"
  proof (cases "vecs (sm_am sm) mr")
    case Nil
    then have "po = None" using f by (auto simp: GetFirst_def Let_def It_Init_def begin_key_def upd_it_def)
    then show ?thesis using v first [of None] Nil by simp
  next
    case (Cons e m)
    obtain k p0 where e: "e = (k, p0)" by (cases e)
    have p0: "po = Some p0" and it: "it_pos (iters am1 i) = Some k" "\<not> it_updated (iters am1 i)" "it_map (iters am1 i) = Some mr"
      using f Cons e
      by (auto simp: GetFirst_def Let_def It_Init_def It_Get_def it_vec_def AppsUidMapIt_new_def upd_it_def Retain_def begin_key_def)
    have "walked outcome same mr sm (Some k) (sm\<lparr>sm_am := am1\<rparr>)"
      by (rule first) (use om Cons e in \<open>auto simp: om_ok_def split: if_splits dest!: map_of_SomeD\<close>)
    moreover have "queue am1 mr k = Some p0" using GetFirst_only [OF f] Cons e by (simp add: upd_it_def)
    ultimately show ?thesis by (intro visit_walks [OF v [unfolded p0] assms(1)]) (use it in simp_all)
  qed
  then show ?thesis unfolding sm' by (rule walked_iterators) (simp_all add: Release_it_only)
qed

end

section \<open>The outcome of the last step\<close>

definition left_out :: "SyncManager \<Rightarrow> appptr \<Rightarrow> bool" where
  "left_out sm p \<longleftrightarrow> DoSync (sm_app sm p) (sm_policy sm) = Inr False \<or> p \<in> set (sync_fails_apps sm)"

definition post_outcome :: "SyncManager \<Rightarrow> appptr \<Rightarrow> SyncManager \<Rightarrow> bool" where
  "post_outcome sm0 p sm \<longleftrightarrow>
     (if left_out sm0 p then sm_app sm p = sm_app sm0 p else committed (sm_app sm0 p) (sm_app sm p))"

lemma queued_uid: "session_ok sm \<Longrightarrow> queue (sm_am sm) (SYNCQ y) u = Some p \<Longrightarrow>
    Uid (sm_app sm p) = u \<and> sch_state (sm_app sm p) = SYNC \<and> syncState (sm_app sm p) = y"
  using queues_ok_placed [of "sm_am sm" u] by (auto simp: session_ok_def placed_def split: option.splits if_splits)

lemma post_change_body_outcome:
  assumes "post_change_body env p (sm, x) = Inr (sm1, x')" "session_ok sm" "queue (sm_am sm) (SYNCQ y) k = Some p"
    "sm_app sm p = sm_app sm0 p" "sm_policy sm = sm_policy sm0 \<and> sync_fails_apps sm = sync_fails_apps sm0"
  shows "post_outcome sm0 p sm1 \<and> session_ok sm1 \<and> sm_policy sm1 = sm_policy sm0 \<and> sync_fails_apps sm1 = sync_fails_apps sm0"
proof -
  consider (out) "left_out sm0 p" "sm1 = sm" | (taken) "\<not> left_out sm0 p" "sm_SyncCommit env p sm = Inr sm1"
    using assms(1,4,5) by (auto simp: post_change_body_def left_out_def split: if_splits elim!: seq_fault_InrE)
  then show ?thesis
  proof cases
    case out
    then show ?thesis using assms by (simp add: post_outcome_def)
  next
    case taken
    have "session_ok sm1" by (rule queues_kept.P_commit [OF assms(2) _ taken(2)]) (use assms(3) in blast)
    then show ?thesis
      using taken sm_SyncCommit_committed [OF taken(2)] queued_uid [OF assms(2,3)] sm_SyncCommit_only [OF taken(2)] assms(4,5)
      by (simp add: post_outcome_def)
  qed
qed

interpretation post_walk: queue_walk "post_change_body env" "SYNCQ y" post_outcome
  "\<lambda>sm0 sm. sm_policy sm = sm_policy sm0 \<and> sync_fails_apps sm = sync_fails_apps sm0" for env y
proof
  show "settles p (SYNCQ y) i (sm_am (fst s)) (sm_am (fst s'))" if "post_change_body env p s = Inr s'" for p s s' i
    by (rule post_change_body_settles [OF that])
  show "post_outcome sm0 p sm1 \<and> session_ok sm1 \<and> sm_policy sm1 = sm_policy sm0 \<and> sync_fails_apps sm1 = sync_fails_apps sm0"
    if "post_change_body env p (sm, x) = Inr (sm1, x')" "session_ok sm" "queue (sm_am sm) (SYNCQ y) k = Some p"
      "sm_app sm p = sm_app sm0 p" "sm_policy sm = sm_policy sm0 \<and> sync_fails_apps sm = sync_fails_apps sm0"
    for p sm x sm1 x' k sm0
    by (rule post_change_body_outcome [OF that])
qed (auto simp: post_outcome_def dest: queued_uid)

text \<open>C9: the last step of the synchronisation of a queue settles every application that was in it. One
  that the policy leaves out, or whose synchronisation has failed before, is as it was; every
  other one has left the synchronisation: it is ready when it was to be blocked, finished when it
  was to be disabled, and otherwise runs in the working mode that it was scheduled in. The
  applications leave the queue while it is walked.\<close>

theorem post_change_settles_queue:
  assumes "session_ok sm" "Sync_PostChange env i y sm = Inr (Some (c, sm'))" "queue (sm_am sm) (SYNCQ y) u = Some p"
  shows "if DoSync (sm_app sm p) (sm_policy sm) = Inr False \<or> p \<in> set (sync_fails_apps sm)
     then sm_app sm' p = sm_app sm p \<and> queue (sm_am sm') (SYNCQ y) u = Some p
     else committed (sm_app sm p) (sm_app sm' p) \<and> queue (sm_am sm') (SYNCQ y) u = None"
proof -
  have "for_each (SYNCQ y) i (post_change_body env) (sm, ()) = Inr (Some (sm', ()))"
    using assms(2) by (auto simp: Sync_PostChange_def elim!: seq_loop_Some)
  from post_walk.for_each_walks [OF assms(1) this]
  have o: "post_outcome sm p sm'" "session_ok sm'" "vecs (sm_am sm') UIDS = vecs (sm_am sm) UIDS"
    using assms(3) by (auto simp: walked_def)
  have 0: "queue (sm_am sm) UIDS u = Some p" "sch_state (sm_app sm p) = SYNC" "syncState (sm_app sm p) = y"
    using queues_ok_placed [of "sm_am sm" u] assms(1,3) by (auto simp: session_ok_def placed_def split: option.splits if_splits)
  have "queue (sm_am sm') (SYNCQ y) u = (if sch_state (sm_app sm' p) = SYNC \<and> syncState (sm_app sm' p) = y then Some p else None)"
    using queues_ok_placed [of "sm_am sm'" u] o(2,3) 0(1) by (auto simp: session_ok_def placed_def)
  then show ?thesis using o(1) 0 committed_state [of "sm_app sm p" "sm_app sm' p"]
    by (auto simp: post_outcome_def left_out_def split: if_splits)
qed

definition demo_blocked :: SyncManager where
  "demo_blocked =
     \<lparr>sm_am = ApplicationManager_new\<lparr>app_objs := (\<lambda>_. (Application_new ''demo'' 100 0 RTLIB_LANG_CPP False)
          \<lparr>sch_state := SYNC, syncState := BLOCKED, preSyncState := READY\<rparr>),
        app_alloc := 1, am_apps := [(100, 0)],
        vecs := (\<lambda>_. [])(UIDS := [(3200, 0)], STATUS SYNC := [(3200, 0)], SYNCQ BLOCKED := [(3200, 0)])\<rparr>,
      sm_ra = ra_ten, sm_policy = SasbSyncPol_new, sync_count = 0, sync_fails_apps = []\<rparr>"

lemma demo_blocked_ok: "session_ok demo_blocked"
proof -
  have "Uid (sm_app demo_blocked 0) = 3200" "syncState (sm_app demo_blocked 0) = BLOCKED" "sch_state (sm_app demo_blocked 0) = SYNC"
    by code_simp+
  then show ?thesis
    by (simp add: session_ok_def queues_ok_def placed_def demo_blocked_def om_ok_def)
qed

theorem post_change_settles_queue_witness:
  "\<exists>sm'. Sync_PostChange demo_env 1 BLOCKED demo_blocked = Inr (Some (SM_OK, sm')) \<and>
     sch_state (sm_app sm' 0) = READY \<and> queue (sm_am sm') (SYNCQ BLOCKED) 3200 = None"
proof -
  have r: "case Sync_PostChange demo_env 1 BLOCKED demo_blocked of Inr (Some (c, _)) \<Rightarrow> c = SM_OK | _ \<Rightarrow> False" by code_simp
  then obtain sm' where s: "Sync_PostChange demo_env 1 BLOCKED demo_blocked = Inr (Some (SM_OK, sm'))"
    by (auto split: sum.splits option.splits)
  have q: "queue (sm_am demo_blocked) (SYNCQ BLOCKED) 3200 = Some 0" by (simp add: demo_blocked_def)
  have d: "DoSync (sm_app demo_blocked 0) (sm_policy demo_blocked) = Inr True" "sync_fails_apps demo_blocked = []"
    "syncState (sm_app demo_blocked 0) = BLOCKED" by code_simp+
  from post_change_settles_queue [OF demo_blocked_ok s q] d s show ?thesis by (simp add: committed_def)
qed

text \<open>A session of the accounter under the token 5, in whose view the application that is starting has
  its resources already.\<close>

definition demo_starting :: SyncManager where
  "demo_starting =
     \<lparr>sm_am = ApplicationManager_new\<lparr>app_objs := (\<lambda>_. (demo_app SYNC)\<lparr>syncState := STARTING, preSyncState := READY,
          next_awm := Some 0, awm_objs := (\<lambda>_. wm_twelve\<lparr>sync_bindings := Some (twelve SEQUENTIAL)\<rparr>)\<rparr>),
        app_alloc := 1, am_apps := [(100, 0)],
        vecs := (\<lambda>_. [])(UIDS := [(3200, 0)], STATUS SYNC := [(3200, 0)], SYNCQ STARTING := [(3200, 0)])\<rparr>,
      sm_ra = ra_ten\<lparr>ra_status := RA_SYNC, sync_ssn := (sync_ssn ra_ten)\<lparr>ss_view := 5\<rparr>,
        assign_objs := (\<lambda>_. [(3200, twelve SEQUENTIAL)])\<rparr>,
      sm_policy = SasbSyncPol_new, sync_count = 1, sync_fails_apps = []\<rparr>"

theorem refused_acquisition_faults_witness:
  "Synching (sm_ra demo_starting) \<and> Starting (sm_app demo_starting 0) \<and>
     sm_SyncCommit demo_env 0 demo_starting = Inl OutOfRange"
proof -
  let ?abort = "AM_SyncAbort (env_levels demo_env) (env_ready demo_env) (env_alive demo_env) 0"
  have r: "case sync_acquire demo_env 0 (sm_am demo_starting, sm_ra demo_starting) of
      Inr (c, sys) \<Rightarrow> c = RA_ERR_APP_USAGES \<and> (case ?abort sys of Inl _ \<Rightarrow> False | Inr _ \<Rightarrow> True)
    | Inl _ \<Rightarrow> False" by code_simp
  from case_answer [OF r] obtain sys where "sync_acquire demo_env 0 (sm_am demo_starting, sm_ra demo_starting) = Inr (RA_ERR_APP_USAGES, sys)"
    and "case ?abort sys of Inl _ \<Rightarrow> False | Inr _ \<Rightarrow> True" by blast
  moreover from this(2) obtain sys1 where "?abort sys = Inr sys1" by (cases "?abort sys") auto
  moreover have "\<not> Blocking (sm_app demo_starting 0)" "\<not> Disabled (sm_app demo_starting 0)"
    "Synching (sm_ra demo_starting)" "Starting (sm_app demo_starting 0)" by code_simp+
  ultimately show ?thesis using refused_acquisition_faults [of demo_starting 0 demo_env RA_ERR_APP_USAGES sys] by simp
qed

end
