(* ===== verification/Scheduler_Manager.thy ===== *)
theory Scheduler_Manager
  imports Sync_Settlement
begin

text \<open>
  The scheduler manager (\<^verbatim>\<open>bbque/scheduler_manager.cc\<close>): a scheduling run checks the active
  applications, calls the policy, commits the applications that keep running and installs the
  view that the policy has filled.

  The policy is a plugin and a parameter: a function of the application manager and the accounter
  that answers with an exit code and the token of a view. Properties that depend on what it does
  assume that it acts by \<open>policy_step\<close>, the calls that the interfaces offer to policies. Metrics and
  the notification of the data manager are left out.
\<close>

section \<open>State and environment\<close>

datatype SchedExitCode = SD_DONE | MISSING_POLICY | SD_FAILED | SD_DELAYED

datatype SchedState = SD_READY | SCHEDULING

datatype PolicyExitCode = SCHED_DONE | SCHED_OK | SCHED_R_NOT_FOUND | SCHED_R_UNAVAILABLE | SCHED_SKIP_APP | SCHED_OPT_OVER |
  SCHED_ERROR_INIT | SCHED_ERROR_VIEW | SCHED_ERROR

type_synonym SchedulerPolicy = "System \<Rightarrow> fault + PolicyExitCode \<times> RViewToken \<times> System"

record SchedulerManager =
  sd_sys :: SyncManager
  sched_count :: u32
  sd_state :: SchedState

definition upd_sys :: "System \<Rightarrow> SyncManager \<Rightarrow> SyncManager" where
  "upd_sys sys sm = sm\<lparr>sm_am := fst sys, sm_ra := snd sys\<rparr>"

definition sd_SetState :: "SchedState \<Rightarrow> SchedulerManager \<Rightarrow> SchedulerManager" where
  "sd_SetState s sd = sd\<lparr>sd_state := s\<rparr>"

definition sd_WaitForReady :: "SchedulerManager \<Rightarrow> fault + unit" where
  "sd_WaitForReady sd = (if sd_state sd = SD_READY then Inr () else Inl WouldBlock)"

section \<open>Operations\<close>

definition continue_body :: "appptr \<Rightarrow> SyncManager \<times> unit \<Rightarrow> fault + SyncManager \<times> unit" where
  "continue_body p s =
     (case s of (sm, u) \<Rightarrow> seq_fault (AM_SyncContinue p (sm_am sm)) (\<lambda>(_, am). Inr (sm\<lparr>sm_am := am\<rparr>, u)))"

definition CommitRunningApplications :: "itptr \<Rightarrow> SyncManager \<Rightarrow> fault + SyncManager option" where
  "CommitRunningApplications i sm =
     seq_loop (for_each (STATUS RUNNING) i continue_body (sm, ())) (\<lambda>(sm1, _). Inr (Some sm1))"

definition Schedule :: "SyncEnv \<Rightarrow> SchedulerPolicy option \<Rightarrow> itptr \<Rightarrow> SchedulerManager \<Rightarrow>
    fault + (SchedExitCode \<times> SchedulerManager) option" where
  "Schedule env policy i sd =
     (case policy of
        None \<Rightarrow> Inr (Some (MISSING_POLICY, sd))
      | Some pol \<Rightarrow>
          let sm = sd_sys sd in
          seq_loop (CheckActiveEXCs (env_levels env) (sd_WaitForReady sd = Inr ()) (env_alive env) i
                      (upd_it i AppsUidMapIt_new (sm_am sm), sm_ra sm)) (\<lambda>sys1.
            let sd1 = (sd_SetState SCHEDULING sd)\<lparr>sd_sys := upd_sys sys1 sm, sched_count := sched_count sd + 1\<rparr> in
            seq_fault (pol sys1) (\<lambda>(result, view, sys2).
              if result \<noteq> SCHED_DONE then Inr (Some (SD_FAILED, sd_SetState SD_READY (sd1\<lparr>sd_sys := upd_sys sys2 sm\<rparr>)))
              else seq_loop (CommitRunningApplications i (upd_sys sys2 sm)) (\<lambda>sm3.
                Inr (Some (SD_DONE,
                  sd_SetState SD_READY (sd1\<lparr>sd_sys := sm3\<lparr>sm_ra := SetScheduledView view (sm_ra sm3)\<rparr>\<rparr>)))))))"

section \<open>The check of the active applications ends\<close>

abbreviation check_body :: "u16 \<Rightarrow> bool \<Rightarrow> (u32 \<Rightarrow> bool) \<Rightarrow> appptr \<Rightarrow> SyncManager \<times> unit \<Rightarrow> fault + SyncManager \<times> unit" where
  "check_body levels ready alive p s \<equiv>
     seq_fault (CheckEXC levels ready alive p True (sm_am (fst s), sm_ra (fst s))) (\<lambda>(_, sys). Inr (upd_sys sys (fst s), ()))"

lemma CheckActive_loop_visit:
  "visit fuel i (check_body levels ready alive) po (upd_sys sys sm, ()) =
     seq_loop (CheckActive_loop fuel levels ready alive i po sys) (\<lambda>sys'. Inr (Some (upd_sys sys' sm, ())))"
proof (induction fuel arbitrary: po sys)
  case 0
  then show ?case by (cases po) (simp_all add: seq_loop_def)
next
  case (Suc fuel)
  show ?case
  proof (cases po)
    case (Some p)
    have s: "(sm_am (upd_sys sys sm), sm_ra (upd_sys sys sm)) = sys" by (simp add: upd_sys_def)
    show ?thesis
    proof (cases "CheckEXC levels ready alive p True sys")
      case (Inr x)
      obtain b am1 ra1 where x: "x = (b, am1, ra1)" by (cases x) auto
      have 1: "sm_am (upd_sys (am1, ra1) (upd_sys sys sm)) = am1"
        "(upd_sys (am1, ra1) (upd_sys sys sm))\<lparr>sm_am := am2\<rparr> = upd_sys (am2, ra1) sm" for am2
        by (simp_all add: upd_sys_def)
      show ?thesis using Suc.IH by (cases "GetNext i am1") (simp_all add: Some s Inr x 1 seq_loop_def split: prod.splits)
    qed (simp add: Some s seq_loop_def)
  qed (simp add: seq_loop_def)
qed

lemma CheckActive_of_ends:
  assumes "STATUS st \<notin> {STATUS SYNC, STATUS FINISHED}" "\<not> it_updated (iters (fst sys) i)"
  shows "CheckActive_of st levels ready alive i sys \<noteq> Inr None"
proof
  assume "CheckActive_of st levels ready alive i sys = Inr None"
  then obtain po am1 where f: "GetFirst (STATUS st) i (fst sys) = Inr (po, am1)"
    and l: "CheckActive_loop (length (vecs (fst sys) (STATUS st))) levels ready alive i po (am1, snd sys) = Inr None"
    by (auto simp: CheckActive_of_def elim!: seq_fault_InrE)
  define sm where "sm = demo_idle"
  have v: "visit (length (vecs (fst sys) (STATUS st))) i (check_body levels ready alive) po (upd_sys (am1, snd sys) sm, ()) = Inr None"
    by (simp add: CheckActive_loop_visit l seq_loop_def)
  from v obtain p where p: "po = Some p" by (cases po) auto
  have m: "vecs am1 = vecs (fst sys)" using GetFirst_only [OF f] by simp
  obtain k where k: "it_pos (iters am1 i) = Some k" "k \<in> fst ` set (vecs am1 (STATUS st))" "\<not> it_updated (iters am1 i)"
    "it_map (iters am1 i) = Some (STATUS st)"
    using f [unfolded p] assms(2) by (cases "vecs (fst sys) (STATUS st)")
      (auto simp: GetFirst_def Let_def It_Init_def upd_it_def Retain_def begin_key_def elim!: seq_fault_InrE)
  have "visit (length (vecs (fst sys) (STATUS st))) i (check_body levels ready alive) (Some p) (upd_sys (am1, snd sys) sm, ()) \<noteq> Inr None"
  proof (rule visit_ends [where k = k and mr = "STATUS st"])
    show "card (keys_from k (vecs (sm_am (upd_sys (am1, snd sys) sm)) (STATUS st))) \<le> length (vecs (fst sys) (STATUS st))"
      using keys_from_length [where k = k and m = "vecs am1 (STATUS st)"] by (simp add: upd_sys_def m)
    show "settles p (STATUS st) i (sm_am (fst s)) (sm_am (fst s'))" if "check_body levels ready alive p s = Inr s'" for p s s'
      using that assms(1) by (auto simp: upd_sys_def elim!: seq_fault_InrE intro!: CheckEXC_settles)
  qed (use k in \<open>simp_all add: upd_sys_def\<close>)
  with v p show False by simp
qed

lemma GetNext_not_updated: "GetNext i am = Inr (po, am') \<Longrightarrow> \<not> it_updated (iters am' i)"
  by (auto simp: GetNext_def It_next_def Let_def upd_it_def Release_it_def split: if_splits option.splits elim!: seq_fault_InrE)

lemma CheckActive_loop_not_updated:
  "CheckActive_loop fuel levels ready alive i po sys = Inr (Some sys') \<Longrightarrow> \<not> it_updated (iters (fst sys) i) \<Longrightarrow>
     \<not> it_updated (iters (fst sys') i)"
proof (induction fuel arbitrary: po sys)
  case 0
  then show ?case by (cases po) auto
next
  case (Suc fuel)
  then show ?case using GetNext_not_updated by (cases po) (fastforce elim!: seq_fault_InrE)+
qed

lemma CheckActiveEXCs_ends:
  assumes "\<not> it_updated (iters (fst sys) i)"
  shows "CheckActiveEXCs levels ready alive i sys \<noteq> Inr None"
proof
  assume n: "CheckActiveEXCs levels ready alive i sys = Inr None"
  obtain sys1 where 1: "CheckActive_of READY levels ready alive i sys = Inr (Some sys1)"
    and 2: "CheckActive_of RUNNING levels ready alive i sys1 = Inr None"
    using n CheckActive_of_ends [of READY sys i levels ready alive] assms
    by (auto simp: CheckActiveEXCs_def split: option.splits elim!: seq_fault_InrE)
  obtain po am1 where f: "GetFirst (STATUS READY) i (fst sys) = Inr (po, am1)"
    and l: "CheckActive_loop (length (vecs (fst sys) (STATUS READY))) levels ready alive i po (am1, snd sys) = Inr (Some sys1)"
    using 1 by (auto simp: CheckActive_of_def elim!: seq_fault_InrE)
  have "\<not> it_updated (iters am1 i)"
    using f assms by (auto simp: GetFirst_def Let_def It_Init_def upd_it_def Retain_def split: if_splits elim!: seq_fault_InrE)
  then have "\<not> it_updated (iters (fst sys1) i)" using CheckActive_loop_not_updated [OF l] by simp
  then show False using CheckActive_of_ends [of RUNNING sys1 i levels ready alive] 2 by simp
qed

section \<open>The commit of the running applications\<close>

lemma AM_SyncContinue_result:
  assumes "AM_SyncContinue p am = Inr (e, am')"
  shows "am' = am \<or> (\<exists>a. am' = upd_app p a am \<and> Uid a = Uid (app_of am p) \<and> sch_state a = sch_state (app_of am p) \<and>
    syncState a = syncState (app_of am p) \<and> next_awm a = None \<and> awm a = awm (app_of am p))"
  using assms
  by (auto simp: AM_SyncContinue_def App_SyncContinue_def Let_def Uid_def split: option.splits if_splits elim!: seq_fault_InrE)

lemma continue_body_settles: "continue_body p s = Inr s' \<Longrightarrow> settles p mr i (sm_am (fst s)) (sm_am (fst s'))"
  by (cases s) (auto simp: continue_body_def elim!: seq_fault_InrE dest!: AM_SyncContinue_result intro: upd_app_settles)

lemma CommitRunningApplications_ends: "CommitRunningApplications i sm \<noteq> Inr None"
  using for_each_ends [where body = continue_body, OF continue_body_settles]
  by (auto simp: CommitRunningApplications_def dest!: seq_loop_None)

text \<open>A run ends when the policy answers.\<close>

lemma Schedule_ends: "Schedule env policy i sd \<noteq> Inr None"
proof
  assume n: "Schedule env policy i sd = Inr None"
  have "CheckActiveEXCs (env_levels env) (sd_WaitForReady sd = Inr ()) (env_alive env) i
      (upd_it i AppsUidMapIt_new (sm_am (sd_sys sd)), sm_ra (sd_sys sd)) \<noteq> Inr None"
    by (rule CheckActiveEXCs_ends) (simp add: upd_it_def AppsUidMapIt_new_def)
  then show False using n
    by (auto simp: Schedule_def Let_def CommitRunningApplications_ends split: option.splits if_splits
        dest!: seq_loop_None elim!: seq_fault_InrE)
qed

section \<open>What a policy may do\<close>

text \<open>A policy acts on the applications through the requests of the application manager, on its iterators
  when it walks the queues, on the working modes of an application when it makes one or binds
  resources, and on the accounter.\<close>

inductive policy_step :: "System \<Rightarrow> System \<Rightarrow> bool" where
  request: "registered am p \<Longrightarrow> ScheduleRequest beyond mx p wp v b (am, ra) = Inr (e, sys') \<Longrightarrow> policy_step (am, ra) sys'"
| as_prev: "registered am p \<Longrightarrow> ScheduleRequestAsPrev p v (am, ra) = Inr (e, sys') \<Longrightarrow> policy_step (am, ra) sys'"
| unschedule: "registered am p \<Longrightarrow> Unschedule p am = Inr (e, am') \<Longrightarrow> policy_step (am, ra) (am', ra)"
| no_schedule: "registered am p \<Longrightarrow> NoSchedule p am = Inr (e, am') \<Longrightarrow> policy_step (am, ra) (am', ra)"
| walk: "app_objs am' = app_objs am \<Longrightarrow> app_alloc am' = app_alloc am \<Longrightarrow> vecs am' = vecs am \<Longrightarrow> policy_step (am, ra) (am', ra)"
| modes: "registered am p \<Longrightarrow> policy_step (am, ra) (upd_app p ((app_of am p)\<lparr>awm_alloc := n, awm_objs := f\<rparr>) am, ra)"
| accounter: "policy_step (am, ra) (am, ra')"

lemma Set_sync_settles: "SetForSynchronization p y am = Inr (e, am') \<Longrightarrow> settles p UIDS i am am'"
  by (auto simp: SetForSynchronization_def split: if_splits elim!: seq_fault_InrE intro: ChangeEXCState_settles)

lemma Unschedule_settles: "Unschedule p am = Inr (e, am') \<Longrightarrow> settles p UIDS i am am'"
  by (auto simp: Unschedule_def split: if_splits intro: Set_sync_settles)

lemma Reschedule_settles: "Reschedule mx p w am = Inr (e, am') \<Longrightarrow> settles p UIDS i am am'"
  by (auto simp: Reschedule_def split: if_splits elim!: seq_fault_InrE intro: Set_sync_settles)

lemma App_SetNextAWM_settles: "App_SetNextAWM w (app_of am p) = Inr a \<Longrightarrow> settles p mr i am (upd_app p a am)"
  by (rule upd_app_settles) (auto simp: App_SetNextAWM_def Uid_def split: option.splits if_splits elim!: seq_fault_InrE)

lemma ScheduleRequest_settles:
  assumes "ScheduleRequest beyond mx p wp v b (am, ra) = Inr (e, am', ra')"
  shows "settles p UIDS i am am'"
proof (cases wp)
  case (Some w)
  let ?a = "app_of am p"
  consider "am' = am" | e where "ChangeEXCState p (preSyncState ?a) SYNC_NONE am = Inr (e, am')" | e where "Unschedule p am = Inr (e, am')"
    | wm am1 e where "Reschedule mx p w (upd_awm p w wm am) = Inr (e, am1)"
        "(\<exists>wm. am' = upd_awm p w wm am1) \<or> (\<exists>a. App_SetNextAWM (Some w) (app_of am1 p) = Inr a \<and> am' = upd_app p a am1)"
    using assms unfolding ScheduleRequest_def Let_def Some
    by (auto split: if_splits elim!: seq_fault_InrE) blast+
  then show ?thesis
  proof cases
    case (2 e)
    then show ?thesis by (rule ChangeEXCState_settles) simp_all
  next
    case (4 wm am1 e)
    have "settles p UIDS i am am1" by (rule settles_trans [OF upd_awm_settles Reschedule_settles [OF 4(1)]])
    moreover have "settles p UIDS i am1 am'" using 4(2) by (auto intro: upd_awm_settles App_SetNextAWM_settles)
    ultimately show ?thesis by (rule settles_trans)
  qed (auto intro: Unschedule_settles)
qed (use assms in \<open>simp add: ScheduleRequest_def\<close>)

lemma ScheduleRequestAsPrev_settles:
  "ScheduleRequestAsPrev p v (am, ra) = Inr (e, am', ra') \<Longrightarrow> settles p mr i am am'"
  by (auto simp: ScheduleRequestAsPrev_def Let_def split: if_splits option.splits elim!: seq_fault_InrE intro: App_SetNextAWM_settles)

lemma policy_step_ok:
  assumes "policy_step (am, ra) (am', ra')" "queues_ok am"
  shows "queues_ok am' \<and> (\<forall>q. registered am q \<longrightarrow> registered am' q)"
  using assms(1)
proof cases
  case (request p beyond mx wp v b e)
  then show ?thesis
    using keeps_queuesD [OF ScheduleRequest_keeps [OF request(2)] assms(2) request(1)]
      settles_registered [OF ScheduleRequest_settles [OF request(2)]] by simp
next
  case (as_prev p v e)
  then show ?thesis
    using keeps_queuesD [OF ScheduleRequestAsPrev_keeps [OF as_prev(2)] assms(2) as_prev(1)]
      settles_registered [OF ScheduleRequestAsPrev_settles [OF as_prev(2)]] by simp
next
  case (unschedule p e)
  then show ?thesis
    using keeps_queuesD [OF Unschedule_keeps [OF unschedule(3)] assms(2) unschedule(2)]
      settles_registered [OF Unschedule_settles [OF unschedule(3)]] by simp
next
  case (no_schedule p e)
  have "settles p UIDS 0 am am'" using no_schedule(3) by (auto simp: NoSchedule_def intro: ChangeEXCState_settles)
  then show ?thesis
    using keeps_queuesD [OF ChangeEXCState_keeps [OF no_schedule(3) [unfolded NoSchedule_def]] assms(2) no_schedule(2)]
      settles_registered by blast
next
  case walk
  then show ?thesis using assms(2) iterators_queues by (auto simp: registered_def)
next
  case (modes p f n)
  let ?a = "(app_of am p)\<lparr>awm_alloc := n, awm_objs := f\<rparr>"
  have "queues_ok am'" unfolding modes(1) by (rule queues_ok_upd_app [OF assms(2)]) (simp_all add: Uid_def)
  moreover have "settles p UIDS 0 am am'" unfolding modes(1) by (rule upd_app_settles) (simp add: Uid_def)
  ultimately show ?thesis using settles_registered by blast
next
  case accounter
  then show ?thesis using assms(2) by simp
qed

lemma policy_run_ok:
  "policy_step\<^sup>*\<^sup>* sys sys' \<Longrightarrow> queues_ok (fst sys) \<Longrightarrow> queues_ok (fst sys') \<and> (\<forall>q. registered (fst sys) q \<longrightarrow> registered (fst sys') q)"
proof (induction rule: rtranclp_induct)
  case (step y z)
  then show ?case by (cases y, cases z) (use policy_step_ok in fastforce)
qed simp

section \<open>The outcome of a scheduling run\<close>

lemma status_uid:
  assumes "session_ok sm" "queue (sm_am sm) (STATUS st) u = Some p"
  shows "Uid (sm_app sm p) = u \<and> sch_state (sm_app sm p) = st \<and> registered (sm_am sm) p"
proof -
  have pl: "placed (sm_am sm) u" using assms(1) by (simp add: session_ok_def queues_ok_placed)
  with assms(2) obtain x where x: "queue (sm_am sm) UIDS u = Some x" by (cases "queue (sm_am sm) UIDS u") (auto simp: placed_def)
  have st: "sch_state (sm_app sm x) = st" using pl assms(2) x by (cases "sch_state (sm_app sm x) = st") (auto simp: placed_def)
  then have "x = p" using pl assms(2) x by (auto simp: placed_def)
  then show ?thesis using pl x st by (auto simp: placed_def registered_def)
qed

lemma check_body_ok:
  assumes "check_body levels ready alive p (sm, u) = Inr (sm', u')" "session_ok sm" "queue (sm_am sm) (STATUS st) k = Some p"
  shows "session_ok sm'"
proof -
  obtain b am' ra' where c: "CheckEXC levels ready alive p True (sm_am sm, sm_ra sm) = Inr (b, am', ra')"
    and sm': "sm' = upd_sys (am', ra') sm"
    using assms(1) by (auto elim!: seq_fault_InrE)
  have reg: "registered (sm_am sm) p" using status_uid [OF assms(2,3)] by simp
  have "queues_ok am'" using keeps_queuesD [OF CheckEXC_keeps [OF c]] reg assms(2) by (simp add: session_ok_def)
  moreover have "registered am' q" if "registered (sm_am sm) q" for q
    using settles_registered [OF CheckEXC_settles [OF c, of UIDS] that] by simp
  ultimately show ?thesis using assms(2) by (simp add: session_ok_def sm' upd_sys_def)
qed

lemma CheckActive_of_ok:
  assumes "CheckActive_of st levels ready alive i sys = Inr (Some sys')" "session_ok (upd_sys sys sm)"
  shows "session_ok (upd_sys sys' sm)"
proof -
  obtain po am1 where f: "GetFirst (STATUS st) i (fst sys) = Inr (po, am1)"
    and l: "CheckActive_loop (length (vecs (fst sys) (STATUS st))) levels ready alive i po (am1, snd sys) = Inr (Some sys')"
    using assms(1) by (auto simp: CheckActive_of_def elim!: seq_fault_InrE)
  have v: "visit (length (vecs (fst sys) (STATUS st))) i (check_body levels ready alive) po (upd_sys (am1, snd sys) sm, ()) =
      Inr (Some (upd_sys sys' sm, ()))"
    by (simp add: CheckActive_loop_visit l seq_loop_def)
  note q = GetFirst_queued [OF f]
  have 1: "session_ok (upd_sys (am1, snd sys) sm)"
    using queues_kept.P_iterators [OF assms(2), of am1] GetFirst_only [OF f] by (simp add: upd_sys_def session_ok_def)
  show ?thesis
  proof (rule visit_invariant [where r = "STATUS st" and P = "\<lambda>sm _. session_ok sm", OF v 1])
    show "session_ok s' \<and> it_map (iters (sm_am s') i) = it_map (iters (sm_am s) i)"
      if "session_ok s" "\<exists>u. queue (sm_am s) (STATUS st) u = Some p" "check_body levels ready alive p (s, acc) = Inr (s', acc')"
      for p s acc s' acc'
    proof -
      have "settles p UIDS i (sm_am s) (sm_am s')"
        using that(3) by (auto simp: upd_sys_def elim!: seq_fault_InrE intro!: CheckEXC_settles)
      then show ?thesis using that check_body_ok settles_it_map by blast
    qed
  qed (use q queues_kept.P_iterators in \<open>auto simp: upd_sys_def\<close>)
qed

lemma CheckActiveEXCs_ok:
  assumes "CheckActiveEXCs levels ready alive i sys = Inr (Some sys')" "session_ok (upd_sys sys sm)"
  shows "session_ok (upd_sys sys' sm)"
proof -
  obtain sys1 where 1: "CheckActive_of READY levels ready alive i sys = Inr (Some sys1)"
    and 2: "CheckActive_of RUNNING levels ready alive i sys1 = Inr (Some sys')"
    using assms(1) by (auto simp: CheckActiveEXCs_def split: option.splits elim!: seq_fault_InrE)
  show ?thesis by (rule CheckActive_of_ok [OF 2 CheckActive_of_ok [OF 1 assms(2)]])
qed

text \<open>An application that there is nothing to continue of: it has no next working mode, or one of another
  number than its current one, which \<open>SyncContinue\<close> refuses and leaves as it is.\<close>

definition continued :: "Application \<Rightarrow> bool" where
  "continued a \<longleftrightarrow> next_awm a = None \<or>
     (\<exists>n c. next_awm a = Some n \<and> awm a = Some c \<and> wm_id (awm_objs a c) \<noteq> wm_id (awm_objs a n))"

lemma AM_SyncContinue_continued:
  "AM_SyncContinue p am = Inr (e, am') \<Longrightarrow> sch_state (app_of am p) = RUNNING \<Longrightarrow> continued (app_of am' p)"
  by (auto simp: AM_SyncContinue_def App_SyncContinue_def Let_def continued_def upd_app_def split: option.splits if_splits
      elim!: seq_fault_InrE)

interpretation continue_walk: queue_walk continue_body "STATUS RUNNING" "\<lambda>_ p sm. continued (sm_app sm p)" "\<lambda>_ _. True"
proof
  show "settles p (STATUS RUNNING) i (sm_am (fst s)) (sm_am (fst s'))" if "continue_body p s = Inr s'" for p s s' i
    by (rule continue_body_settles [OF that])
  show "continued (sm_app sm1 p) \<and> session_ok sm1 \<and> True"
    if b: "continue_body p (sm, x) = Inr (sm1, x')" and ok: "session_ok sm" and q: "queue (sm_am sm) (STATUS RUNNING) k = Some p"
    for p sm x sm1 x' k
  proof -
    obtain e am' where c: "AM_SyncContinue p (sm_am sm) = Inr (e, am')" and sm1: "sm1 = sm\<lparr>sm_am := am'\<rparr>"
      using b by (auto simp: continue_body_def elim!: seq_fault_InrE)
    note r = status_uid [OF ok q]
    have "queues_ok am'"
      using AM_SyncContinue_result [OF c] ok queues_ok_upd_app by (auto simp: session_ok_def)
    moreover have "registered am' q" if "registered (sm_am sm) q" for q
      using AM_SyncContinue_result [OF c] that settles_registered [OF upd_app_settles] by auto
    ultimately have "session_ok sm1" using ok by (simp add: session_ok_def sm1)
    then show ?thesis using AM_SyncContinue_continued [OF c] r by (simp add: sm1)
  qed
qed (auto dest: status_uid)

lemma continue_vecs:
  assumes "for_each (STATUS RUNNING) i continue_body (sm, ()) = Inr (Some (sm', ()))"
  shows "vecs (sm_am sm') = vecs (sm_am sm)"
proof (rule for_each_invariant [OF assms, where P = "\<lambda>s _. vecs (sm_am s) = vecs (sm_am sm)"])
  show "vecs (sm_am s') = vecs (sm_am sm) \<and> it_map (iters (sm_am s') i) = it_map (iters (sm_am s) i)"
    if "vecs (sm_am s) = vecs (sm_am sm)" "continue_body p (s, acc) = Inr (s', acc')" for p s acc s' acc'
    using that by (auto simp: continue_body_def upd_app_def elim!: seq_fault_InrE dest!: AM_SyncContinue_result)
qed simp_all

lemma Schedule_run:
  assumes "session_ok (sd_sys sd)" "\<And>sys r v sys'. queues_ok (fst sys) \<Longrightarrow> pol sys = Inr (r, v, sys') \<Longrightarrow> policy_step\<^sup>*\<^sup>* sys sys'"
    "Schedule env (Some pol) i sd = Inr (Some (c, sd'))"
  obtains (failed) sys2 where "c = SD_FAILED" "session_ok (upd_sys sys2 (sd_sys sd))"
      "sd' = sd\<lparr>sd_sys := upd_sys sys2 (sd_sys sd), sched_count := sched_count sd + 1, sd_state := SD_READY\<rparr>"
    | (finished) sys2 sm3 view where "c = SD_DONE" "session_ok (upd_sys sys2 (sd_sys sd))"
      "for_each (STATUS RUNNING) i continue_body (upd_sys sys2 (sd_sys sd), ()) = Inr (Some (sm3, ()))"
      "sd' = sd\<lparr>sd_sys := sm3\<lparr>sm_ra := SetScheduledView view (sm_ra sm3)\<rparr>, sched_count := sched_count sd + 1, sd_state := SD_READY\<rparr>"
proof -
  let ?sm = "sd_sys sd" and ?am = "upd_it i AppsUidMapIt_new (sm_am (sd_sys sd))"
  obtain sys1 result view sys2 where
    1: "CheckActiveEXCs (env_levels env) (sd_WaitForReady sd = Inr ()) (env_alive env) i (?am, sm_ra ?sm) = Inr (Some sys1)"
    and 2: "pol sys1 = Inr (result, view, sys2)"
    and 3: "(if result \<noteq> SCHED_DONE then c = SD_FAILED \<and> sd' = sd\<lparr>sd_sys := upd_sys sys2 ?sm, sched_count := sched_count sd + 1, sd_state := SD_READY\<rparr>
       else \<exists>sm3. CommitRunningApplications i (upd_sys sys2 ?sm) = Inr (Some sm3) \<and> c = SD_DONE \<and>
         sd' = sd\<lparr>sd_sys := sm3\<lparr>sm_ra := SetScheduledView view (sm_ra sm3)\<rparr>, sched_count := sched_count sd + 1, sd_state := SD_READY\<rparr>)"
    using assms(3) by (auto simp: Schedule_def Let_def sd_SetState_def split: if_splits elim!: seq_loop_Some seq_fault_InrE)
  have "session_ok (upd_sys (?am, sm_ra ?sm) ?sm)"
    using queues_kept.P_iterators [OF assms(1), of ?am] by (simp add: upd_sys_def upd_it_def)
  from CheckActiveEXCs_ok [OF 1 this] have ok1: "session_ok (upd_sys sys1 ?sm)" .
  then have "queues_ok (fst sys1)" by (simp add: session_ok_def upd_sys_def)
  with ok1 policy_run_ok [OF assms(2) [OF _ 2]]
  have ok2: "session_ok (upd_sys sys2 ?sm)" by (auto simp: session_ok_def upd_sys_def)
  show thesis
  proof (cases "result = SCHED_DONE")
    case True
    with 3 obtain sm3 where "for_each (STATUS RUNNING) i continue_body (upd_sys sys2 ?sm, ()) = Inr (Some (sm3, ()))" "c = SD_DONE"
      "sd' = sd\<lparr>sd_sys := sm3\<lparr>sm_ra := SetScheduledView view (sm_ra sm3)\<rparr>, sched_count := sched_count sd + 1, sd_state := SD_READY\<rparr>"
      by (auto simp: CommitRunningApplications_def elim!: seq_loop_Some)
    then show thesis using finished ok2 by blast
  next
    case False
    then show thesis using failed ok2 3 by auto
  qed
qed

text \<open>A run keeps the queues consistent and leaves the scheduler ready.\<close>

lemma Schedule_ok:
  assumes "session_ok (sd_sys sd)" "\<And>sys r v sys'. queues_ok (fst sys) \<Longrightarrow> pol sys = Inr (r, v, sys') \<Longrightarrow> policy_step\<^sup>*\<^sup>* sys sys'"
    "Schedule env (Some pol) i sd = Inr (Some (c, sd'))"
  shows "session_ok (sd_sys sd') \<and> sd_state sd' = SD_READY \<and> c \<in> {SD_DONE, SD_FAILED}"
proof (rule Schedule_run [OF assms], assumption, assumption, goal_cases)
  case (2 sys2 sm3 view)
  then show ?case using continue_walk.for_each_walks [OF 2(2,3)] by (simp add: walked_def session_ok_def)
qed auto

lemma Schedule_running:
  assumes "session_ok (sd_sys sd)" "\<And>sys r v sys'. queues_ok (fst sys) \<Longrightarrow> pol sys = Inr (r, v, sys') \<Longrightarrow> policy_step\<^sup>*\<^sup>* sys sys'"
    "Schedule env (Some pol) i sd = Inr (Some (SD_DONE, sd'))" "queue (sm_am (sd_sys sd')) (STATUS RUNNING) u = Some p"
  shows "sch_state (sm_app (sd_sys sd') p) = RUNNING \<and> continued (sm_app (sd_sys sd') p)"
proof (rule Schedule_run [OF assms(1-3)], assumption, assumption, goal_cases)
  case (2 sys2 sm3 view)
  have "session_ok sm3" "continued (sm_app sm3 p)"
    using continue_walk.for_each_walks [OF 2(2,3)] continue_vecs [OF 2(3)] assms(4) 2(4)
    by (auto simp: walked_def)
  then show ?case using status_uid [of sm3 RUNNING u p] assms(4) 2(4) by simp
qed simp

text \<open>C10: a scheduling run with a policy that only uses the requests it is given, when it gets done, is
  counted, leaves the scheduler ready and the queues consistent, and has continued the running
  applications: none of them is left with the working mode it runs in as its next one. A next working
  mode that is left has another number than the current one, and \<open>SyncContinue\<close> has refused it.\<close>

theorem scheduling_settles_running:
  assumes "session_ok (sd_sys sd)" "\<And>sys r v sys'. queues_ok (fst sys) \<Longrightarrow> pol sys = Inr (r, v, sys') \<Longrightarrow> policy_step\<^sup>*\<^sup>* sys sys'"
    "Schedule env (Some pol) i sd = Inr (Some (SD_DONE, sd'))"
  shows "sched_count sd' = sched_count sd + 1 \<and> sd_WaitForReady sd' = Inr () \<and> session_ok (sd_sys sd') \<and>
    (\<forall>u p. queue (sm_am (sd_sys sd')) (STATUS RUNNING) u = Some p \<longrightarrow>
       sch_state (sm_app (sd_sys sd') p) = RUNNING \<and> continued (sm_app (sd_sys sd') p))"
proof -
  have "sched_count sd' = sched_count sd + 1" by (rule Schedule_run [OF assms]) auto
  then show ?thesis using Schedule_ok [OF assms] Schedule_running [OF assms] by (simp add: sd_WaitForReady_def)
qed

definition demo_policy :: SchedulerPolicy where
  "demo_policy sys =
     (if queue (fst sys) UIDS (Uid (app_of (fst sys) 0)) = Some 0
      then seq_fault (ScheduleRequestAsPrev 0 5 sys) (\<lambda>(_, sys'). Inr (SCHED_DONE, 5, sys'))
      else Inr (SCHED_DONE, 5, sys))"

lemma demo_policy_steps: "demo_policy sys = Inr (r, v, sys') \<Longrightarrow> policy_step\<^sup>*\<^sup>* sys sys'"
  by (cases sys) (auto simp: demo_policy_def registered_def split: if_splits elim!: seq_fault_InrE intro!: r_into_rtranclp as_prev)

definition demo_running :: Application where
  "demo_running = (demo_app RUNNING)\<lparr>awm := Some 0, awm_objs := (\<lambda>_. wm_twelve\<lparr>sync_bindings := Some (twelve SEQUENTIAL)\<rparr>)\<rparr>"

definition demo_scheduler :: SchedulerManager where
  "demo_scheduler = \<lparr>sd_sys = demo_idle\<lparr>sm_am := upd_app 0 demo_running (demo_manager RUNNING)\<rparr>, sched_count = 0, sd_state = SD_READY\<rparr>"

lemma demo_scheduler_ok: "session_ok (sd_sys demo_scheduler)"
proof -
  have "queues_ok (upd_app 0 demo_running (demo_manager RUNNING))"
    by (rule queues_ok_upd_app) (simp_all add: demo_manager_ok demo_running_def Uid_def)
  then show ?thesis by (simp add: session_ok_def demo_idle_def demo_scheduler_def)
qed

theorem scheduling_settles_running_witness:
  "\<exists>sd'. Schedule demo_env (Some demo_policy) 1 demo_scheduler = Inr (Some (SD_DONE, sd')) \<and>
     queue (sm_am (sd_sys sd')) (STATUS RUNNING) 3200 = Some 0 \<and> continued (sm_app (sd_sys sd') 0)"
proof -
  have "case Schedule demo_env (Some demo_policy) 1 demo_scheduler of
      Inr (Some (c, sd)) \<Rightarrow> c = SD_DONE \<and> queue (sm_am (sd_sys sd)) (STATUS RUNNING) 3200 = Some 0 | _ \<Rightarrow> False" by code_simp
  then obtain sd' where s: "Schedule demo_env (Some demo_policy) 1 demo_scheduler = Inr (Some (SD_DONE, sd'))"
    and q: "queue (sm_am (sd_sys sd')) (STATUS RUNNING) 3200 = Some 0"
    by (auto split: sum.splits option.splits)
  have "continued (sm_app (sd_sys sd') 0)"
    using scheduling_settles_running [OF demo_scheduler_ok _ s] demo_policy_steps q by blast
  with s q show ?thesis by blast
qed

end
