(* ===== verification/Deferred_Task.thy ===== *)
theory Deferred_Task
  imports Bbque_Prelude
begin

text \<open>
  Deferrable tasks (\<^verbatim>\<open>bbque/utils/deferrable.cc\<close>, \<^verbatim>\<open>bbque/utils/worker.cc\<close>): a thread that executes a task when
  the nearest of the requested times has come, and at least once in a period if it has one.

  Times are milliseconds. The thread holds its lock except while it waits, so that its loop is a
  sequence of atomic pieces from one wait to the next; the time at which a wait ends is an
  argument. The number of executions is kept for the properties. Signals and the registration of
  workers are left out.
\<close>

section \<open>State\<close>

abbreviation (input) SCHEDULE_NONE :: nat where "SCHEDULE_NONE \<equiv> 0"
abbreviation (input) SCHEDULE_NOW :: nat where "SCHEDULE_NOW \<equiv> 0"

text \<open>Where the thread of a deferrable is: not started, waiting for a notification, waiting for one until a
  point in time, or ended.\<close>

datatype Waiting = NotStarted | Forever | Until nat | Ended

record Deferrable =
  max_time :: nat
  next_time :: nat
  next_timeout :: nat
  df_done :: bool
  df_waiting :: Waiting
  df_executions :: nat

definition Deferrable_new :: "nat \<Rightarrow> nat \<Rightarrow> nat \<Rightarrow> Deferrable" where
  "Deferrable_new garbage period now =
     \<lparr>max_time = period, next_time = now, next_timeout = garbage, df_done = False, df_waiting = NotStarted, df_executions = 0\<rparr>"

section \<open>Requests\<close>

text \<open>Each answers whether the thread is notified.\<close>

definition df_Schedule :: "nat \<Rightarrow> nat \<Rightarrow> Deferrable \<Rightarrow> bool \<times> Deferrable" where
  "df_Schedule now time df =
     (let schedule_time = now + time in
      if time = SCHEDULE_NOW then (True, df\<lparr>next_timeout := SCHEDULE_NOW\<rparr>)
      else if next_time df > now \<and> schedule_time \<ge> next_time df then (False, df)
      else (True, df\<lparr>next_time := schedule_time, next_timeout := time\<rparr>))"

definition SetPeriodic :: "nat \<Rightarrow> Deferrable \<Rightarrow> bool \<times> Deferrable" where
  "SetPeriodic period df = (if period = SCHEDULE_NONE then (False, df) else (True, df\<lparr>max_time := period\<rparr>))"

definition SetOnDemand :: "Deferrable \<Rightarrow> bool \<times> Deferrable" where
  "SetOnDemand df = (True, df\<lparr>max_time := SCHEDULE_NONE\<rparr>)"

definition df_Terminate :: "Deferrable \<Rightarrow> bool \<times> Deferrable" where
  "df_Terminate df = (if df_done df then (False, df) else (True, df\<lparr>df_done := True\<rparr>))"

section \<open>The thread\<close>

definition RESET_TIMEOUT :: "nat \<Rightarrow> Deferrable \<Rightarrow> Deferrable" where
  "RESET_TIMEOUT now df =
     (let timeout = (if max_time df \<noteq> SCHEDULE_NONE then max_time df else SCHEDULE_NONE)
      in df\<lparr>next_timeout := timeout, next_time := now + timeout\<rparr>)"

text \<open>The head of the loop, up to the wait.\<close>

definition Task_wait :: "nat \<Rightarrow> Deferrable \<Rightarrow> Deferrable" where
  "Task_wait now df =
     df\<lparr>df_waiting := (if df_done df then Ended
                      else if next_timeout df = SCHEDULE_NONE then Forever else Until (now + next_timeout df))\<rparr>"

definition Task_start :: "nat \<Rightarrow> Deferrable \<Rightarrow> Deferrable" where
  "Task_start now df = Task_wait now (RESET_TIMEOUT now df)"

text \<open>The rest of the loop, from a wake-up at a point in time; \<open>timeout\<close> tells whether the wait has expired,
  and \<open>dur\<close> is the time that the task takes.\<close>

definition Task_wake :: "nat \<Rightarrow> nat \<Rightarrow> bool \<Rightarrow> Deferrable \<Rightarrow> Deferrable" where
  "Task_wake dur now timeout df =
     (let df1 = (case df_waiting df of Until _ \<Rightarrow> if timeout then df\<lparr>next_timeout := SCHEDULE_NOW\<rparr> else df | _ \<Rightarrow> df) in
      if df_done df1 then Task_wait now df1
      else if next_timeout df1 \<noteq> SCHEDULE_NOW then Task_wait now df1
      else Task_wait (now + dur) (RESET_TIMEOUT (now + dur) (df1\<lparr>df_executions := df_executions df1 + 1\<rparr>)))"

text \<open>A request together with the reaction of the thread that it notifies.\<close>

definition df_react :: "nat \<Rightarrow> nat \<Rightarrow> bool \<times> Deferrable \<Rightarrow> Deferrable" where
  "df_react dur now r = 
     (if fst r \<and> df_waiting (snd r) \<notin> {NotStarted, Ended} then Task_wake dur now False (snd r) else snd r)"

fun df_requests :: "nat \<Rightarrow> (nat \<times> nat) list \<Rightarrow> Deferrable \<Rightarrow> Deferrable" where
  "df_requests dur [] df = df"
| "df_requests dur ((now, time) # rs) df = df_requests dur rs (df_react dur now (df_Schedule now time df))"

section \<open>The nearest request\<close>

text \<open>Waiting for a notification, with nothing requested; and waiting for a request.\<close>

definition df_idle :: "Deferrable \<Rightarrow> bool" where
  "df_idle df \<longleftrightarrow> \<not> df_done df \<and> df_waiting df = Forever \<and> next_timeout df = SCHEDULE_NONE"

definition df_pending :: "nat \<Rightarrow> Deferrable \<Rightarrow> bool" where
  "df_pending d df \<longleftrightarrow> \<not> df_done df \<and> df_waiting df = Until d \<and> next_time df = d \<and> next_timeout df \<noteq> SCHEDULE_NOW"

named_theorems df_simps

lemmas df_ops [df_simps] = df_Schedule_def SetPeriodic_def SetOnDemand_def Task_wait_def Task_wake_def RESET_TIMEOUT_def df_react_def
  df_idle_def df_pending_def Let_def

lemma request_from_idle:
  assumes "df_idle df" "next_time df \<le> now" "0 < time"
  shows "df_pending (now + time) (df_react dur now (df_Schedule now time df))"
    "df_executions (df_react dur now (df_Schedule now time df)) = df_executions df"
  using assms by (simp_all add: df_simps)

lemma request_while_pending:
  assumes "df_pending d df" "now < d" "0 < time"
  shows "df_pending (min d (now + time)) (df_react dur now (df_Schedule now time df))"
    "df_executions (df_react dur now (df_Schedule now time df)) = df_executions df"
  using assms by (auto simp: df_simps)

lemma requests_while_pending:
  assumes "df_pending d df" "\<forall>(now, time)\<in>set rs. 0 < time \<and> now < Min (insert d ((\<lambda>(now, time). now + time) ` set rs))"
  shows "df_pending (Min (insert d ((\<lambda>(now, time). now + time) ` set rs))) (df_requests dur rs df) \<and>
    df_executions (df_requests dur rs df) = df_executions df"
  using assms
proof (induction rs arbitrary: d df)
  case (Cons e rs)
  obtain now time where e: "e = (now, time)" by (cases e)
  let ?df = "df_react dur now (df_Schedule now time df)" and ?D = "(\<lambda>(now, time). now + time) ` set rs"
  have m: "Min (insert d (insert (now + time) ?D)) = Min (insert (min d (now + time)) ?D)"
    by (cases "?D = {}") (simp_all add: Min_insert min.assoc)
  have "now < Min (insert d (insert (now + time) ?D))" using Cons.prems(2) by (simp add: e)
  also have "\<dots> \<le> d" by (rule Min_le) simp_all
  finally have r: "df_pending (min d (now + time)) ?df" "df_executions ?df = df_executions df"
    using request_while_pending [OF Cons.prems(1)] Cons.prems(2) by (simp_all add: e)
  from Cons.IH [OF r(1)] Cons.prems(2) r(2) show ?case by (auto simp: e m)
qed simp

text \<open>C19: of the requests that are made while nothing is executed the nearest one is served. From a
  deferrable without a period that waits, any sequence of requests, each made before the nearest
  of the requested times, leaves the thread waiting until exactly the nearest of these times,
  without executing anything; when that wait expires the task is executed once.\<close>

theorem nearest_request_served:
  assumes "df_idle df" "rs \<noteq> []" "D = Min ((\<lambda>(now, time). now + time) ` set rs)"
    "\<forall>(now, time)\<in>set rs. next_time df \<le> now \<and> 0 < time \<and> now < D"
  shows "df_waiting (df_requests dur rs df) = Until D \<and> df_executions (df_requests dur rs df) = df_executions df \<and>
    df_executions (Task_wake dur D True (df_requests dur rs df)) = df_executions df + 1"
proof -
  obtain now time rs' where rs: "rs = (now, time) # rs'" using assms(2) by (cases rs) auto
  let ?df = "df_react dur now (df_Schedule now time df)"
  have p: "df_pending (now + time) ?df" "df_executions ?df = df_executions df"
    using request_from_idle [OF assms(1)] assms(4) by (simp_all add: rs)
  have D: "D = Min (insert (now + time) ((\<lambda>(now, time). now + time) ` set rs'))" using assms(3) by (simp add: rs)
  have "df_pending D (df_requests dur rs' ?df) \<and> df_executions (df_requests dur rs' ?df) = df_executions df"
    unfolding D using requests_while_pending [OF p(1), of rs' dur] assms(4) p(2) by (auto simp: rs D [symmetric])
  then show ?thesis by (auto simp: rs df_simps)
qed

theorem nearest_request_served_witness:
  "df_waiting (df_requests 7 [(10, 100), (20, 50), (30, 90)] (Task_start 5 (Deferrable_new 0 0 0))) = Until 70 \<and>
   df_executions (Task_wake 7 70 True (df_requests 7 [(10, 100), (20, 50), (30, 90)] (Task_start 5 (Deferrable_new 0 0 0)))) = 1"
  using nearest_request_served [of "Task_start 5 (Deferrable_new 0 0 0)" "[(10, 100), (20, 50), (30, 90)]" 70 7]
  by (simp add: df_simps Task_start_def Deferrable_new_def)

text \<open>Changing the mode of a deferrable disturbs what is requested. The constants for no request and
  for a request to be served at once are the same number, so that making an idle deferrable
  repetitive executes its task at once; and while a request is pending the thread starts its
  wait anew, so that the request is served later than it asked for.\<close>

theorem changing_period_disturbs_requests:
  assumes "df_idle df" "next_time df \<le> t0" "0 < time" "0 < period" "t0 < now"
  shows "df_executions (df_react dur now (SetPeriodic period df)) = df_executions df + 1 \<and>
    df_waiting (df_react dur now (SetPeriodic period (df_react dur t0 (df_Schedule t0 time df)))) = Until (now + time) \<and>
    t0 + time < now + time"
  using assms by (simp add: df_simps)

theorem changing_period_disturbs_requests_witness:
  "df_waiting (df_react 7 50 (SetPeriodic 500 (df_react 7 10 (df_Schedule 10 100 (Task_start 5 (Deferrable_new 0 0 0)))))) = Until 150"
  using changing_period_disturbs_requests [of "Task_start 5 (Deferrable_new 0 0 0)" 10 100 500 50 7]
  by (simp add: df_simps Task_start_def Deferrable_new_def)

text \<open>A request made before the thread has reached its loop is overwritten.\<close>

lemma early_request_lost: "df_waiting (Task_start now' (snd (df_Schedule now time (Deferrable_new garbage 0 now0)))) = Forever"
  by (simp add: df_simps Task_start_def Deferrable_new_def)

end
