(* ===== verification/Resource_Manager.thy ===== *)
theory Resource_Manager
  imports Scheduler_Manager Deferred_Task
begin

text \<open>
  The resource manager (\<^verbatim>\<open>bbque/resource_manager.cc\<close>): the events of the daemon, the control loop
  that dispatches them, and the optimisation, which runs the scheduler and then the synchronisation.

  The optimisation is executed by a deferrable task; the handlers of events request it. The delays
  are those of the build configuration; the loading of the platform and of the binding domains, and the
  scheduling policy, are parameters. The process manager and the profiling of schedules are build
  options that are off; metrics and the printing of the state are left out.
\<close>

section \<open>State and environment\<close>

datatype RMExitCode = RM_OK | SETUP_FAILED

datatype controlEvent = EXC_START | EXC_STOP | BBQ_PLAT | BBQ_OPTS | BBQ_USR1 | BBQ_USR2 | BBQ_EXIT | BBQ_ABORT

record ResourceManager =
  rm_sd :: SchedulerManager
  pendingEvts :: "controlEvent \<Rightarrow> bool"
  rm_done :: bool
  plat_event :: bool
  is_ready :: bool
  optimize_dfr :: Deferrable

text \<open>The delays of the build configuration.\<close>

record RMConfig =
  exc_start_defer :: nat
  exc_stop_defer :: nat
  opt_request_defer :: nat
  opt_interval :: nat

abbreviation rm_sm :: "ResourceManager \<Rightarrow> SyncManager" where
  "rm_sm rm \<equiv> sd_sys (rm_sd rm)"

definition upd_sm :: "SyncManager \<Rightarrow> ResourceManager \<Rightarrow> ResourceManager" where
  "upd_sm sm rm = rm\<lparr>rm_sd := (rm_sd rm)\<lparr>sd_sys := sm\<rparr>\<rparr>"

definition SetReady :: "bool \<Rightarrow> ResourceManager \<Rightarrow> ResourceManager" where
  "SetReady b rm = rm\<lparr>is_ready := b\<rparr>"

definition rm_WaitForReady :: "ResourceManager \<Rightarrow> fault + unit" where
  "rm_WaitForReady rm = (if is_ready rm then Inr () else Inl WouldBlock)"

definition NotifyEvent :: "controlEvent \<Rightarrow> ResourceManager \<Rightarrow> ResourceManager" where
  "NotifyEvent evt rm = rm\<lparr>pendingEvts := (pendingEvts rm)(evt := True)\<rparr>"

definition reset_event :: "controlEvent \<Rightarrow> ResourceManager \<Rightarrow> ResourceManager" where
  "reset_event evt rm = rm\<lparr>pendingEvts := (pendingEvts rm)(evt := False)\<rparr>"

definition defer_opt :: "nat \<Rightarrow> nat \<Rightarrow> ResourceManager \<Rightarrow> ResourceManager" where
  "defer_opt now time rm = rm\<lparr>optimize_dfr := snd (df_Schedule now time (optimize_dfr rm))\<rparr>"

definition Setup :: "RMConfig \<Rightarrow> bool \<Rightarrow> bool \<Rightarrow> bool \<Rightarrow> ResourceManager \<Rightarrow> RMExitCode \<times> ResourceManager" where
  "Setup cfg platform_config platform_data binding_domains rm =
     (if \<not> platform_config \<or> \<not> platform_data \<or> \<not> binding_domains then (SETUP_FAILED, rm)
      else (RM_OK, if opt_interval cfg \<noteq> 0 then rm\<lparr>optimize_dfr := snd (SetPeriodic (opt_interval cfg) (optimize_dfr rm))\<rparr> else rm))"

section \<open>The optimisation\<close>

definition synchronise :: "SyncEnv \<Rightarrow> itptr \<Rightarrow> ResourceManager \<Rightarrow> fault + ResourceManager option" where
  "synchronise env i rm =
     (if \<not> HasApplications (STATUS SYNC) (sm_am (rm_sm rm)) then Inr (Some (SetReady True rm))
      else seq_loop (SyncSchedule (env\<lparr>env_ready := (sd_WaitForReady (rm_sd rm) = Inr ())\<rparr>) i (rm_sm rm)) (\<lambda>(_, sm).
        Inr (Some (SetReady True (upd_sm sm rm)))))"

definition Optimize :: "SyncEnv \<Rightarrow> SchedulerPolicy option \<Rightarrow> itptr \<Rightarrow> ResourceManager \<Rightarrow> fault + ResourceManager option" where
  "Optimize env policy i rm =
     (let am = sm_am (rm_sm rm);
          active_apps = (plat_event rm \<or> HasApplications (STATUS READY) am \<or> HasApplications (STATUS RUNNING) am);
          rm1 = (SetReady False rm)\<lparr>plat_event := False\<rparr>
      in if \<not> active_apps then synchronise env i rm1
         else seq_loop (Schedule env policy i (rm_sd rm1)) (\<lambda>(schedResult, sd).
           let rm2 = rm1\<lparr>rm_sd := sd\<rparr> in
           if schedResult \<in> {MISSING_POLICY, SD_FAILED, SD_DELAYED} then Inr (Some (SetReady True rm2))
           else synchronise env i rm2))"

section \<open>Events\<close>

definition EvtExcStart :: "RMConfig \<Rightarrow> nat \<Rightarrow> itptr \<Rightarrow> ResourceManager \<Rightarrow> fault + ResourceManager option" where
  "EvtExcStart cfg now i rm =
     (let sm = rm_sm rm in
      seq_loop (HighestPrio (STATUS READY) i (upd_it i AppsUidMapIt_new (sm_am sm))) (\<lambda>(papp, am).
        let rm1 = upd_sm (sm\<lparr>sm_am := Release_it i am\<rparr>) rm in
        Inr (Some (if papp = None then rm1 else defer_opt now (exc_start_defer cfg) rm1))))"

definition EvtExcStop :: "RMConfig \<Rightarrow> nat \<Rightarrow> ResourceManager \<Rightarrow> ResourceManager" where
  "EvtExcStop cfg now rm = defer_opt now (exc_stop_defer cfg) rm"

definition EvtBbqPlat :: "nat \<Rightarrow> ResourceManager \<Rightarrow> ResourceManager" where
  "EvtBbqPlat now rm = defer_opt now SCHEDULE_NOW (rm\<lparr>plat_event := True\<rparr>)"

definition EvtBbqOpts :: "RMConfig \<Rightarrow> nat \<Rightarrow> ResourceManager \<Rightarrow> ResourceManager" where
  "EvtBbqOpts cfg now rm = defer_opt now (opt_request_defer cfg) rm"

definition EvtBbqUsr1 :: "ResourceManager \<Rightarrow> ResourceManager" where
  "EvtBbqUsr1 rm = reset_event BBQ_USR1 rm"

definition EvtBbqUsr2 :: "ResourceManager \<Rightarrow> ResourceManager" where
  "EvtBbqUsr2 rm = reset_event BBQ_USR2 rm"

definition exit_body :: "u16 \<Rightarrow> bool \<Rightarrow> appptr \<Rightarrow> SyncManager \<times> unit \<Rightarrow> fault + SyncManager \<times> unit" where
  "exit_body levels ready p s =
     (case s of (sm, u) \<Rightarrow>
        seq_fault (DisableEXC ready p True (sm_am sm, sm_ra sm)) (\<lambda>(_, am1, ra1).
          seq_fault (DestroyEXC levels p am1) (\<lambda>(_, am2). Inr (sm\<lparr>sm_am := am2, sm_ra := ra1\<rparr>, u))))"

definition EvtBbqExit :: "u16 \<Rightarrow> itptr \<Rightarrow> ResourceManager \<Rightarrow> fault + ResourceManager option" where
  "EvtBbqExit levels i rm =
     (let rm1 = EvtBbqUsr2 (EvtBbqUsr1 (rm\<lparr>rm_done := True\<rparr>)) in
      seq_loop (for_each UIDS i (exit_body levels (sd_WaitForReady (rm_sd rm1) = Inr ())) (rm_sm rm1, ())) (\<lambda>(sm, _).
        Inr (Some (upd_sm sm rm1))))"

text \<open>How a round of the control loop ends: it returns, or the daemon exits.\<close>

datatype LoopExit = Returned | Exited

fun dispatch :: "RMConfig \<Rightarrow> u16 \<Rightarrow> nat \<Rightarrow> itptr \<Rightarrow> controlEvent list \<Rightarrow> ResourceManager \<Rightarrow> fault + (LoopExit \<times> ResourceManager) option" where
  "dispatch cfg levels now i [] rm = Inr (Some (Returned, rm))"
| "dispatch cfg levels now i (evt # evts) rm =
     (if \<not> pendingEvts rm evt then dispatch cfg levels now i evts rm
      else let rm1 = reset_event evt rm in
        case evt of
          EXC_START \<Rightarrow> seq_loop (EvtExcStart cfg now i rm1) (dispatch cfg levels now i evts)
        | EXC_STOP \<Rightarrow> dispatch cfg levels now i evts (EvtExcStop cfg now rm1)
        | BBQ_PLAT \<Rightarrow> dispatch cfg levels now i evts (EvtBbqPlat now rm1)
        | BBQ_OPTS \<Rightarrow> dispatch cfg levels now i evts (EvtBbqOpts cfg now rm1)
        | BBQ_USR1 \<Rightarrow> Inr (Some (Returned, EvtBbqUsr1 rm1))
        | BBQ_USR2 \<Rightarrow> Inr (Some (Returned, EvtBbqUsr2 rm1))
        | BBQ_EXIT \<Rightarrow> seq_loop (EvtBbqExit levels i rm1) (\<lambda>rm2. Inr (Some (Returned, rm2)))
        | BBQ_ABORT \<Rightarrow> Inr (Some (Exited, rm1)))"

definition all_events :: "controlEvent list" where
  "all_events = [BBQ_ABORT, BBQ_EXIT, BBQ_USR2, BBQ_USR1, BBQ_OPTS, BBQ_PLAT, EXC_STOP, EXC_START]"

definition ControlLoop :: "RMConfig \<Rightarrow> u16 \<Rightarrow> nat \<Rightarrow> itptr \<Rightarrow> ResourceManager \<Rightarrow> fault + (LoopExit \<times> ResourceManager) option" where
  "ControlLoop cfg levels now i rm =
     (if \<not> list_ex (pendingEvts rm) all_events then Inl WouldBlock
      else if rm_done rm then Inr (Some (Returned, rm))
      else dispatch cfg levels now i all_events rm)"

text \<open>The commands of the module; the letter after the name of the module selects the command.\<close>

definition rm_CommandsCb :: "string \<Rightarrow> ResourceManager \<Rightarrow> int \<times> ResourceManager" where
  "rm_CommandsCb cmd rm =
     (let c = (if 6 < length cmd then cmd ! 6 else CHR 0x00);
          result = (\<lambda>ok. if ok then 0 else - 1)
      in if c = CHR ''e'' then (result (cmd = ''bq.rm.exc_status''), rm)
         else if c = CHR ''q'' then (result (cmd = ''bq.rm.que_status''), rm)
         else if c = CHR ''r'' then (result (cmd = ''bq.rm.res_status''), rm)
         else if c = CHR ''s'' then (result (cmd = ''bq.rm.syn_status''), rm)
         else if c = CHR ''o'' then (0, NotifyEvent BBQ_OPTS rm)
         else (0, rm))"

section \<open>The handlers end\<close>

lemma HighestPrio_loop_visit:
  "HighestPrio_loop fuel i hp (sm_am sm) = Inr None \<Longrightarrow> visit fuel i (\<lambda>p s. Inr s) (Some p) (sm, ()) = Inr None"
proof (induction fuel arbitrary: hp sm p)
  case (Suc fuel)
  from Suc.prems obtain po am1 where n: "GetNext i (sm_am sm) = Inr (po, am1)"
    and l: "(case po of None \<Rightarrow> Inr (Some (hp, am1))
       | Some p \<Rightarrow> HighestPrio_loop fuel i (if sch_priority (sm_app sm p) > sch_priority (sm_app sm hp) then p else hp) am1) = Inr None"
    by (auto elim!: seq_fault_InrE)
  then obtain q where q: "po = Some q" by (cases po) auto
  show ?case using n l Suc.IH [where sm = "sm\<lparr>sm_am := am1\<rparr>" and p = q] by (simp add: q)
qed simp

lemma HighestPrio_ends: "HighestPrio r i (upd_it i AppsUidMapIt_new am) \<noteq> Inr None"
proof
  let ?am = "upd_it i AppsUidMapIt_new am" and ?sm = "demo_idle\<lparr>sm_am := am\<rparr>"
  assume "HighestPrio r i ?am = Inr None"
  then obtain p am1 where f: "GetFirst r i ?am = Inr (Some p, am1)"
    and l: "HighestPrio_loop (length (vecs am r)) i p am1 = Inr None"
    by (auto simp: HighestPrio_def upd_it_def split: if_splits option.splits elim!: seq_fault_InrE)
  have "visit (length (vecs am r)) i (\<lambda>p s. Inr s) (Some p) (?sm\<lparr>sm_am := am1\<rparr>, ()) = Inr None"
    by (rule HighestPrio_loop_visit [where hp = p]) (simp add: l)
  then have "for_each r i (\<lambda>p s. Inr s) (?sm, ()) = Inr None" using f by (simp add: for_each_def seq_loop_def)
  moreover have "for_each r i (\<lambda>p s. Inr s) (?sm, ()) \<noteq> Inr None" by (rule for_each_ends) simp
  ultimately show False by simp
qed

lemma exit_body_settles: "exit_body levels ready p s = Inr s' \<Longrightarrow> settles p UIDS i (sm_am (fst s)) (sm_am (fst s'))"
  by (cases s) (auto simp: exit_body_def elim!: seq_fault_InrE intro!: settles_trans [OF DisableEXC_settles DestroyEXC_settles])

lemma EvtBbqExit_ends: "EvtBbqExit levels i rm \<noteq> Inr None"
  using for_each_ends [where body = "exit_body levels ready" for ready, OF exit_body_settles]
  by (auto simp: EvtBbqExit_def Let_def dest!: seq_loop_None)

lemma EvtExcStart_ends: "EvtExcStart cfg now i rm \<noteq> Inr None"
  using HighestPrio_ends by (auto simp: EvtExcStart_def Let_def dest!: seq_loop_None)

lemma dispatch_ends: "dispatch cfg levels now i evts rm \<noteq> Inr None"
proof (induction evts arbitrary: rm)
  case (Cons evt evts)
  then show ?case
    by (cases evt) (auto simp: Let_def EvtExcStart_ends EvtBbqExit_ends dest!: seq_loop_None)
qed simp

lemma synchronise_ends: "synchronise env i rm \<noteq> Inr None"
  by (auto simp: synchronise_def SyncSchedule_ends dest!: seq_loop_None)

section \<open>The optimisation keeps the system consistent\<close>

lemma synchronise_ok:
  assumes "synchronise env i rm = Inr (Some rm')" "session_ok (rm_sm rm)"
  shows "session_ok (rm_sm rm') \<and> is_ready rm' \<and> plat_event rm' = plat_event rm \<and> sd_state (rm_sd rm') = sd_state (rm_sd rm)"
proof (cases "HasApplications (STATUS SYNC) (sm_am (rm_sm rm))")
  case True
  with assms(1) obtain c sm where s: "SyncSchedule (env\<lparr>env_ready := (sd_WaitForReady (rm_sd rm) = Inr ())\<rparr>) i (rm_sm rm) = Inr (Some (c, sm))"
    and rm': "rm' = SetReady True (upd_sm sm rm)"
    by (auto simp: synchronise_def elim!: seq_loop_Some)
  show ?thesis using SyncSchedule_ok [OF assms(2) s] by (simp add: rm' SetReady_def upd_sm_def)
qed (use assms in \<open>auto simp: synchronise_def SetReady_def\<close>)

lemma Optimize_cases:
  assumes "Optimize env policy i rm = Inr (Some rm')"
  obtains (direct) "synchronise env i ((SetReady False rm)\<lparr>plat_event := False\<rparr>) = Inr (Some rm')"
    | (scheduled) c sd where "Schedule env policy i (rm_sd ((SetReady False rm)\<lparr>plat_event := False\<rparr>)) = Inr (Some (c, sd))"
        "(if c \<in> {MISSING_POLICY, SD_FAILED, SD_DELAYED}
          then Inr (Some (SetReady True ((SetReady False rm)\<lparr>plat_event := False, rm_sd := sd\<rparr>)))
          else synchronise env i ((SetReady False rm)\<lparr>plat_event := False, rm_sd := sd\<rparr>)) = Inr (Some rm')"
proof (cases "plat_event rm \<or> HasApplications (STATUS READY) (sm_am (rm_sm rm)) \<or> HasApplications (STATUS RUNNING) (sm_am (rm_sm rm))")
  case False
  show ?thesis by (rule direct) (use assms False in \<open>simp only: Optimize_def Let_def if_True not_False_eq_True\<close>)
next
  case True
  with assms have "seq_loop (Schedule env policy i (rm_sd ((SetReady False rm)\<lparr>plat_event := False\<rparr>))) (\<lambda>(c, sd).
      if c \<in> {MISSING_POLICY, SD_FAILED, SD_DELAYED}
      then Inr (Some (SetReady True ((SetReady False rm)\<lparr>plat_event := False, rm_sd := sd\<rparr>)))
      else synchronise env i ((SetReady False rm)\<lparr>plat_event := False, rm_sd := sd\<rparr>)) = Inr (Some rm')"
    by (simp only: Optimize_def Let_def not_True_eq_False if_False)
  then show ?thesis
    by (rule seq_loop_Some) (auto simp only: split_paired_all prod.case intro: scheduled)
qed

lemma Optimize_ok:
  assumes "session_ok (rm_sm rm)" "Optimize env policy i rm = Inr (Some rm')"
    "\<And>pol sys r v sys'. policy = Some pol \<Longrightarrow> queues_ok (fst sys) \<Longrightarrow> pol sys = Inr (r, v, sys') \<Longrightarrow> policy_step\<^sup>*\<^sup>* sys sys'"
  shows "session_ok (rm_sm rm') \<and> \<not> plat_event rm' \<and> rm_WaitForReady rm' = Inr ()"
proof -
  let ?rm1 = "(SetReady False rm)\<lparr>plat_event := False\<rparr>" and ?stops = "{MISSING_POLICY, SD_FAILED, SD_DELAYED}"
  have rest: ?thesis if "synchronise env i rm2 = Inr (Some rm')" "session_ok (rm_sm rm2)" "\<not> plat_event rm2" for rm2
    using synchronise_ok [OF that(1,2)] that(3) by (simp add: rm_WaitForReady_def)
  consider (direct) "synchronise env i ?rm1 = Inr (Some rm')"
    | (scheduled) c sd where "Schedule env policy i (rm_sd ?rm1) = Inr (Some (c, sd))"
        "(if c \<in> ?stops then Inr (Some (SetReady True (?rm1\<lparr>rm_sd := sd\<rparr>)))
          else synchronise env i (?rm1\<lparr>rm_sd := sd\<rparr>)) = Inr (Some rm')"
    by (rule Optimize_cases [OF assms(2)])
  then show ?thesis
  proof cases
    case direct
    show ?thesis by (rule rest [OF direct]) (use assms(1) in \<open>simp_all add: SetReady_def\<close>)
  next
    case (scheduled c sd)
    have ok: "session_ok (sd_sys sd)"
    proof (cases policy)
      case None
      then show ?thesis using scheduled(1) assms(1) by (simp add: Schedule_def SetReady_def)
    next
      case (Some pol)
      show ?thesis
        using Schedule_ok [OF _ _ scheduled(1) [unfolded Some]] assms(1,3) Some by (simp add: SetReady_def)
    qed
    show ?thesis
    proof (cases "c \<in> ?stops")
      case True
      then have "rm' = SetReady True (?rm1\<lparr>rm_sd := sd\<rparr>)" using scheduled(2) by (simp only: if_True sum.inject option.inject)
      then show ?thesis using ok by (simp add: SetReady_def rm_WaitForReady_def)
    next
      case False
      with scheduled(2) have "synchronise env i (?rm1\<lparr>rm_sd := sd\<rparr>) = Inr (Some rm')" by (simp only: if_False)
      then show ?thesis by (rule rest) (use ok in simp_all)
    qed
  qed
qed

text \<open>The contract of a scheduling policy: from consistent queues it acts by the steps that policies have.
  A policy that keeps it can be plugged into the scheduler and the resource manager.\<close>

locale scheduling_policy =
  fixes pol :: SchedulerPolicy
  assumes steps: "queues_ok (fst sys) \<Longrightarrow> pol sys = Inr (r, v, sys') \<Longrightarrow> policy_step\<^sup>*\<^sup>* sys sys'"
begin

lemma schedule_ok:
  assumes "session_ok (sd_sys sd)" "Schedule env (Some pol) i sd = Inr (Some (c, sd'))"
  shows "session_ok (sd_sys sd') \<and> sd_state sd' = SD_READY \<and> c \<in> {SD_DONE, SD_FAILED}"
  by (rule Schedule_ok [OF assms(1) _ assms(2)]) (rule steps)

lemma optimise_ok:
  assumes "session_ok (rm_sm rm)" "Optimize env (Some pol) i rm = Inr (Some rm')"
  shows "session_ok (rm_sm rm') \<and> \<not> plat_event rm' \<and> rm_WaitForReady rm' = Inr ()"
  by (rule Optimize_ok [OF assms]) (use steps in auto)

end

interpretation demo_pol: scheduling_policy demo_policy
  by unfold_locales (rule demo_policy_steps)

text \<open>C6: an optimisation leaves the system consistent. From a state in which every application is in the
  queues of its state and synchronisation state and in no other, it comes to such a state again,
  through the checks, the decisions of a policy that uses only the requests it is given, the
  scheduling and the synchronisation; the flag of the platform event is cleared, and whoever waits for the end of the
  optimisation can go on.\<close>

theorem optimisation_keeps_system:
  assumes "session_ok (rm_sm rm)" "Optimize env policy i rm = Inr (Some rm')"
    "\<And>pol sys r v sys'. policy = Some pol \<Longrightarrow> queues_ok (fst sys) \<Longrightarrow> pol sys = Inr (r, v, sys') \<Longrightarrow> policy_step\<^sup>*\<^sup>* sys sys'"
  shows "session_ok (rm_sm rm') \<and> \<not> plat_event rm' \<and> rm_WaitForReady rm' = Inr ()"
  using assms by (rule Optimize_ok)

definition demo_rm :: ResourceManager where
  "demo_rm = \<lparr>rm_sd = demo_scheduler, pendingEvts = (\<lambda>_. False), rm_done = False, plat_event = False, is_ready = True,
     optimize_dfr = Task_start 0 (Deferrable_new 0 0 0)\<rparr>"

theorem optimisation_keeps_system_witness:
  "\<exists>rm'. Optimize demo_env (Some demo_policy) 1 demo_rm = Inr (Some rm') \<and> session_ok (rm_sm rm') \<and> rm_WaitForReady rm' = Inr ()"
proof -
  have "case Optimize demo_env (Some demo_policy) 1 demo_rm of Inr (Some _) \<Rightarrow> True | _ \<Rightarrow> False" by code_simp
  then obtain rm' where s: "Optimize demo_env (Some demo_policy) 1 demo_rm = Inr (Some rm')"
    by (auto split: sum.splits option.splits)
  have "session_ok (rm_sm demo_rm)" using demo_scheduler_ok by (simp add: demo_rm_def)
  from optimisation_keeps_system [OF this s] demo_policy_steps s show ?thesis by auto
qed

section \<open>Termination of the daemon\<close>

lemma DestroyEXC_state:
  assumes "DestroyEXC levels p am = Inr (e, am')"
  shows "sch_state (app_of am' p) = FINISHED"
proof (cases "sch_state (app_of am p) = FINISHED")
  case True
  then show ?thesis using DestroyEXC_finished [OF assms] by simp
next
  case False
  then obtain r am1 am2 am3 where c: "ChangeEXCState p FINISHED SYNC_NONE am = Inr (r, am1)"
    and 2: "PriorityRemove levels p am1 = Inr am2" and 3: "LangRemove p am2 = Inr am3" and 4: "app_objs am' = app_objs am3"
    using assms unfolding DestroyEXC_def Let_def by (elim seq_fault_InrE) (auto simp: AppsRemove_def elim!: seq_fault_InrE)
  have "app_objs am3 = app_objs am1"
    using 2 3 by (auto simp: PriorityRemove_def LangRemove_def same_objs_def split: if_splits dest!: erase_app_queues(1))
  then show ?thesis using ChangeEXCState_none [OF c] 4 by simp
qed

lemma registered_uids: "session_ok sm \<Longrightarrow> queue (sm_am sm) UIDS u = Some p \<Longrightarrow> Uid (sm_app sm p) = u \<and> registered (sm_am sm) p"
  by (auto simp: session_ok_def registered_def dest: queues_ok_uid)

lemma exit_body_outcome:
  assumes "exit_body levels ready p (sm, x) = Inr (sm1, x')" "session_ok sm" "queue (sm_am sm) UIDS k = Some p"
  shows "sch_state (sm_app sm1 p) = FINISHED \<and> session_ok sm1"
proof -
  obtain e1 am1 ra1 e2 am2 where d: "DisableEXC ready p True (sm_am sm, sm_ra sm) = Inr (e1, am1, ra1)"
    and k: "DestroyEXC levels p am1 = Inr (e2, am2)" and sm1: "sm1 = sm\<lparr>sm_am := am2, sm_ra := ra1\<rparr>"
    using assms(1) by (auto simp: exit_body_def elim!: seq_fault_InrE)
  have "keeps_queues p (sm_am sm) am2" by (rule keeps_queues_trans [OF DisableEXC_keeps [OF d] DestroyEXC_keeps [OF k]])
  then have "queues_ok am2" using assms(2) registered_uids [OF assms(2,3)] by (simp add: keeps_queues_def session_ok_def)
  moreover have "registered am2 q" if "registered (sm_am sm) q" for q
    using settles_registered [OF exit_body_settles [OF assms(1)]] that by (simp add: sm1)
  ultimately show ?thesis using DestroyEXC_state [OF k] assms(2) by (simp add: sm1 session_ok_def)
qed

interpretation exit_walk: queue_walk "exit_body levels ready" UIDS "\<lambda>_ p sm. sch_state (sm_app sm p) = FINISHED" "\<lambda>_ _. True"
  for levels ready
proof
  show "settles p UIDS i (sm_am (fst s)) (sm_am (fst s'))" if "exit_body levels ready p s = Inr s'" for p s s' i
    by (rule exit_body_settles [OF that])
qed (use exit_body_outcome registered_uids in auto)

text \<open>C18: a daemon that handles the event to exit finishes every application. When the handler
  completes, the control loop is told to end, and every application that was registered is still
  registered and is finished.\<close>

theorem exit_finishes_all:
  assumes "session_ok (rm_sm rm)" "EvtBbqExit levels i rm = Inr (Some rm')" "GetApplication u (sm_am (rm_sm rm)) = Some p"
  shows "rm_done rm' \<and> GetApplication u (sm_am (rm_sm rm')) = Some p \<and> sch_state (sm_app (rm_sm rm') p) = FINISHED"
proof -
  let ?rm1 = "EvtBbqUsr2 (EvtBbqUsr1 (rm\<lparr>rm_done := True\<rparr>))"
  have same: "rm_sm ?rm1 = rm_sm rm" "rm_done ?rm1" by (simp_all add: EvtBbqUsr1_def EvtBbqUsr2_def reset_event_def)
  obtain sm ready where w: "for_each UIDS i (exit_body levels ready) (rm_sm rm, ()) = Inr (Some (sm, ()))"
    and rm': "rm' = upd_sm sm ?rm1"
    using assms(2) unfolding EvtBbqExit_def Let_def same by (auto elim!: seq_loop_Some)
  from exit_walk.for_each_walks [OF assms(1) w]
  show ?thesis using assms(3) same(2) by (auto simp: rm' upd_sm_def walked_def GetApplication_def)
qed

theorem exit_finishes_all_witness:
  "\<exists>rm'. EvtBbqExit 5 1 demo_rm = Inr (Some rm') \<and> rm_done rm' \<and> sch_state (sm_app (rm_sm rm') 0) = FINISHED"
proof -
  have "case EvtBbqExit 5 1 demo_rm of Inr (Some _) \<Rightarrow> True | _ \<Rightarrow> False" by code_simp
  then obtain rm' where s: "EvtBbqExit 5 1 demo_rm = Inr (Some rm')" by (auto split: sum.splits option.splits)
  have "session_ok (rm_sm demo_rm)" using demo_scheduler_ok by (simp add: demo_rm_def)
  moreover have "GetApplication 3200 (sm_am (rm_sm demo_rm)) = Some 0" by code_simp
  ultimately show ?thesis using exit_finishes_all [OF _ s] s by blast
qed

section \<open>The notification of the control loop\<close>

text \<open>The control loop holds the lock of the events except while it sleeps. It tests for an event and
  goes to sleep when there is none; it resets a pending event before it runs its handler. The
  thread that notifies sets the event without the lock, and notifies when it can take the lock at
  once.\<close>

datatype LoopPC = Testing | GoingToSleep | Sleeping | Handling

datatype NotifierPC = NIdle | NSet

record EventState =
  ev_pending :: bool
  ev_loop :: LoopPC
  ev_notifier :: NotifierPC

definition ev_init :: EventState where
  "ev_init = \<lparr>ev_pending = False, ev_loop = Testing, ev_notifier = NIdle\<rparr>"

inductive ev_step :: "EventState \<Rightarrow> EventState \<Rightarrow> bool" where
  some_event: "ev_loop s = Testing \<Longrightarrow> ev_pending s \<Longrightarrow> ev_step s (s\<lparr>ev_loop := Handling, ev_pending := False\<rparr>)"
| no_event: "ev_loop s = Testing \<Longrightarrow> \<not> ev_pending s \<Longrightarrow> ev_step s (s\<lparr>ev_loop := GoingToSleep\<rparr>)"
| sleep: "ev_loop s = GoingToSleep \<Longrightarrow> ev_step s (s\<lparr>ev_loop := Sleeping\<rparr>)"
| handled: "ev_loop s = Handling \<Longrightarrow> ev_step s (s\<lparr>ev_loop := Testing\<rparr>)"
| set_event: "ev_notifier s = NIdle \<Longrightarrow> ev_step s (s\<lparr>ev_pending := True, ev_notifier := NSet\<rparr>)"
| notify: "ev_notifier s = NSet \<Longrightarrow> ev_loop s = Sleeping \<Longrightarrow> ev_step s (s\<lparr>ev_loop := Testing, ev_notifier := NIdle\<rparr>)"
| locked: "ev_notifier s = NSet \<Longrightarrow> ev_loop s \<noteq> Sleeping \<Longrightarrow> ev_step s (s\<lparr>ev_notifier := NIdle\<rparr>)"

inductive_simps ev_step_iff: "ev_step s s'"

text \<open>C39: a notification can be lost. There is a run after which an event is pending, the control loop
  sleeps and the thread that has notified is done; nothing goes on until another event is
  notified. The event was set after the loop had found none and before it slept, while the loop
  held the lock that the notifier only tries to take.\<close>

theorem notification_can_be_lost:
  "\<exists>s. ev_step\<^sup>*\<^sup>* ev_init s \<and> ev_pending s \<and> ev_loop s = Sleeping \<and> ev_notifier s = NIdle \<and>
     {s'. ev_step s s'} = {s\<lparr>ev_notifier := NSet\<rparr>}"
proof -
  let ?s = "\<lambda>e l n. \<lparr>ev_pending = e, ev_loop = l, ev_notifier = n\<rparr>"
  have steps: "ev_step ev_init (?s False GoingToSleep NIdle)"
    "ev_step (?s False GoingToSleep NIdle) (?s True GoingToSleep NSet)"
    "ev_step (?s True GoingToSleep NSet) (?s True GoingToSleep NIdle)"
    "ev_step (?s True GoingToSleep NIdle) (?s True Sleeping NIdle)"
    using no_event [of ev_init] set_event [of "?s False GoingToSleep NIdle"]
      locked [of "?s True GoingToSleep NSet"] sleep [of "?s True GoingToSleep NIdle"]
    by (simp_all add: ev_init_def)
  have run: "ev_step\<^sup>*\<^sup>* ev_init (?s True Sleeping NIdle)"
    by (rule converse_rtranclp_into_rtranclp, rule steps(1), rule converse_rtranclp_into_rtranclp,
        rule steps(2), rule converse_rtranclp_into_rtranclp, rule steps(3), rule r_into_rtranclp, rule steps(4))
  have "{s'. ev_step (?s True Sleeping NIdle) s'} = {(?s True Sleeping NIdle)\<lparr>ev_notifier := NSet\<rparr>}"
    by (simp add: ev_step_iff)
  with run show ?thesis by (intro exI [of _ "?s True Sleeping NIdle"]) simp
qed

end
