(* ===== verification/Grid_Balance.thy ===== *)
theory Grid_Balance
  imports Resource_Manager Accounter_Views
begin

text \<open>
  The scheduling policy that shares the processing elements in proportion to the priorities
  (\<^verbatim>\<open>plugins/schedpol/gridbalance/gridbalance_schedpol.cc\<close>, with the helpers of
  \<^verbatim>\<open>include/bbque/plugins/scheduler_policy.h\<close>): it gives every ready or running application a
  working mode with a share of the processing elements, binds it, and requests its scheduling.

  It keeps the contract of scheduling policies, and the shares that it gives out fit into what the
  system has. The build is the one without power management of the processors, so that the
  processing elements are taken in the order of the resource tree. Writing to the log is left out.
\<close>

section \<open>State\<close>

text \<open>The applications with the working modes to schedule are the \<open>entities\<close> of the policy.\<close>

record GridBalance =
  sched_status_view :: RViewToken
  status_view_count :: u32
  slots :: u32
  proc_elements :: "rptr list"

type_synonym SchedEntity = "appptr \<times> awmptr"

text \<open>What a run depends on besides the state: the environment of the managers, the prefix of resource
  paths and the name that views are requested by.\<close>

record PolicyConfig =
  pc_env :: SyncEnv
  pc_prefix :: string
  pc_namespace :: string

abbreviation pc_lowest :: "PolicyConfig \<Rightarrow> nat" where
  "pc_lowest cfg \<equiv> unat (env_levels (pc_env cfg) - 1)"

abbreviation pc_mx :: "PolicyConfig \<Rightarrow> int" where
  "pc_mx cfg \<equiv> env_mx (pc_env cfg)"

abbreviation pe_path :: string where
  "pe_path \<equiv> ''sys.cpu.pe''"

section \<open>Operations\<close>

definition GetSlots :: "PolicyConfig \<Rightarrow> ApplicationManager \<Rightarrow> u32" where
  "GetSlots cfg am =
     foldl (\<lambda>n prio. n + of_nat (pc_lowest cfg + 1 - prio) * of_nat (unat (AppsCount_of (PRIO (of_nat prio)) am)))
       0 [0..<pc_lowest cfg + 1]"

definition gb_Init :: "PolicyConfig \<Rightarrow> System \<Rightarrow> GridBalance \<Rightarrow> fault + PolicyExitCode \<times> ResourceAccounter \<times> GridBalance" where
  "gb_Init cfg sys gb =
     (case sys of (am, ra) \<Rightarrow>
      let count = status_view_count gb + 1 in
      seq_fault (GetView (env_hsh (pc_env cfg)) (pc_namespace cfg @ to_string (uint count)) (sched_status_view gb) ra)
        (\<lambda>(ra_result, view, ra1).
           let gb1 = gb\<lparr>status_view_count := count, sched_status_view := view\<rparr> in
           if ra_result \<noteq> RA_SUCCESS then Inr (SCHED_ERROR_VIEW, ra1, gb1)
           else let (pes, ra2) = (if proc_elements gb1 = [] then GetResources (pc_mx cfg) pe_path ra1 else (proc_elements gb1, ra1));
                    gb2 = gb1\<lparr>proc_elements := pes\<rparr>
                in Inr (SCHED_OK, ra2, if HasApplications (STATUS READY) am then gb2\<lparr>slots := GetSlots cfg am\<rparr> else gb2)))"

text \<open>The share of an application, the amount per slot times the slots of its priority.\<close>

definition resource_amount :: "PolicyConfig \<Rightarrow> u64 \<Rightarrow> u32 \<Rightarrow> u16 \<Rightarrow> u64" where
  "resource_amount cfg r_total nslots prio =
     word_of_int (int (pc_lowest cfg) - int (unat prio) + 1) * (r_total div ucast nslots)"

text \<open>The working mode that the application has, or a new one.\<close>

definition entity_mode :: "appptr \<Rightarrow> ApplicationManager \<Rightarrow> awmptr \<times> ApplicationManager" where
  "entity_mode p am =
     (let a = app_of am p in
      case awm a of
        Some w \<Rightarrow> (w, am)
      | None \<Rightarrow>
          let w = awm_alloc a;
              wm = WorkingMode_new (sint (of_nat (length (enabled_list a)) :: 8 word)) ''Run-time'' 1 (Some (Uid a))
          in (w, upd_app p (a\<lparr>awm_alloc := w + 1, awm_objs := (awm_objs a)(w := wm)\<rparr>) am))"

definition clear_current :: "appptr \<Rightarrow> ApplicationManager \<Rightarrow> fault + ApplicationManager" where
  "clear_current p am =
     (case awm (app_of am p) of
        None \<Rightarrow> Inl NullDeref
      | Some w \<Rightarrow> Inr (upd_awm p w (ClearResourceRequests (awm_objs (app_of am p) w)) am))"

definition AssignWorkingMode :: "PolicyConfig \<Rightarrow> GridBalance \<Rightarrow> appptr \<Rightarrow> SyncManager \<times> SchedEntity list \<Rightarrow>
    fault + SyncManager \<times> SchedEntity list" where
  "AssignWorkingMode cfg gb p s =
     (case s of (sm, entities) \<Rightarrow>
      let a = sm_app sm p in
      if Blocking a then Inr (sm, entities)
      else seq_fault (if Running a then clear_current p (sm_am sm) else Inr (sm_am sm)) (\<lambda>am1.
        let (w, am2) = entity_mode p am1; (r_total, ra1) = Total_str (pc_mx cfg) pe_path (sm_ra sm) in
        if slots gb = 0 then Inl DivByZero
        else let amount = resource_amount cfg r_total (slots gb) (sch_priority a) in
          if amount = 0 then Inr (sm\<lparr>sm_am := am2, sm_ra := ra1\<rparr>, entities)
          else let (_, ra2, wm) = AddResourceRequest (pc_mx cfg) (pc_prefix cfg) pe_path amount BALANCED ra1 (awm_objs (app_of am2 p) w)
               in Inr (sm\<lparr>sm_am := upd_awm p w wm am2, sm_ra := ra2\<rparr>, entities @ [(p, w)])))"

definition ForEachReadyAndRunningDo :: "itptr \<Rightarrow> (appptr \<Rightarrow> SyncManager \<times> 'a \<Rightarrow> fault + SyncManager \<times> 'a) \<Rightarrow> SyncManager \<times> 'a \<Rightarrow>
    fault + (SyncManager \<times> 'a) option" where
  "ForEachReadyAndRunningDo i do_func s =
     seq_loop (for_each (STATUS READY) i do_func s) (for_each (STATUS RUNNING) i do_func)"

definition num_procs :: "u64 \<Rightarrow> nat" where
  "num_procs req_amount = (if req_amount > 100 then nat \<lceil>to_double (to_float (of_nat (unat req_amount)) / 100)\<rceil> else 1)"

text \<open>The number of a binding is stored without a sign.\<close>

definition bind_refn :: "int \<Rightarrow> nat" where
  "bind_refn refn = unat (word_of_int refn :: u64)"

text \<open>The scheduling of one entity. The path is the one of the request, which exists whenever there
  is an entity; \<open>iter\<close> is the number of processing elements in front of the iterator.\<close>

definition sched_entity :: "PolicyConfig \<Rightarrow> GridBalance \<Rightarrow> ResourcePath option \<Rightarrow> SchedEntity \<Rightarrow> nat \<Rightarrow> System \<Rightarrow> fault + nat \<times> System" where
  "sched_entity cfg gb proc_path entity iter sys =
     (case (sys, entity, proc_path) of
        ((am, ra), (p, w), Some path) \<Rightarrow>
          let wm = awm_objs (app_of am p) w in
          seq_fault (RequestedAmount path wm) (\<lambda>req_amount.
            seq_fault (GetMaskFrom (pc_mx cfg) (ra_heap ra) (proc_elements gb) iter (num_procs req_amount)) (\<lambda>(proc_mask, iter1).
              if iter1 \<ge> length (proc_elements gb) then Inl OutOfRange
              else let iter2 = (if req_amount mod 100 = 0 \<or>
                                   Available (sys_view_token ra) None 0 (robj (ra_heap ra) (proc_elements gb ! iter1)) = 0
                                then iter1 + 1 else iter1) in
                seq_fault (BindResource_path (pc_mx cfg) ra path proc_mask (- 1) wm) (\<lambda>(refn, wm1).
                  seq_fault (ScheduleRequest (env_beyond (pc_env cfg)) (pc_mx cfg) p (Some w) (sched_status_view gb)
                      (bind_refn refn) (upd_awm p w wm1 am, ra)) (\<lambda>(_, sys1). Inr (iter2, sys1)))))
      | _ \<Rightarrow> Inl NullDeref)"

fun BindWorkingModesAndSched :: "PolicyConfig \<Rightarrow> GridBalance \<Rightarrow> ResourcePath option \<Rightarrow> SchedEntity list \<Rightarrow> nat \<Rightarrow> System \<Rightarrow> fault + System" where
  "BindWorkingModesAndSched cfg gb proc_path [] iter sys = Inr sys"
| "BindWorkingModesAndSched cfg gb proc_path (e # es) iter sys =
     seq_fault (sched_entity cfg gb proc_path e iter sys) (\<lambda>(iter1, sys1). BindWorkingModesAndSched cfg gb proc_path es iter1 sys1)"

text \<open>The walks are over the two managers of the system; the other parts of the state they are defined
  on have no role.\<close>

definition on_managers :: "System \<Rightarrow> SyncManager" where
  "on_managers sys = \<lparr>sm_am = fst sys, sm_ra = snd sys, sm_policy = SasbSyncPol_new, sync_count = 0, sync_fails_apps = []\<rparr>"

definition gb_Schedule :: "PolicyConfig \<Rightarrow> itptr \<Rightarrow> GridBalance \<Rightarrow> System \<Rightarrow> fault + (PolicyExitCode \<times> RViewToken \<times> GridBalance \<times> System) option" where
  "gb_Schedule cfg i gb sys =
     seq_fault (gb_Init cfg sys gb) (\<lambda>(_, ra1, gb1).
       seq_loop (ForEachReadyAndRunningDo i (AssignWorkingMode cfg gb1) (on_managers (fst sys, ra1), [])) (\<lambda>(sm, entities).
         let (proc_path, ra2) = GetPath (pc_mx cfg) pe_path (sm_ra sm) in
         seq_fault (BindWorkingModesAndSched cfg gb1 proc_path entities 0 (sm_am sm, ra2)) (\<lambda>sys2.
           Inr (Some (SCHED_DONE, sched_status_view gb1, gb1, sys2)))))"

text \<open>A run of the policy as the scheduler manager sees it. (A run that does not end has no value for the
  manager; \<open>gb_Schedule_ends\<close> shows that there is none.)\<close>

definition grid_balance :: "PolicyConfig \<Rightarrow> itptr \<Rightarrow> GridBalance \<Rightarrow> SchedulerPolicy" where
  "grid_balance cfg i gb sys =
     seq_fault (gb_Schedule cfg i gb sys) (\<lambda>res.
       case res of None \<Rightarrow> Inl WouldBlock | Some (r, v, _, sys') \<Rightarrow> Inr (r, v, sys'))"

section \<open>The policy keeps the contract of policies\<close>

text \<open>A change of the working modes of one application.\<close>

definition mode_change :: "appptr \<Rightarrow> ApplicationManager \<Rightarrow> ApplicationManager \<Rightarrow> bool" where
  "mode_change p am am' \<longleftrightarrow> (\<exists>n f. am' = upd_app p ((app_of am p)\<lparr>awm_alloc := n, awm_objs := f\<rparr>) am)"

lemma mode_change_refl [simp]: "mode_change p am am"
  unfolding mode_change_def
  by (rule exI [of _ "awm_alloc (app_of am p)"], rule exI [of _ "awm_objs (app_of am p)"]) (simp add: upd_app_def)

lemma mode_change_upd_awm: "mode_change p am am' \<Longrightarrow> mode_change p am (upd_awm p w wm am')"
  unfolding mode_change_def upd_awm_def
  by (elim exE, rule_tac x = n in exI, rule_tac x = "f(w := wm)" in exI) (simp add: upd_app_def)

lemma mode_change_entity: "mode_change p am am' \<Longrightarrow> mode_change p am (snd (entity_mode p am'))"
  unfolding mode_change_def
  by (elim exE) (simp add: entity_mode_def Let_def upd_app_def split: option.split, blast)

lemma mode_change_settles: "mode_change p am am' \<Longrightarrow> settles p mr i am am'"
  unfolding mode_change_def by (elim exE) (simp, rule upd_app_settles, simp add: Uid_def)

lemma mode_change_step: "mode_change p am am' \<Longrightarrow> registered am p \<Longrightarrow> policy_step (am, ra) (am', ra)"
  unfolding mode_change_def by (auto intro: policy_step.modes)

lemma AssignWorkingMode_result:
  assumes "AssignWorkingMode cfg gb p (sm, es) = Inr (sm', es')"
  obtains am' ra' where "sm' = sm\<lparr>sm_am := am', sm_ra := ra'\<rparr>" "mode_change p (sm_am sm) am'" "fst ` set es' \<subseteq> insert p (fst ` set es)"
proof -
  show thesis
  proof (cases "Blocking (sm_app sm p)")
    case True
    then show thesis using assms by (intro that [of "sm_ra sm" "sm_am sm"]) (auto simp: AssignWorkingMode_def)
  next
    case False
    with assms obtain am1 where 1: "(if Running (sm_app sm p) then clear_current p (sm_am sm) else Inr (sm_am sm)) = Inr am1"
      and 2: "(let (w, am2) = entity_mode p am1; (r_total, ra1) = Total_str (pc_mx cfg) pe_path (sm_ra sm) in
        if slots gb = 0 then Inl DivByZero
        else let amount = resource_amount cfg r_total (slots gb) (sch_priority (sm_app sm p)) in
          if amount = 0 then Inr (sm\<lparr>sm_am := am2, sm_ra := ra1\<rparr>, es)
          else let (_, ra2, wm) = AddResourceRequest (pc_mx cfg) (pc_prefix cfg) pe_path amount BALANCED ra1 (awm_objs (app_of am2 p) w)
               in Inr (sm\<lparr>sm_am := upd_awm p w wm am2, sm_ra := ra2\<rparr>, es @ [(p, w)])) = Inr (sm', es')"
      by (auto simp: AssignWorkingMode_def Let_def elim!: seq_fault_InrE)
    have "mode_change p (sm_am sm) am1"
      using 1 by (auto simp: clear_current_def split: if_splits option.splits intro: mode_change_upd_awm)
    then have m: "mode_change p (sm_am sm) (snd (entity_mode p am1))" by (rule mode_change_entity)
    from 2 consider ra1 where "sm' = sm\<lparr>sm_am := snd (entity_mode p am1), sm_ra := ra1\<rparr>" "es' = es"
      | w wm ra2 where "sm' = sm\<lparr>sm_am := upd_awm p w wm (snd (entity_mode p am1)), sm_ra := ra2\<rparr>" "es' = es @ [(p, w)]"
      by (auto simp: Let_def split: prod.splits if_splits)
    then show thesis
    proof cases
      case 1
      show thesis by (rule that [OF 1(1) m]) (use 1(2) in auto)
    next
      case (2 w wm ra2)
      show thesis by (rule that [OF 2(1) mode_change_upd_awm [OF m]]) (use 2(2) in auto)
    qed
  qed
qed

lemma AssignWorkingMode_settles:
  "AssignWorkingMode cfg gb p s = Inr s' \<Longrightarrow> settles p mr i (sm_am (fst s)) (sm_am (fst s'))"
  by (cases s, cases s') (auto elim!: AssignWorkingMode_result intro: mode_change_settles)

lemma ForEachReadyAndRunningDo_ends: "ForEachReadyAndRunningDo i (AssignWorkingMode cfg gb) s \<noteq> Inr None"
proof -
  have "for_each mr i (AssignWorkingMode cfg gb) s \<noteq> Inr None" for mr and s :: "SyncManager \<times> SchedEntity list"
    by (rule for_each_ends) (rule AssignWorkingMode_settles)
  then show ?thesis unfolding ForEachReadyAndRunningDo_def by (blast dest!: seq_loop_None)
qed

lemma gb_Schedule_ends: "gb_Schedule cfg i gb sys \<noteq> Inr None"
  by (auto simp: gb_Schedule_def Let_def ForEachReadyAndRunningDo_ends split: prod.splits elim!: seq_fault_InrE dest!: seq_loop_None)

text \<open>What the walks have reached: steps of the policy only, and entities of registered applications.\<close>

definition assigned :: "System \<Rightarrow> SyncManager \<Rightarrow> SchedEntity list \<Rightarrow> bool" where
  "assigned sys sm es \<longleftrightarrow> queues_ok (sm_am sm) \<and> policy_step\<^sup>*\<^sup>* sys (sm_am sm, sm_ra sm) \<and> (\<forall>p\<in>fst ` set es. registered (sm_am sm) p)"

lemma assigned_step:
  assumes "assigned sys sm es" "policy_step (sm_am sm, sm_ra sm) (am', ra')"
  shows "assigned sys (sm\<lparr>sm_am := am', sm_ra := ra'\<rparr>) es"
  using assms policy_step_ok [OF assms(2)] by (auto simp: assigned_def intro: rtranclp.rtrancl_into_rtrancl)

lemma for_each_assigned:
  assumes "for_each (STATUS st) i (AssignWorkingMode cfg gb) (sm, es) = Inr (Some (sm', es'))" "assigned sys sm es"
  shows "assigned sys sm' es'"
proof (rule for_each_invariant [where P = "assigned sys", OF assms])
  fix p s acc s' acc'
  assume a: "assigned sys s acc" and q: "\<exists>u. queue (sm_am s) (STATUS st) u = Some p" and b: "AssignWorkingMode cfg gb p (s, acc) = Inr (s', acc')"
  from b obtain am' ra' where r: "s' = s\<lparr>sm_am := am', sm_ra := ra'\<rparr>" "mode_change p (sm_am s) am'"
    "fst ` set acc' \<subseteq> insert p (fst ` set acc)" by (rule AssignWorkingMode_result)
  from q obtain u where "queue (sm_am s) (STATUS st) u = Some p" by blast
  then have reg: "registered (sm_am s) p"
    using status_uid [of "s\<lparr>sync_fails_apps := []\<rparr>"] a by (simp add: session_ok_def assigned_def)
  have "assigned sys (s\<lparr>sm_am := am', sm_ra := sm_ra s\<rparr>) acc"
    by (rule assigned_step [OF a mode_change_step [OF r(2) reg]])
  then have "assigned sys (s\<lparr>sm_am := am', sm_ra := ra'\<rparr>) acc" "registered am' p"
    using assigned_step [OF _ policy_step.accounter] settles_registered [OF mode_change_settles [OF r(2)] reg] by fastforce+
  then have "assigned sys s' acc'" using r(1) subsetD [OF r(3)] by (fastforce simp: assigned_def)
  moreover have "it_map (iters (sm_am s') i) = it_map (iters (sm_am s) i)"
    using settles_it_map [OF mode_change_settles [OF r(2)]] by (simp add: r(1))
  ultimately show "assigned sys s' acc' \<and> it_map (iters (sm_am s') i) = it_map (iters (sm_am s) i)" ..
next
  fix s :: SyncManager and acc and am' :: ApplicationManager
  assume "assigned sys s acc" "app_objs am' = app_objs (sm_am s)" "app_alloc am' = app_alloc (sm_am s)" "vecs am' = vecs (sm_am s)"
  then show "assigned sys (s\<lparr>sm_am := am'\<rparr>) acc"
    using assigned_step [OF _ policy_step.walk, of sys s acc am'] by simp
qed

lemma sched_entity_steps:
  assumes "sched_entity cfg gb path (p, w) iter (am, ra) = Inr (iter', sys')" "registered am p"
  shows "policy_step\<^sup>*\<^sup>* (am, ra) sys'"
proof -
  obtain wm refn e where r: "ScheduleRequest (env_beyond (pc_env cfg)) (pc_mx cfg) p (Some w) (sched_status_view gb)
      (bind_refn refn) (upd_awm p w wm am, ra) = Inr (e, sys')"
    using assms(1) by (auto simp: sched_entity_def Let_def split: option.splits if_splits elim!: seq_fault_InrE)
  have m: "mode_change p am (upd_awm p w wm am)" by (simp add: mode_change_upd_awm)
  have "registered (upd_awm p w wm am) p" by (rule settles_registered [OF mode_change_settles [OF m] assms(2)])
  from policy_step.request [OF this r] mode_change_step [OF m assms(2)] show ?thesis
    by (meson converse_rtranclp_into_rtranclp r_into_rtranclp)
qed

lemma BindWorkingModesAndSched_steps:
  assumes "BindWorkingModesAndSched cfg gb path es iter sys = Inr sys'" "queues_ok (fst sys)" "\<forall>p\<in>fst ` set es. registered (fst sys) p"
  shows "policy_step\<^sup>*\<^sup>* sys sys'"
  using assms
proof (induction es arbitrary: iter sys)
  case (Cons e es)
  obtain p w where e: "e = (p, w)" by (cases e)
  from Cons.prems(1) obtain iter1 sys1 where s: "sched_entity cfg gb path e iter sys = Inr (iter1, sys1)"
    and b: "BindWorkingModesAndSched cfg gb path es iter1 sys1 = Inr sys'"
    by (auto elim!: seq_fault_InrE)
  have 1: "policy_step\<^sup>*\<^sup>* sys sys1"
    using sched_entity_steps [of cfg gb path p w iter "fst sys" "snd sys"] s Cons.prems(3) by (simp add: e)
  then show ?case using Cons.IH [OF b] policy_run_ok [OF 1] Cons.prems(2,3) by fastforce
qed simp

lemma gb_Schedule_steps:
  assumes "gb_Schedule cfg i gb sys = Inr (Some (r, v, gb', sys'))" "queues_ok (fst sys)"
  shows "policy_step\<^sup>*\<^sup>* sys sys'"
proof -
  obtain c ra1 gb1 sm es where
    f: "ForEachReadyAndRunningDo i (AssignWorkingMode cfg gb1) (on_managers (fst sys, ra1), []) = Inr (Some (sm, es))"
    and b: "BindWorkingModesAndSched cfg gb1 (fst (GetPath (pc_mx cfg) pe_path (sm_ra sm))) es 0
        (sm_am sm, snd (GetPath (pc_mx cfg) pe_path (sm_ra sm))) = Inr sys'"
    using assms(1) by (auto simp: gb_Schedule_def Let_def case_prod_unfold elim!: seq_fault_InrE seq_loop_Some)
  have "policy_step sys (fst sys, ra1)" by (cases sys) (simp add: policy_step.accounter)
  then have "assigned sys (on_managers (fst sys, ra1)) []" using assms(2) by (simp add: assigned_def on_managers_def)
  with f have a: "assigned sys sm es"
    by (auto simp: ForEachReadyAndRunningDo_def elim!: seq_loop_Some intro: for_each_assigned)
  let ?ra2 = "snd (GetPath (pc_mx cfg) pe_path (sm_ra sm))"
  have "policy_step\<^sup>*\<^sup>* sys (sm_am sm, ?ra2)"
    using a policy_step.accounter by (auto simp: assigned_def intro: rtranclp.rtrancl_into_rtrancl)
  moreover have "policy_step\<^sup>*\<^sup>* (sm_am sm, ?ra2) sys'"
    by (rule BindWorkingModesAndSched_steps [OF b]) (use a in \<open>simp_all add: assigned_def\<close>)
  ultimately show ?thesis by (rule rtranclp_trans)
qed

interpretation grid_pol: scheduling_policy "grid_balance cfg i gb" for cfg i gb
proof
  show "policy_step\<^sup>*\<^sup>* sys sys'" if "queues_ok (fst sys)" "grid_balance cfg i gb sys = Inr (r, v, sys')" for sys r v sys'
    using that gb_Schedule_steps [of cfg i gb sys] by (auto simp: grid_balance_def split: option.splits elim!: seq_fault_InrE)
qed

section \<open>The shares fit\<close>

lemma foldl_add: "foldl (\<lambda>n q. n + f q) a xs = a + (\<Sum>q\<leftarrow>xs. f q)" for f :: "'b \<Rightarrow> 'a::comm_monoid_add"
  by (induction xs arbitrary: a) (simp_all add: ac_simps)

lemma sum_list_of_nat: "(\<Sum>q\<leftarrow>xs. of_nat (g q)) = of_nat (\<Sum>q\<leftarrow>xs. g q)"
  by (induction xs) simp_all

text \<open>The slots of a priority, times the applications that have it.\<close>

abbreviation prio_slots :: "PolicyConfig \<Rightarrow> ApplicationManager \<Rightarrow> nat \<Rightarrow> nat" where
  "prio_slots cfg am q \<equiv> (pc_lowest cfg + 1 - q) * length (vecs am (PRIO (of_nat q)))"

lemma GetSlots_sum:
  assumes "(\<Sum>q<pc_lowest cfg + 1. length (vecs am (PRIO (of_nat q)))) < 2 ^ 16"
  shows "unat (GetSlots cfg am) = (\<Sum>q<pc_lowest cfg + 1. prio_slots cfg am q)"
proof -
  let ?L = "pc_lowest cfg" and ?n = "\<lambda>q. length (vecs am (PRIO (of_nat q)))"
  have n: "unat (AppsCount_of (PRIO (of_nat q)) am) = ?n q" if "q < ?L + 1" for q
    using assms member_le_sum [of q "{..<?L + 1}" ?n] that by (simp add: AppsCount_of_def unat_of_nat)
  have L: "?L < 2 ^ 16" using unsigned_less [of "env_levels (pc_env cfg) - 1", where ?'a = nat] by simp
  have "(\<Sum>q<?L + 1. prio_slots cfg am q) \<le> (\<Sum>q<?L + 1. 2 ^ 16 * ?n q)"
    by (rule sum_mono, rule mult_le_mono1) (use L in simp)
  also have "\<dots> < 2 ^ 32" using assms by (simp add: sum_distrib_left [symmetric])
  finally have S: "(\<Sum>q\<leftarrow>[0..<?L + 1]. prio_slots cfg am q) < 2 ^ LENGTH(32)"
    by (simp add: interv_sum_list_conv_sum_set_nat atLeast0LessThan)
  have "GetSlots cfg am = (\<Sum>q\<leftarrow>[0..<?L + 1]. of_nat (prio_slots cfg am q))"
    unfolding GetSlots_def foldl_add add_0
    by (rule arg_cong [of _ _ sum_list], rule map_cong [OF refl]) (use n in \<open>simp add: less_Suc_eq del: upt_Suc\<close>)
  also have "\<dots> = of_nat (\<Sum>q\<leftarrow>[0..<?L + 1]. prio_slots cfg am q)" by (rule sum_list_of_nat)
  finally have e: "GetSlots cfg am = of_nat (\<Sum>q\<leftarrow>[0..<?L + 1]. prio_slots cfg am q)" .
  show ?thesis unfolding e unat_of_nat mod_less [OF S]
    by (simp only: interv_sum_list_conv_sum_set_nat set_upt atLeast0LessThan)
qed

lemma queue_members:
  assumes "\<And>p. p \<in> P \<Longrightarrow> queue am r (Uid (app_of am p)) = Some p"
  shows "finite P \<and> card P \<le> length (vecs am r)"
proof -
  have "P \<subseteq> snd ` set (vecs am r)"
  proof
    fix p assume "p \<in> P"
    from map_of_SomeD [OF assms [OF this]] show "p \<in> snd ` set (vecs am r)" by force
  qed
  then show ?thesis
    by (meson List.finite_set card_image_le card_length card_mono finite_imageI finite_subset le_trans)
qed

lemma prio_slots_cover:
  assumes "finite P" "\<And>p. p \<in> P \<Longrightarrow> prio p \<le> (L::nat)" "\<And>q. q \<le> L \<Longrightarrow> card {p \<in> P. prio p = q} \<le> n q"
  shows "(\<Sum>p\<in>P. L + 1 - prio p) \<le> (\<Sum>q<L + 1. (L + 1 - q) * n q)"
proof -
  have "(\<Sum>p\<in>P. L + 1 - prio p) = (\<Sum>q<L + 1. \<Sum>p\<in>{p \<in> P. prio p = q}. L + 1 - prio p)"
    by (rule sum.group [symmetric]) (use assms in \<open>auto simp: less_Suc_eq_le\<close>)
  also have "\<dots> = (\<Sum>q<L + 1. (L + 1 - q) * card {p \<in> P. prio p = q})" by (simp add: mult.commute)
  also have "\<dots> \<le> (\<Sum>q<L + 1. (L + 1 - q) * n q)"
    by (rule sum_mono, rule mult_le_mono2, rule assms(3)) simp
  finally show ?thesis .
qed

lemma resource_amount_unat:
  assumes "unat prio \<le> pc_lowest cfg" "pc_lowest cfg + 1 - unat prio \<le> unat s"
  shows "unat (resource_amount cfg t s prio) = (pc_lowest cfg + 1 - unat prio) * (unat t div unat s)"
proof -
  let ?k = "pc_lowest cfg + 1 - unat prio"
  have k: "word_of_int (int (pc_lowest cfg) - int (unat prio) + 1) = (of_nat ?k :: u64)"
    using assms(1) by (simp add: of_nat_diff)
  have "unat (ucast s :: u64) = unat s"
    using unsigned_less [of s, where ?'a = nat] by (simp add: unsigned_ucast_eq take_bit_nat_eq_self)
  then have d: "unat (t div ucast s) = unat t div unat s" by (simp add: unat_div)
  have "?k * (unat t div unat s) \<le> unat s * (unat t div unat s)" using assms(2) by simp
  also have "\<dots> \<le> unat t" by simp
  also have "\<dots> < 2 ^ LENGTH(64)" by (rule unsigned_less)
  finally have b: "?k * (unat t div unat s) < 2 ^ LENGTH(64)" .
  have "?k < 2 ^ LENGTH(64)" using unsigned_less [of s, where ?'a = nat] assms(2) by simp
  then show ?thesis unfolding resource_amount_def k using b d
    by (simp add: unat_word_ariths unsigned_of_nat take_bit_nat_eq_self)
qed

text \<open>C11: the shares fit. The amounts of processing elements that the policy requests for any number of
  different applications, all in the queues of their priorities, add up to no more than the
  total it shares, as long as there are fewer than 65536 applications.\<close>

theorem shares_fit:
  assumes "(\<Sum>q<pc_lowest cfg + 1. length (vecs am (PRIO (of_nat q)))) < 2 ^ 16" "distinct ps"
    "\<And>p. p \<in> set ps \<Longrightarrow> unat (sch_priority (app_of am p)) \<le> pc_lowest cfg \<and>
       queue am (PRIO (sch_priority (app_of am p))) (Uid (app_of am p)) = Some p"
  shows "(\<Sum>p\<leftarrow>ps. unat (resource_amount cfg t (GetSlots cfg am) (sch_priority (app_of am p)))) \<le> unat t"
proof -
  let ?k = "\<lambda>p. pc_lowest cfg + 1 - unat (sch_priority (app_of am p))" and ?S = "unat (GetSlots cfg am)"
  have "card {p \<in> set ps. unat (sch_priority (app_of am p)) = q} \<le> length (vecs am (PRIO (of_nat q)))" for q
    using queue_members [of "{p \<in> set ps. unat (sch_priority (app_of am p)) = q}" am "PRIO (of_nat q)"] assms(3) by force
  then have S: "(\<Sum>p\<in>set ps. ?k p) \<le> ?S"
    unfolding GetSlots_sum [OF assms(1)] using assms(3) by (intro prio_slots_cover) simp_all
  have one: "unat (resource_amount cfg t (GetSlots cfg am) (sch_priority (app_of am p))) = ?k p * (unat t div ?S)" if "p \<in> set ps" for p
    using assms(3) [OF that] member_le_sum [of p "set ps" ?k] that S by (intro resource_amount_unat) auto
  have "(\<Sum>p\<leftarrow>ps. unat (resource_amount cfg t (GetSlots cfg am) (sch_priority (app_of am p)))) = (\<Sum>p\<in>set ps. ?k p) * (unat t div ?S)"
    using assms(2) one by (simp add: sum_list_distinct_conv_sum_set sum_distrib_right)
  also have "\<dots> \<le> ?S * (unat t div ?S)" using S by (rule mult_le_mono1)
  also have "\<dots> \<le> unat t" by simp
  finally show ?thesis .
qed
definition demo_accounter :: "u64 \<Rightarrow> ResourceAccounter" where
  "demo_accounter amount =
     (snd (RegisterResource 31 ''sys0.cpu0.pe1'' [] amount
        (ResourceAccounter_new 31 \<lparr>robj = (\<lambda>_. Resource_new 31 CPU 0 0), rnext = 0\<rparr>)))\<lparr>ra_status := RA_READY\<rparr>"

definition demo_queued :: ApplicationManager where
  "demo_queued = upd_vec (PRIO 0) (\<lambda>_. [(3200, 0)]) (demo_manager READY)"

definition demo_config :: PolicyConfig where
  "demo_config = \<lparr>pc_env = demo_env, pc_prefix = ''sys'', pc_namespace = ''bq.sp.gridbal''\<rparr>"

definition demo_grid :: GridBalance where
  "demo_grid = \<lparr>sched_status_view = 0, status_view_count = 0, slots = 0, proc_elements = []\<rparr>"

lemma demo_queued_ok: "queues_ok demo_queued"
  by (rule queues_ok_irrelevant [OF demo_manager_ok(1) [of READY]]) (simp_all add: demo_queued_def upd_vec_def om_ok_def demo_manager_def)

theorem shares_fit_witness:
  "queue demo_queued (PRIO 0) 3200 = Some 0 \<and> unat (resource_amount demo_config 100 (GetSlots demo_config demo_queued) 0) \<le> 100"
proof -
  have "(\<Sum>q<pc_lowest demo_config + 1. length (vecs demo_queued (PRIO (of_nat q)))) = 1" by code_simp
  moreover have "Uid (app_of demo_queued 0) = 3200" "sch_priority (app_of demo_queued 0) = 0"
    "queue demo_queued (PRIO 0) 3200 = Some 0" by code_simp+
  ultimately show ?thesis using shares_fit [where cfg = demo_config and am = demo_queued and ps = "[0]" and t = 100] by simp
qed

section \<open>The policy in the daemon\<close>

text \<open>C8: the policy implements what the scheduler manager expects of a policy. From consistent queues a run
  that does not end in a fault ends: it answers, that it is done and with the view that its
  requests were booked in; it has changed the system only through the steps that policies have; and the
  queues are consistent again.\<close>

theorem grid_balance_is_policy:
  assumes "queues_ok (fst sys)" "gb_Schedule cfg i gb sys = Inr res"
  shows "\<exists>gb' sys'. res = Some (SCHED_DONE, sched_status_view gb', gb', sys') \<and> policy_step\<^sup>*\<^sup>* sys sys' \<and> queues_ok (fst sys')"
proof -
  obtain r v gb' sys' where res: "res = Some (r, v, gb', sys')"
    using assms(2) gb_Schedule_ends [of cfg i gb sys] by (cases res) auto
  have "grid_balance cfg i gb sys = Inr (r, v, sys')" using assms(2) by (simp add: grid_balance_def res)
  note s = grid_pol.steps [OF assms(1) this]
  have "r = SCHED_DONE" "v = sched_status_view gb'"
    using assms(2) by (auto simp: gb_Schedule_def Let_def res split: prod.splits elim!: seq_fault_InrE seq_loop_Some)
  then show ?thesis using s policy_run_ok [OF s assms(1)] res by blast
qed

theorem grid_balance_is_policy_witness:
  "\<exists>v gb am ra. gb_Schedule demo_config 1 demo_grid (demo_queued, demo_accounter 100) = Inr (Some (SCHED_DONE, v, gb, am, ra)) \<and>
     syncState (app_of am 0) = STARTING \<and> queues_ok am"
proof -
  have "case gb_Schedule demo_config 1 demo_grid (demo_queued, demo_accounter 100) of
      Inr (Some (_, _, _, am, _)) \<Rightarrow> syncState (app_of am 0) = STARTING | _ \<Rightarrow> False" by code_simp
  then obtain r v gb am ra where s: "gb_Schedule demo_config 1 demo_grid (demo_queued, demo_accounter 100) = Inr (Some (r, v, gb, am, ra))"
    and y: "syncState (app_of am 0) = STARTING"
    by (auto split: sum.splits option.splits prod.splits)
  from grid_balance_is_policy [OF _ s] s y demo_queued_ok show ?thesis by auto
qed

text \<open>C7: an optimisation that runs this policy leaves the system consistent, with nothing assumed of the
  policy: every application is in the queues of its state and synchronisation state and in no other,
  and whoever waits for the end of the optimisation can go on.\<close>

theorem grid_balance_optimises:
  assumes "session_ok (rm_sm rm)" "Optimize env (Some (grid_balance cfg j gb)) i rm = Inr (Some rm')"
  shows "session_ok (rm_sm rm') \<and> \<not> plat_event rm' \<and> rm_WaitForReady rm' = Inr ()"
  using assms by (rule grid_pol.optimise_ok)

definition demo_daemon :: ResourceManager where
  "demo_daemon = demo_rm\<lparr>rm_sd := demo_scheduler\<lparr>sd_sys := demo_idle\<lparr>sm_am := demo_queued, sm_ra := demo_accounter 4\<rparr>\<rparr>\<rparr>"

theorem grid_balance_optimises_witness:
  "\<exists>rm'. Optimize demo_env (Some (grid_balance demo_config 2 demo_grid)) 1 demo_daemon = Inr (Some rm') \<and>
     sched_count (rm_sd rm') = 1 \<and> session_ok (rm_sm rm')"
proof -
  have "case Optimize demo_env (Some (grid_balance demo_config 2 demo_grid)) 1 demo_daemon of
      Inr (Some rm) \<Rightarrow> sched_count (rm_sd rm) = 1 | _ \<Rightarrow> False" by code_simp
  then obtain rm' where s: "Optimize demo_env (Some (grid_balance demo_config 2 demo_grid)) 1 demo_daemon = Inr (Some rm')"
    and c: "sched_count (rm_sd rm') = 1" by (auto split: sum.splits option.splits)
  have "session_ok (rm_sm demo_daemon)" using demo_queued_ok by (simp add: demo_daemon_def demo_idle_def session_ok_def)
  from grid_balance_optimises [OF this s] s c show ?thesis by blast
qed

end
