(* ===== verification/Daemon_Progress.thy ===== *)
theory Daemon_Progress
  imports Grid_Balance
begin

text \<open>
  Progress of the rounds of the resource manager
  (\<^verbatim>\<open>bbque/resource_manager.cc\<close>). A call of the model that would be suspended on a
  condition variable ends in the fault \<open>WouldBlock\<close>, and a loop that does not end has the value
  \<open>Inr None\<close>. This theory follows the calls that an optimisation and a round of the control loop make,
  down to the paths and masks, and shows that none of them is suspended when the scheduler manager and
  the platform are ready, with any scheduling policy that is not suspended, and that the grid policy is
  such a policy.
\<close>

definition no_wait :: "fault + 'a \<Rightarrow> bool" where
  "no_wait x \<longleftrightarrow> x \<noteq> Inl WouldBlock"

lemma no_wait_value [simp]: "no_wait (Inr a)" "no_wait (Inl f) \<longleftrightarrow> f \<noteq> WouldBlock"
  by (simp_all add: no_wait_def)

lemma no_wait_seq: "no_wait x \<Longrightarrow> (\<And>a. no_wait (f a)) \<Longrightarrow> no_wait (seq_fault x f)"
  by (cases x) (auto simp: no_wait_def)

lemma no_wait_seq_result: "no_wait x \<Longrightarrow> (\<And>a. x = Inr a \<Longrightarrow> no_wait (f a)) \<Longrightarrow> no_wait (seq_fault x f)"
  by (cases x) (auto simp: no_wait_def)

lemma no_wait_loop_result: "no_wait x \<Longrightarrow> (\<And>a. x = Inr (Some a) \<Longrightarrow> no_wait (f a)) \<Longrightarrow> no_wait (seq_loop x f)"
  unfolding seq_loop_def by (rule no_wait_seq_result) (auto split: option.splits)

lemma no_wait_loop: "no_wait x \<Longrightarrow> (\<And>a. no_wait (f a)) \<Longrightarrow> no_wait (seq_loop x f)"
  by (rule no_wait_loop_result)

lemmas no_wait_splits = option.split prod.split if_split sum.split bool.split

lemmas no_wait_compose = no_wait_seq no_wait_loop

section \<open>Paths, sets and the accounter\<close>

lemma no_wait_paths [simp]:
  "no_wait (Path_Compare p q)" "no_wait (Path_GetIdentifier t p)" "no_wait (Path_GetID t p)" "no_wait (Path_ParentType t p)"
  "no_wait (Path_Type k p)" "no_wait (Bitset_Test b k)" "no_wait (Bitset_Set mx k b)"
  by (auto simp: Path_Compare_def Path_GetIdentifier_def Path_GetID_def Path_ParentType_def Path_Type_def Bitset_Test_def
      Bitset_Set_def Let_def intro!: no_wait_compose split: no_wait_splits)

lemma no_wait_bitset_or_loop [simp]: "no_wait (bitset_or_loop mx rbs k b)"
proof (induction mx rbs k b rule: bitset_or_loop.induct)
  case (1 mx rbs k b)
  then show ?case
    by (subst bitset_or_loop.simps) (auto intro!: no_wait_seq_result)
qed

lemma no_wait_set_resources_by_mask_loop [simp]: "no_wait (set_resources_by_mask_loop mx H rs m a)"
  by (induction rs arbitrary: a) (auto simp: Let_def intro!: no_wait_compose split: no_wait_splits)

lemma no_wait_assigned_in_list [simp]: "no_wait (assigned_in_list mx u v t st si rs ra n)"
  by (induction rs arbitrary: ra n) (auto simp: Let_def scope_id_matches_def intro!: no_wait_compose split: no_wait_splits)

lemma no_wait_assigned_in_map [simp]: "no_wait (assigned_in_map mx u v t st si m ra n)"
  by (induction m arbitrary: ra n) (auto simp: Let_def in_scope_def intro!: no_wait_compose split: no_wait_splits)

lemma no_wait_accounter [simp]:
  "no_wait (Bitset_or mx b c)" "no_wait (SetResourcesList_by_mask mx H rs b a)" "no_wait (GetAssignedAmount mx om u v t st si ra)"
  "no_wait (BookResources uo om v ra)" "no_wait (Bind_path a1 a2 a3 a4 a5 a6)"
  by (auto simp: Bitset_or_def SetResourcesList_by_mask_def GetAssignedAmount_def BookResources_def Bind_path_def
      Let_def intro!: no_wait_compose split: no_wait_splits)

text \<open>The two calls of the accounter that wait for the platform.\<close>

lemma no_wait_views:
  assumes "ra_status ra = RA_READY"
  shows "no_wait (GetView hsh path tok ra)" "no_wait (SyncStart hsh running ra)"
  using assms by (auto simp: GetView_def SyncStart_def WaitForPlatformReady_def Let_def split: no_wait_splits)

section \<open>The binder and the working modes\<close>

lemma no_wait_SetBit [simp]: "no_wait (SetBit mx p t b)"
  by (auto simp: SetBit_def Let_def intro!: no_wait_compose split: no_wait_splits)

lemma no_wait_mask_of_list [simp]: "no_wait (mask_of_list mx t rs ra b)"
  by (induction rs arbitrary: ra b) (auto simp: Let_def intro!: no_wait_compose split: no_wait_splits)

lemma no_wait_GetMask_loop [simp]: "no_wait (GetMask_loop mx m t ra b)"
  by (induction m arbitrary: ra b) (auto simp: Let_def intro!: no_wait_compose split: no_wait_splits)

lemma no_wait_GetMask_used_loop [simp]: "no_wait (GetMask_used_loop mx rs t st si p v ra b)"
  by (induction rs arbitrary: ra b) (auto simp: Let_def intro!: no_wait_compose split: no_wait_splits)

lemma no_wait_GetMask_scoped_loop [simp]: "no_wait (GetMask_scoped_loop mx m t st si p v ra b)"
  by (induction m arbitrary: ra b) (auto simp: Let_def GetMask_used_def intro!: no_wait_compose split: no_wait_splits)

lemma no_wait_GetMaskFrom_loop [simp]: "no_wait (GetMaskFrom_loop mx H rs i n b)"
  by (induction rs arbitrary: i n b) (auto simp: Let_def intro!: no_wait_compose split: no_wait_splits)

lemma no_wait_RequestedAmount_loop [simp]: "no_wait (RequestedAmount_loop p m)"
  by (induction m) (auto intro!: no_wait_compose split: no_wait_splits)

lemma no_wait_is_matched [simp]: "no_wait (is_matched t p m)"
  by (induction m) (auto simp: Let_def intro!: no_wait_compose split: no_wait_splits)

lemma no_wait_AddMissingResourceRequests [simp]: "no_wait (AddMissingResourceRequests t m b)"
  by (induction m arbitrary: b) (auto intro!: no_wait_compose split: no_wait_splits)

lemma no_wait_new_binding_mask [simp]: "no_wait (new_binding_mask bd mx t v ra wm)"
  by (auto simp: new_binding_mask_def sync_sched_binding_def GetMask_def GetMask_scoped_def Let_def
      intro!: no_wait_compose split: no_wait_splits)

lemma no_wait_UpdateBindingInfo_loop [simp]: "no_wait (UpdateBindingInfo_loop bd mx v c ts ra wm)"
  by (induction ts arbitrary: ra wm) (auto simp: Let_def intro!: no_wait_compose split: no_wait_splits)

lemma no_wait_working_mode [simp]:
  "no_wait (GetMaskFrom a1 a2 a3 a4 a5)" "no_wait (RequestedAmount b1 b2)" "no_wait (complete_map c1 c2 c3)"
  "no_wait (BindResource_path d1 d2 d3 d4 d5 d6)"
  "no_wait (UpdateBindingInfo e1 e2 e3 e4 e5 e6)" "no_wait (SetResourceBinding f1 f2 f3 f4 f5 f6)"
  by (auto simp: GetMaskFrom_def RequestedAmount_def complete_map_def BindResource_path_def UpdateBindingInfo_def
      SetResourceBinding_def Let_def intro!: no_wait_compose split: no_wait_splits)

section \<open>Applications and their queues\<close>

lemma no_wait_application [simp]:
  "no_wait (settle_awms a1 a2 a3)" "no_wait (Sched_SetState b1 b2 b3)" "no_wait (SwitchingAWM c1)" "no_wait (Reshuffling d1 d2)"
  "no_wait (NextSyncState e1 e2 e3)" "no_wait (App_SetNextAWM f1 f2)" "no_wait (reset_goal_gap g1)" "no_wait (App_SyncContinue h1)"
  by (auto simp: settle_awms_def Sched_SetState_def SwitchingAWM_def Reshuffling_def NextSyncState_def App_SetNextAWM_def
      reset_goal_gap_def App_SyncContinue_def Let_def intro!: no_wait_compose split: no_wait_splits)

lemma no_wait_App_SyncCommit [simp]: "no_wait (App_SyncCommit a)"
  by (cases "syncState a") (auto simp: App_SyncCommit_def intro!: no_wait_compose)

lemma no_wait_iterators [simp]:
  "no_wait (It_Update am it)" "no_wait (It_next am it)" "no_wait (GetFirst r i am)" "no_wait (GetNext i am)"
  by (auto simp: It_Update_def It_next_def It_Get_def it_vec_def next_key_def GetFirst_def GetNext_def Let_def
      intro!: no_wait_compose split: no_wait_splits)

lemma no_wait_UpdateIterators [simp]: "no_wait (UpdateIterators is u am)"
  by (induction "is" arbitrary: am) (auto simp: Let_def intro!: no_wait_compose split: no_wait_splits)

lemma no_wait_HighestPrio_loop [simp]: "no_wait (HighestPrio_loop fuel i p am)"
  by (induction fuel arbitrary: p am) (auto intro!: no_wait_compose split: no_wait_splits)

lemma no_wait_queues [simp]:
  "no_wait (HighestPrio r i am)" "no_wait (erase_app r p am)" "no_wait (UpdateStatusMaps p s s' am)"
  "no_wait (RemoveFromSyncMap_state p y am)" "no_wait (AddToSyncMap p am)"
  by (auto simp: HighestPrio_def erase_app_def UpdateStatusMaps_def RemoveFromSyncMap_state_def AddToSyncMap_def AddToSyncMap_state_def
      Let_def intro!: no_wait_compose split: no_wait_splits)

lemma no_wait_manager [simp]: "no_wait (ChangeEXCState p s y am)" "no_wait (DestroyEXC levels p am)"
  by (auto simp: ChangeEXCState_def DestroyEXC_def PriorityRemove_def LangRemove_def Let_def
      intro!: no_wait_compose split: no_wait_splits)

text \<open>Disabling an application waits for the scheduler.\<close>

lemma no_wait_disable [simp]: "no_wait (DisableEXC True p rel sys)" "no_wait (CheckEXC levels True alive p rel sys)"
  by (auto simp: DisableEXC_def CheckEXC_def Let_def intro!: no_wait_compose split: no_wait_splits)

lemma no_wait_CheckActive_loop [simp]: "no_wait (CheckActive_loop fuel levels True alive i po sys)"
proof (induction fuel arbitrary: po sys)
  case 0
  then show ?case by (cases po) auto
next
  case (Suc fuel)
  then show ?case by (cases po) (auto intro!: no_wait_compose split: no_wait_splits)
qed

lemma no_wait_scheduling [simp]:
  "no_wait (CheckActiveEXCs levels True alive i sys)" "no_wait (Unschedule p am)" "no_wait (Reschedule mx p w am)"
  "no_wait (AM_SyncCommit levels p am)" "no_wait (AM_SyncAbort levels True alive p sys)" "no_wait (AM_SyncContinue p am)"
  by (auto simp: CheckActiveEXCs_def CheckActive_of_def Unschedule_def Reschedule_def SetForSynchronization_def AM_SyncCommit_def
      AM_SyncAbort_def AM_SyncContinue_def Let_def intro!: no_wait_compose split: no_wait_splits)

lemma no_wait_ScheduleRequest [simp]: "no_wait (ScheduleRequest bd mx p wo v b sys)"
  by (auto simp: ScheduleRequest_def Let_def intro!: no_wait_compose split: no_wait_splits)

section \<open>The synchronisation\<close>

lemma no_wait_visit: "(\<And>p s. no_wait (body p s)) \<Longrightarrow> no_wait (visit fuel i body po s)"
proof (induction fuel arbitrary: po s)
  case 0
  then show ?case by (cases po) auto
next
  case (Suc fuel)
  then show ?case by (cases po; cases s) (auto simp: Let_def intro!: no_wait_compose split: no_wait_splits)
qed

lemma no_wait_for_each [intro!]: "(\<And>p s. no_wait (body p s)) \<Longrightarrow> no_wait (for_each r i body s)"
  by (auto simp: for_each_def Let_def intro!: no_wait_compose no_wait_visit split: no_wait_splits)

lemma no_wait_to_contact [simp]: "no_wait (DoSync a sp)" "no_wait (to_contact p sm)"
  by (auto simp: to_contact_def sm_Reshuffling_def DoSync_def lowers_value_def Let_def intro!: no_wait_compose split: no_wait_splits)

lemma no_wait_response [simp]: "no_wait (Sync_PreChange_Check_EXC_Response env p sm)"
  by (auto simp: Sync_PreChange_Check_EXC_Response_def SyncP_PreChangeSend_def Let_def intro!: no_wait_compose split: no_wait_splits)

lemma no_wait_collect_pre [simp]: "no_wait (collect_pre env ps sm)"
  by (induction ps arbitrary: sm) (auto intro!: no_wait_compose)

lemma no_wait_collect_sync [simp]: "no_wait (collect_sync env ps sm)"
  by (induction ps arbitrary: sm) auto

lemma no_wait_steps [simp]:
  "no_wait (Sync_PreChange env i y sm)" "no_wait (Sync_SyncChange env i y sm)" "no_wait (Sync_DoChange i y sm)"
  "no_wait (Sync_Platform env i y sm)"
  by (auto simp: Sync_PreChange_def Sync_SyncChange_def Sync_DoChange_def Sync_Platform_def pre_change_body_def sync_change_body_def
      platform_body_def MapResources_def Let_def intro!: no_wait_compose split: no_wait_splits)

lemma no_wait_commit [simp]: "env_ready env \<Longrightarrow> no_wait (sm_SyncCommit env p sm)"
  by (auto simp: sm_SyncCommit_def sync_acquire_def Let_def intro!: no_wait_compose split: no_wait_splits)

lemma no_wait_Sync_PostChange [simp]: "env_ready env \<Longrightarrow> no_wait (Sync_PostChange env i y sm)"
  by (auto simp: Sync_PostChange_def post_change_body_def Let_def intro!: no_wait_compose split: no_wait_splits)

lemma no_wait_run_steps: "(\<And>f sm. f \<in> set fs \<Longrightarrow> no_wait (f sm)) \<Longrightarrow> no_wait (run_steps fs sm)"
  by (induction fs arbitrary: sm) (auto intro!: no_wait_compose split: no_wait_splits)

lemma no_wait_SyncApps [simp]: "env_ready env \<Longrightarrow> no_wait (SyncApps env i y sm)"
  by (auto simp: SyncApps_def simp del: run_steps.simps intro!: no_wait_run_steps)

lemma no_wait_SyncSchedule_loop [simp]: "env_ready env \<Longrightarrow> no_wait (SyncSchedule_loop fuel env i y sm)"
proof (induction fuel arbitrary: y sm)
  case 0
  then show ?case by (cases y) auto
next
  case (Suc fuel)
  then show ?case by (cases y) (auto intro!: no_wait_compose split: no_wait_splits)
qed

lemma no_wait_DisableFailedApps [simp]: "env_ready env \<Longrightarrow> no_wait (DisableFailedApps env ps sm)"
  by (induction ps arbitrary: sm) (auto intro!: no_wait_compose split: no_wait_splits)

lemma no_wait_SyncSchedule:
  assumes "env_ready env" "ra_status (sm_ra sm) = RA_READY"
  shows "no_wait (SyncSchedule env i sm)"
proof -
  have q: "sm_ra (snd (next_queue b sm')) = sm_ra sm'" for b sm'
    by (simp add: next_queue_def split: prod.splits)
  have "no_wait (start_session env (snd (next_queue True (sm\<lparr>sync_count := sync_count sm + 1\<rparr>))))"
    using assms q [of True "sm\<lparr>sync_count := sync_count sm + 1\<rparr>"]
    by (auto simp: start_session_def intro!: no_wait_compose no_wait_views split: no_wait_splits)
  then show ?thesis
    using assms(1) by (auto simp: SyncSchedule_def intro!: no_wait_compose split: no_wait_splits)
qed

section \<open>The platform stays ready\<close>

text \<open>No call that a scheduling run makes changes the state of the accounter.\<close>

named_theorems status

lemma status_fields [simp]:
  "ra_status (rsrc_set_insert v r ra) = ra_status ra" "ra_status (rsrc_set_erase v r ra) = ra_status ra"
  "ra_status (assign_upd a f ra) = ra_status ra" "ra_status (snd (GetPath mx s ra)) = ra_status ra"
  by (auto simp: rsrc_set_insert_def rsrc_set_erase_def assign_upd_def GetPath_def Let_def split: option.split)

lemma status_GetPath [status]: "GetPath mx s ra = (po, ra') \<Longrightarrow> ra_status ra' = ra_status ra"
  using status_fields(4) [of mx s ra] by simp

lemma status_DoResourceBooking_loop: "ra_status (snd (DoResourceBooking_loop u pol v rs req n ra)) = ra_status ra"
  by (induction rs arbitrary: req n ra)
    (auto simp: Let_def SchedResourceBooking_def SyncResourceBooking_def split: prod.split)

lemma status_DoResourceBooking [simp]: "ra_status (snd (DoResourceBooking u a v ra)) = ra_status ra"
  using status_DoResourceBooking_loop by (auto simp: DoResourceBooking_def case_prod_unfold Let_def)

lemma status_IncBookingCounts_loop [simp]: "ra_status (IncBookingCounts_loop m u v ra) = ra_status ra"
  by (induction m arbitrary: ra) auto

lemma status_BookResources [status]: "BookResources uo mo v ra = Inr (c, ra') \<Longrightarrow> ra_status ra' = ra_status ra"
  by (auto simp: BookResources_def IncBookingCounts_def split: option.splits if_splits sum.splits)

lemma status_UndoResourceBooking_loop [simp]: "ra_status (UndoResourceBooking_loop u am v rs n ra) = ra_status ra"
  by (induction rs arbitrary: n ra) (auto simp: Let_def split: prod.split)

lemma status_DecBookingCounts_loop [simp]: "ra_status (DecBookingCounts_loop m u v ra) = ra_status ra"
  by (induction m arbitrary: ra) (auto simp: UndoResourceBooking_def)

lemma status_ReleaseResources [simp]: "ra_status (ReleaseResources uo v ra) = ra_status ra"
proof -
  have "ra_status (ReleaseResources_view u w ra') = ra_status ra'" for u w ra'
    by (auto simp: ReleaseResources_view_def DecBookingCounts_def split: sum.split option.split)
  then show ?thesis by (auto simp: ReleaseResources_def Let_def split: option.split)
qed

lemma status_SetScheduledView [simp]: "ra_status (SetScheduledView v ra) = ra_status ra"
  by (auto simp: SetScheduledView_def PutView_unlocked_def Let_def split: option.split)

lemma status_CheckEXC: "CheckEXC levels ready alive p rel sys = Inr (b, am', ra') \<Longrightarrow> ra_status ra' = ra_status (snd sys)"
  by (auto simp: CheckEXC_def DisableEXC_def Let_def split: if_splits prod.splits elim!: seq_fault_InrE)

lemma status_CheckActive_loop:
  "CheckActive_loop fuel levels ready alive i po sys = Inr (Some (am', ra')) \<Longrightarrow> ra_status ra' = ra_status (snd sys)"
proof (induction fuel arbitrary: po sys)
  case 0
  then show ?case by (cases po) auto
next
  case (Suc fuel)
  then show ?case by (cases po) (auto elim!: seq_fault_InrE dest!: status_CheckEXC)
qed

lemma status_CheckActiveEXCs:
  "CheckActiveEXCs levels ready alive i sys = Inr (Some (am', ra')) \<Longrightarrow> ra_status ra' = ra_status (snd sys)"
  by (auto simp: CheckActiveEXCs_def CheckActive_of_def split: option.splits elim!: seq_fault_InrE dest!: status_CheckActive_loop)

section \<open>The rounds of the daemon\<close>

text \<open>A policy that is not suspended while the platform is ready, and leaves it ready.\<close>

definition prompt :: "SchedulerPolicy \<Rightarrow> bool" where
  "prompt pol \<longleftrightarrow> (\<forall>sys. ra_status (snd sys) = RA_READY \<longrightarrow> no_wait (pol sys) \<and>
     (\<forall>r v sys'. pol sys = Inr (r, v, sys') \<longrightarrow> ra_status (snd sys') = RA_READY))"

definition daemon_ready :: "ResourceManager \<Rightarrow> bool" where
  "daemon_ready rm \<longleftrightarrow> sd_WaitForReady (rm_sd rm) = Inr () \<and> WaitForPlatformReady (sm_ra (rm_sm rm)) = Inr ()"

lemma daemon_ready_iff: "daemon_ready rm \<longleftrightarrow> sd_state (rm_sd rm) = SD_READY \<and> ra_status (sm_ra (rm_sm rm)) = RA_READY"
  by (simp add: daemon_ready_def sd_WaitForReady_def WaitForPlatformReady_def)

lemma no_wait_CommitRunning [simp]: "no_wait (CommitRunningApplications i sm)"
  by (auto simp: CommitRunningApplications_def continue_body_def intro!: no_wait_compose split: no_wait_splits)

lemma status_CommitRunning:
  assumes "CommitRunningApplications i sm = Inr (Some sm')"
  shows "sm_ra sm' = sm_ra sm"
proof -
  from assms have w: "for_each (STATUS RUNNING) i continue_body (sm, ()) = Inr (Some (sm', ()))"
    by (auto simp: CommitRunningApplications_def elim!: seq_loop_Some)
  show ?thesis
  proof (rule for_each_invariant [OF w, where P = "\<lambda>s _. sm_ra s = sm_ra sm"])
    show "sm_ra s' = sm_ra sm \<and> it_map (iters (sm_am s') i) = it_map (iters (sm_am s) i)"
      if "sm_ra s = sm_ra sm" "continue_body p (s, acc) = Inr (s', acc')" for p s acc s' acc'
      using that by (auto simp: continue_body_def upd_app_def elim!: seq_fault_InrE dest!: AM_SyncContinue_result)
  qed simp_all
qed

lemma Schedule_prompt:
  assumes "\<And>pol. policy = Some pol \<Longrightarrow> prompt pol" "sd_state sd = SD_READY" "ra_status (sm_ra (sd_sys sd)) = RA_READY"
  shows "no_wait (Schedule env policy i sd)"
    "Schedule env policy i sd = Inr (Some (c, sd')) \<Longrightarrow> sd_state sd' = SD_READY \<and> ra_status (sm_ra (sd_sys sd')) = RA_READY"
proof -
  show "no_wait (Schedule env policy i sd)"
  proof (cases policy)
    case (Some pol)
    have p: "prompt pol" by (rule assms(1) [OF Some])
    show ?thesis
      using assms(2,3) p
      by (auto simp: Schedule_def Some Let_def sd_WaitForReady_def prompt_def dest!: status_CheckActiveEXCs
          intro!: no_wait_loop_result no_wait_seq_result split: no_wait_splits)
  qed (simp add: Schedule_def)
  show "sd_state sd' = SD_READY \<and> ra_status (sm_ra (sd_sys sd')) = RA_READY" if s: "Schedule env policy i sd = Inr (Some (c, sd'))"
  proof (cases policy)
    case (Some pol)
    have p: "prompt pol" by (rule assms(1) [OF Some])
    show ?thesis
      using assms(2,3) p s
      by (auto simp: Schedule_def Some Let_def sd_SetState_def prompt_def upd_sys_def
          dest!: status_CheckActiveEXCs status_CommitRunning elim!: seq_loop_Some seq_fault_InrE split: if_splits)
  qed (use s assms in \<open>simp add: Schedule_def\<close>)
qed

lemma no_wait_synchronise: "daemon_ready rm \<Longrightarrow> no_wait (synchronise env i rm)"
  by (auto simp: synchronise_def daemon_ready_iff sd_WaitForReady_def intro!: no_wait_compose no_wait_SyncSchedule split: no_wait_splits)

lemma no_wait_Optimize:
  assumes "daemon_ready rm" "\<And>pol. policy = Some pol \<Longrightarrow> prompt pol"
  shows "no_wait (Optimize env policy i rm)"
  using assms(1) Schedule_prompt [OF assms(2), where sd = "rm_sd rm"]
  by (auto simp: Optimize_def Let_def daemon_ready_iff SetReady_def intro!: no_wait_loop_result no_wait_synchronise split: no_wait_splits)

lemma no_wait_exit: "sd_state (rm_sd rm) = SD_READY \<Longrightarrow> no_wait (EvtBbqExit levels i rm)"
  by (auto simp: EvtBbqExit_def exit_body_def EvtBbqUsr1_def EvtBbqUsr2_def reset_event_def sd_WaitForReady_def Let_def
      intro!: no_wait_compose split: no_wait_splits)

lemma EvtExcStart_prompt:
  "no_wait (EvtExcStart cfg now i rm)"
  "EvtExcStart cfg now i rm = Inr (Some rm') \<Longrightarrow> sd_state (rm_sd rm') = sd_state (rm_sd rm)"
  by (auto simp: EvtExcStart_def Let_def upd_sm_def defer_opt_def intro!: no_wait_compose split: no_wait_splits elim!: seq_loop_Some)

lemma no_wait_dispatch: "sd_state (rm_sd rm) = SD_READY \<Longrightarrow> no_wait (dispatch cfg levels now i evts rm)"
proof (induction evts arbitrary: rm)
  case (Cons evt evts)
  then show ?case
    by (cases evt) (auto simp: Let_def reset_event_def EvtExcStop_def EvtBbqPlat_def EvtBbqOpts_def defer_opt_def
        intro!: no_wait_loop_result no_wait_exit EvtExcStart_prompt(1) dest!: EvtExcStart_prompt(2))
qed simp

text \<open>C12: no round of the daemon runs for ever. The loops of an optimisation, with the scheduling run and the
  synchronisation session in it, and of a round of the control loop, with the handlers of all the events, end
  whatever the policy decides and whatever applications and platform answer, when no other thread changes the
  state in between. And when the scheduler manager and the platform are ready no call in them is suspended
  either: an optimisation with a prompt policy (or none), and a round of the control loop that has an event
  pending, end with a result or with one of the other faults of the model.\<close>

theorem daemon_rounds_end:
  "Optimize env policy i rm \<noteq> Inr None \<and> ControlLoop cfg levels now i rm \<noteq> Inr None \<and>
   (daemon_ready rm \<longrightarrow>
      ((\<forall>pol. policy = Some pol \<longrightarrow> prompt pol) \<longrightarrow> Optimize env policy i rm \<noteq> Inl WouldBlock) \<and>
      (list_ex (pendingEvts rm) all_events \<longrightarrow> ControlLoop cfg levels now i rm \<noteq> Inl WouldBlock))"
proof (intro conjI impI)
  show "Optimize env policy i rm \<noteq> Inr None"
    by (auto simp: Optimize_def Let_def synchronise_ends Schedule_ends split: if_splits dest!: seq_loop_None)
  show "ControlLoop cfg levels now i rm \<noteq> Inr None"
    by (simp add: ControlLoop_def dispatch_ends)
  show "Optimize env policy i rm \<noteq> Inl WouldBlock" if "daemon_ready rm" "\<forall>pol. policy = Some pol \<longrightarrow> prompt pol"
    using no_wait_Optimize [OF that(1), of policy] that(2) by (simp add: no_wait_def)
  show "ControlLoop cfg levels now i rm \<noteq> Inl WouldBlock" if "daemon_ready rm" "list_ex (pendingEvts rm) all_events"
    using no_wait_dispatch [of rm cfg levels now i all_events] that by (simp add: ControlLoop_def daemon_ready_iff no_wait_def)
qed

section \<open>The grid policy is prompt\<close>

lemma status_mask_of_list [status]: "mask_of_list mx t rs ra b = Inr (b', ra') \<Longrightarrow> ra_status ra' = ra_status ra"
  by (induction rs arbitrary: ra b) (auto simp: Let_def split: prod.splits dest!: status elim!: seq_fault_InrE)

lemma status_GetMask_loop [status]: "GetMask_loop mx m t ra b = Inr (b', ra') \<Longrightarrow> ra_status ra' = ra_status ra"
  by (induction m arbitrary: ra b) (auto simp: Let_def split: prod.splits dest!: status elim!: seq_fault_InrE)

lemma status_GetMask_used_loop [status]: "GetMask_used_loop mx rs t st si p v ra b = Inr (b', ra') \<Longrightarrow> ra_status ra' = ra_status ra"
proof (induction rs arbitrary: ra b)
  case (Cons r rs)
  then show ?case
    by (auto simp: Let_def split: prod.splits option.splits if_splits dest!: status elim!: seq_fault_InrE)
qed simp

lemma status_GetMask_scoped_loop [status]:
  "GetMask_scoped_loop mx m t st si p v ra b = Inr (b', ra') \<Longrightarrow> ra_status ra' = ra_status ra"
proof (induction m arbitrary: ra b)
  case (Cons e m)
  then show ?case
    by (cases e) (auto simp: Let_def GetMask_used_def split: prod.splits option.splits if_splits dest!: status elim!: seq_fault_InrE)
qed simp

lemma status_new_binding_mask [status]: "new_binding_mask bd mx t v ra wm = Inr (b, ra') \<Longrightarrow> ra_status ra' = ra_status ra"
  by (auto simp: new_binding_mask_def GetMask_def GetMask_scoped_def Let_def split: prod.splits option.splits if_splits
      dest!: status elim!: seq_fault_InrE)

lemma status_UpdateBindingInfo_loop [status]:
  "UpdateBindingInfo_loop bd mx v c ts ra wm = Inr (ra', wm') \<Longrightarrow> ra_status ra' = ra_status ra"
proof (induction ts arbitrary: ra wm)
  case (Cons t ts)
  then show ?case
    by (auto simp: Let_def split: prod.splits option.splits if_splits dest!: status_new_binding_mask elim!: seq_fault_InrE)
qed simp

lemma status_SetResourceBinding [status]: "SetResourceBinding bd mx v n ra wm = Inr (c, ra', wm') \<Longrightarrow> ra_status ra' = ra_status ra"
  by (auto simp: SetResourceBinding_def UpdateBindingInfo_def Let_def split: prod.splits option.splits if_splits
      dest!: status_UpdateBindingInfo_loop elim!: seq_fault_InrE)

lemma status_ScheduleRequest [status]:
  "ScheduleRequest bd mx p wo v b sys = Inr (c, am', ra') \<Longrightarrow> ra_status ra' = ra_status (snd sys)"
  by (auto simp: ScheduleRequest_def Let_def split: prod.splits option.splits if_splits
      dest!: status_BookResources status_SetResourceBinding elim!: seq_fault_InrE)

lemma AssignWorkingMode_status:
  assumes "AssignWorkingMode cfg gb p (sm, es) = Inr (sm', es')"
  shows "ra_status (sm_ra sm') = ra_status (sm_ra sm) \<and> iters (sm_am sm') = iters (sm_am sm)"
  using assms
  by (auto simp: AssignWorkingMode_def clear_current_def entity_mode_def Total_str_def GetResources_def AddResourceRequest_def
      upd_awm_def upd_app_def Let_def split: prod.splits option.splits if_splits dest!: status_GetPath elim!: seq_fault_InrE)

lemma walk_status:
  assumes "for_each r i (AssignWorkingMode cfg gb) (sm, es) = Inr (Some (sm', es'))"
  shows "ra_status (sm_ra sm') = ra_status (sm_ra sm)"
proof (rule for_each_invariant [OF assms, where P = "\<lambda>s _. ra_status (sm_ra s) = ra_status (sm_ra sm)"])
  show "ra_status (sm_ra s') = ra_status (sm_ra sm) \<and> it_map (iters (sm_am s') i) = it_map (iters (sm_am s) i)"
    if "ra_status (sm_ra s) = ra_status (sm_ra sm)" "AssignWorkingMode cfg gb p (s, acc) = Inr (s', acc')" for p s acc s' acc'
    using AssignWorkingMode_status [OF that(2)] that(1) by simp
qed simp_all

lemma status_BindWorkingModesAndSched:
  "BindWorkingModesAndSched cfg gb po es n sys = Inr (am', ra') \<Longrightarrow> ra_status ra' = ra_status (snd sys)"
proof (induction es arbitrary: n sys)
  case (Cons e es)
  from Cons.prems obtain m sys1 where e: "sched_entity cfg gb po e n sys = Inr (m, sys1)"
    and b: "BindWorkingModesAndSched cfg gb po es m sys1 = Inr (am', ra')" by (auto elim!: seq_fault_InrE)
  have "ra_status (snd sys1) = ra_status (snd sys)"
    using e by (auto simp: sched_entity_def Let_def split: prod.splits option.splits if_splits dest!: status_ScheduleRequest
        elim!: seq_fault_InrE)
  then show ?case using Cons.IH [OF b] by simp
qed simp

lemma no_wait_BindWorkingModesAndSched [simp]: "no_wait (BindWorkingModesAndSched cfg gb po es n sys)"
proof (induction es arbitrary: n sys)
  case (Cons e es)
  have "no_wait (sched_entity cfg gb po e n sys)"
    by (auto simp: sched_entity_def Let_def intro!: no_wait_compose split: no_wait_splits)
  then show ?case using Cons by (auto intro!: no_wait_compose)
qed simp

lemma status_gb_Init: "gb_Init cfg sys gb = Inr (c, ra', gb') \<Longrightarrow> ra_status ra' = ra_status (snd sys)"
  by (auto simp: gb_Init_def GetView_def GetView_unlocked_def GetResources_def rsrc_views_emplace_def assign_views_emplace_def Let_def
      split: prod.splits option.splits if_splits dest!: status_GetPath elim!: seq_fault_InrE)

lemma grid_balance_prompt: "prompt (grid_balance cfg j gb)"
  unfolding prompt_def
proof (intro allI impI conjI)
  fix sys :: System assume ready: "ra_status (snd sys) = RA_READY"
  have init: "no_wait (gb_Init cfg sys gb)"
    using ready by (auto simp: gb_Init_def Let_def intro!: no_wait_compose no_wait_views split: no_wait_splits)
  have body: "no_wait (AssignWorkingMode cfg gb' p s)" for gb' p s
    by (auto simp: AssignWorkingMode_def clear_current_def Let_def intro!: no_wait_compose split: no_wait_splits)
  have "no_wait (gb_Schedule cfg j gb sys)"
    unfolding gb_Schedule_def ForEachReadyAndRunningDo_def Let_def
    using init body by (auto intro!: no_wait_compose split: no_wait_splits)
  then show "no_wait (grid_balance cfg j gb sys)"
    using gb_Schedule_ends [of cfg j gb sys] by (cases "gb_Schedule cfg j gb sys") (auto simp: grid_balance_def split: option.splits)
  fix r v sys' assume "grid_balance cfg j gb sys = Inr (r, v, sys')"
  then obtain c ra1 gb1 sm1 es1 sm2 es2 po ra2 where i: "gb_Init cfg sys gb = Inr (c, ra1, gb1)"
    and w1: "for_each (STATUS READY) j (AssignWorkingMode cfg gb1) (on_managers (fst sys, ra1), []) = Inr (Some (sm1, es1))"
    and w2: "for_each (STATUS RUNNING) j (AssignWorkingMode cfg gb1) (sm1, es1) = Inr (Some (sm2, es2))"
    and p: "GetPath (pc_mx cfg) pe_path (sm_ra sm2) = (po, ra2)"
    and b: "BindWorkingModesAndSched cfg gb1 po es2 0 (sm_am sm2, ra2) = Inr sys'"
    by (auto simp: grid_balance_def gb_Schedule_def ForEachReadyAndRunningDo_def Let_def split: option.splits prod.splits
        elim!: seq_fault_InrE seq_loop_Some)
  show "ra_status (snd sys') = RA_READY"
    using ready status_gb_Init [OF i] walk_status [OF w1] walk_status [OF w2] status_GetPath [OF p]
      status_BindWorkingModesAndSched [of cfg gb1 po es2 0 "(sm_am sm2, ra2)" "fst sys'" "snd sys'"] b
    by (simp add: on_managers_def)
qed

definition demo_delays :: RMConfig where
  "demo_delays = \<lparr>exc_start_defer = 200, exc_stop_defer = 200, opt_request_defer = 200, opt_interval = 0\<rparr>"

theorem daemon_rounds_end_witness:
  "daemon_ready demo_daemon \<and> Optimize demo_env (Some (grid_balance demo_config 2 demo_grid)) 1 demo_daemon \<noteq> Inl WouldBlock \<and>
   ControlLoop demo_delays 5 0 1 (NotifyEvent EXC_START demo_daemon) \<noteq> Inl WouldBlock"
proof -
  have r: "daemon_ready demo_daemon" "daemon_ready (NotifyEvent EXC_START demo_daemon)" by code_simp+
  moreover have "list_ex (pendingEvts (NotifyEvent EXC_START demo_daemon)) all_events"
    by (simp add: NotifyEvent_def all_events_def)
  ultimately show ?thesis
    using daemon_rounds_end [of demo_env "Some (grid_balance demo_config 2 demo_grid)" 1 demo_daemon]
      daemon_rounds_end [of demo_env None 1 "NotifyEvent EXC_START demo_daemon" demo_delays 5 0] grid_balance_prompt by blast
qed

end
