(* ===== verification/Process_Manager.thy ===== *)
theory Process_Manager
  imports App_Scheduling Accounter_Views
begin

text \<open>
  The process manager (\<^verbatim>\<open>bbque/process_manager.cc\<close>, \<^verbatim>\<open>bbque/app/process.cc\<close>): processes that are
  not integrated with the run-time library are managed by the name of their program. They are kept
  in one map for every state, and an iterator that walks a map is moved on when its entry is erased,
  with the iterators of \<^verbatim>\<open>include/bbque/utils/map_iterator.h\<close>.

  A notification answers whether it asks the resource manager for an optimisation. The options of the
  command line are given as \<open>getopt\<close> of the C library finds them, and the operating system tells by
  \<open>alive\<close> whether a process lives. The locks, logs and the printed status are left out.
\<close>

section \<open>State\<close>

datatype PRExitCode = PR_SUCCESS | PROCESS_NOT_SCHEDULED | PROCESS_NOT_SCHEDULABLE | PROCESS_NOT_FOUND |
  PROCESS_MISSING_AWM | PROCESS_WRONG_STATE | PROCESS_SCHED_REQ_REJECTED | PR_ABORT

type_synonym procptr = nat

record ProcRequest =
  cpu_cores :: u32
  acc_cores :: u32
  memory_mb :: u32

record ProcessInstancesInfo =
  sched_req :: ProcRequest
  pid_set :: "u32 set"

record ProcessManager =
  pr_objs :: "procptr \<Rightarrow> Schedulable"
  pr_alloc :: procptr
  all_procs :: "(u32, procptr) omap"
  managed_procs :: "string \<rightharpoonup> ProcessInstancesInfo"
  state_procs :: "State \<Rightarrow> (u32, procptr) omap"
  state_retain :: "State \<Rightarrow> itptr list"
  pr_iters :: "itptr \<Rightarrow> AppsUidMapIt"

definition all_states :: "State list" where
  "all_states = [NEW, READY, SYNC, RUNNING, FINISHED]"

definition ProcessManager_new :: ProcessManager where
  "ProcessManager_new =
     \<lparr>pr_objs = (\<lambda>_. Process_new NEW 0 [] 0 0 READY SYNC_NONE), pr_alloc = 0, all_procs = [], managed_procs = Map.empty,
      state_procs = (\<lambda>_. []), state_retain = (\<lambda>_. []), pr_iters = (\<lambda>_. AppsUidMapIt_new)\<rparr>"

definition upd_state :: "State \<Rightarrow> ((u32, procptr) omap \<Rightarrow> (u32, procptr) omap) \<Rightarrow> ProcessManager \<Rightarrow> ProcessManager" where
  "upd_state st f pm = pm\<lparr>state_procs := (state_procs pm)(st := f (state_procs pm st))\<rparr>"

abbreviation upd_proc :: "procptr \<Rightarrow> Schedulable \<Rightarrow> ProcessManager \<Rightarrow> ProcessManager" where
  "upd_proc p s pm \<equiv> pm\<lparr>pr_objs := (pr_objs pm)(p := s)\<rparr>"

section \<open>Managed programs\<close>

definition pr_Add :: "string \<Rightarrow> ProcessManager \<Rightarrow> ProcessManager" where
  "pr_Add name pm =
     (if managed_procs pm name = None
      then pm\<lparr>managed_procs := (managed_procs pm)(name \<mapsto>
             \<lparr>sched_req = \<lparr>cpu_cores = 0, acc_cores = 0, memory_mb = 0\<rparr>, pid_set = {}\<rparr>)\<rparr>
      else pm)"

definition pr_Remove :: "string \<Rightarrow> ProcessManager \<Rightarrow> ProcessManager" where
  "pr_Remove name pm = pm\<lparr>managed_procs := (managed_procs pm)(name := None)\<rparr>"

definition IsToManage :: "string \<Rightarrow> ProcessManager \<Rightarrow> bool" where
  "IsToManage name pm \<longleftrightarrow> managed_procs pm name \<noteq> None"

text \<open>The options of the request for a schedule, one after the other.\<close>

fun sched_options :: "(char \<times> string) list \<Rightarrow> string \<times> ProcRequest \<times> ProcessManager \<Rightarrow> string \<times> ProcRequest \<times> ProcessManager" where
  "sched_options [] s = s"
| "sched_options ((c, arg) # os) (name, req, pm) =
     sched_options os
       (if c = CHR ''n'' then (arg, req, pr_Add arg pm)
        else if c = CHR ''c'' then (name, req\<lparr>cpu_cores := word_of_int (atoi arg)\<rparr>, pm)
        else if c = CHR ''a'' then (name, req\<lparr>acc_cores := word_of_int (atoi arg)\<rparr>, pm)
        else if c = CHR ''m'' then (name, req\<lparr>memory_mb := word_of_int (atoi arg)\<rparr>, pm)
        else (name, req, pm))"

definition CommandManageSetSchedule :: "(char \<times> string) list \<Rightarrow> ProcessManager \<Rightarrow> ProcessManager" where
  "CommandManageSetSchedule opts pm =
     (case sched_options opts ([], \<lparr>cpu_cores = 0, acc_cores = 0, memory_mb = 0\<rparr>, pm) of
        (name, req, pm1) \<Rightarrow>
          if name = [] then pm1
          else case managed_procs (pr_Add name pm1) name of
            None \<Rightarrow> pm1
          | Some info \<Rightarrow> pm1\<lparr>managed_procs := (managed_procs pm1)(name \<mapsto> info\<lparr>sched_req := req\<rparr>)\<rparr>)"

text \<open>The words of a command line; a word that is missing is a null pointer.\<close>

definition pr_CommandsCb :: "(string list \<Rightarrow> (char \<times> string) list) \<Rightarrow> string list \<Rightarrow> ProcessManager \<Rightarrow> fault + int \<times> ProcessManager" where
  "pr_CommandsCb getopt argv pm =
     (case argv of
        [] \<Rightarrow> Inl NullDeref
      | command_name # args \<Rightarrow>
          if command_name = ''bq.prm.add''
          then (case args of [] \<Rightarrow> Inl NullDeref | arg1 # _ \<Rightarrow> Inr (0, pr_Add arg1 pm))
          else if command_name = ''bq.prm.remove''
          then (case args of [] \<Rightarrow> Inl NullDeref | arg1 # _ \<Rightarrow> Inr (0, pr_Remove arg1 pm))
          else if command_name = ''bq.prm.setsched'' then Inr (0, CommandManageSetSchedule (getopt argv) pm)
          else Inr (- 1, pm))"

section \<open>Iterators and changes of state\<close>

definition procs_of :: "AppsUidMapIt \<Rightarrow> ProcessManager \<Rightarrow> fault + (u32, procptr) omap" where
  "procs_of ait pm = (case it_map ait of Some (STATUS st) \<Rightarrow> Inr (state_procs pm st) | _ \<Rightarrow> Inl NullDeref)"

abbreviation upd_pit :: "itptr \<Rightarrow> AppsUidMapIt \<Rightarrow> ProcessManager \<Rightarrow> ProcessManager" where
  "upd_pit i ait pm \<equiv> pm\<lparr>pr_iters := (pr_iters pm)(i := ait)\<rparr>"

fun pr_UpdateIterators :: "itptr list \<Rightarrow> u32 \<Rightarrow> ProcessManager \<Rightarrow> fault + ProcessManager" where
  "pr_UpdateIterators [] pid pm = Inr pm"
| "pr_UpdateIterators (i # is) pid pm =
     (let ait = pr_iters pm i in
      case it_pos ait of
        None \<Rightarrow> Inl OutOfRange
      | Some k \<Rightarrow>
          if k \<noteq> pid then pr_UpdateIterators is pid pm
          else seq_fault (procs_of ait pm) (\<lambda>m.
            seq_fault (next_key (Some k) m) (\<lambda>pos.
              pr_UpdateIterators is pid (upd_pit i (ait\<lparr>it_pos := pos, it_updated := True\<rparr>) pm))))"

definition pit_Get :: "AppsUidMapIt \<Rightarrow> ProcessManager \<Rightarrow> fault + procptr" where
  "pit_Get ait pm =
     seq_fault (procs_of ait pm) (\<lambda>m.
       case it_pos ait of
         None \<Rightarrow> Inl OutOfRange
       | Some k \<Rightarrow> (case om_find m k of None \<Rightarrow> Inl Dangling | Some p \<Rightarrow> Inr p))"

definition pr_GetFirst :: "State \<Rightarrow> itptr \<Rightarrow> ProcessManager \<Rightarrow> fault + procptr option \<times> ProcessManager" where
  "pr_GetFirst st i pm =
     (let ait = (pr_iters pm i)\<lparr>it_map := Some (STATUS st), it_ret := Some (STATUS st), it_pos := begin_key (state_procs pm st)\<rparr>;
          pm1 = upd_pit i ait pm
      in if it_pos ait = None then Inr (None, pm1)
         else seq_fault (pit_Get ait pm1) (\<lambda>p.
           Inr (Some p, pm1\<lparr>state_retain := (state_retain pm1)(st := i # state_retain pm1 st)\<rparr>)))"

definition pr_GetNext :: "itptr \<Rightarrow> ProcessManager \<Rightarrow> fault + procptr option \<times> ProcessManager" where
  "pr_GetNext i pm =
     (let ait = pr_iters pm i in
      seq_fault (if it_updated ait then Inr (ait\<lparr>it_updated := False\<rparr>)
                 else seq_fault (procs_of ait pm) (\<lambda>m.
                   seq_fault (next_key (it_pos ait) m) (\<lambda>pos. Inr (ait\<lparr>it_pos := pos\<rparr>)))) (\<lambda>ait1.
        if it_pos ait1 = None
        then Inr (None,
          case it_ret ait1 of
            Some (STATUS st) \<Rightarrow>
              upd_pit i (ait1\<lparr>it_ret := None\<rparr>) (pm\<lparr>state_retain := (state_retain pm)(st := removeAll i (state_retain pm st))\<rparr>)
          | _ \<Rightarrow> upd_pit i ait1 pm)
        else seq_fault (pit_Get ait1 pm) (\<lambda>p. Inr (Some p, upd_pit i ait1 pm))))"

text \<open>The answer of the change of the state of the process is not looked at.\<close>

definition ChangeState :: "procptr \<Rightarrow> State \<Rightarrow> SyncState \<Rightarrow> ProcessManager \<Rightarrow> fault + PRExitCode \<times> ProcessManager" where
  "ChangeState p to_state next_sync pm =
     (let proc = pr_objs pm p; from_state = sch_state proc; pid = sch_pid proc in
      if om_find (state_procs pm from_state) pid = None then Inr (PROCESS_NOT_FOUND, pm)
      else if from_state = to_state then Inr (PR_SUCCESS, pm)
      else let pm1 = upd_state to_state (om_insert pid p) pm in
        seq_fault (pr_UpdateIterators (state_retain pm1 from_state) pid pm1) (\<lambda>pm2.
          seq_fault (Sched_SetState to_state next_sync proc) (\<lambda>(_, proc1).
            Inr (PR_SUCCESS, upd_proc p proc1 (upd_state from_state (om_erase pid) pm2)))))"

section \<open>Start and exit\<close>

text \<open>The constructor of a process leaves its value unset.\<close>

definition NotifyStart :: "rat \<Rightarrow> string \<Rightarrow> u32 \<Rightarrow> ProcessManager \<Rightarrow> fault + bool \<times> ProcessManager" where
  "NotifyStart unset_value name pid pm =
     (case managed_procs pm name of
        None \<Rightarrow> Inr (False, pm)
      | Some info \<Rightarrow>
          let p = pr_alloc pm; proc = Process_new NEW unset_value name pid 0 READY SYNC_NONE;
              pm1 = pm\<lparr>managed_procs := (managed_procs pm)(name \<mapsto> info\<lparr>pid_set := insert pid (pid_set info)\<rparr>)\<rparr>
          in seq_fault (Sched_SetState READY SYNC_NONE proc) (\<lambda>(_, proc1).
               let pm2 = upd_state READY (om_insert pid p) (upd_proc p proc1 (pm1\<lparr>pr_alloc := p + 1\<rparr>))
               in Inr (True, pm2\<lparr>all_procs := om_insert pid p (all_procs pm2)\<rparr>)))"

fun find_proc :: "u32 \<Rightarrow> State list \<Rightarrow> ProcessManager \<Rightarrow> procptr option" where
  "find_proc pid [] pm = None"
| "find_proc pid (st # sts) pm =
     (case om_find (state_procs pm st) pid of None \<Rightarrow> find_proc pid sts pm | Some p \<Rightarrow> Some p)"

definition NotifyExit_pid :: "u32 \<Rightarrow> ProcessManager \<Rightarrow> fault + bool \<times> ProcessManager" where
  "NotifyExit_pid pid pm =
     (case find_proc pid all_states pm of
        None \<Rightarrow> Inr (False, pm)
      | Some p \<Rightarrow> seq_fault (ChangeState p SYNC DISABLED pm) (\<lambda>(ret, pm1). Inr (ret = PR_SUCCESS, pm1)))"

definition NotifyExit :: "string \<Rightarrow> u32 \<Rightarrow> ProcessManager \<Rightarrow> fault + bool \<times> ProcessManager" where
  "NotifyExit name pid pm = (if IsToManage name pm then NotifyExit_pid pid pm else Inr (False, pm))"

section \<open>Queries\<close>

definition HasProcesses :: "ProcessManager \<Rightarrow> bool" where
  "HasProcesses pm \<longleftrightarrow> all_procs pm \<noteq> []"

definition HasProcesses_state :: "State \<Rightarrow> ProcessManager \<Rightarrow> bool" where
  "HasProcesses_state st pm \<longleftrightarrow> state_procs pm st \<noteq> []"

definition HasProcesses_sync :: "SyncState \<Rightarrow> ProcessManager \<Rightarrow> bool" where
  "HasProcesses_sync y pm \<longleftrightarrow> list_ex (\<lambda>(_, p). syncState (pr_objs pm p) = y) (state_procs pm SYNC)"

definition GetProcess :: "u32 \<Rightarrow> ProcessManager \<Rightarrow> procptr option" where
  "GetProcess pid pm = om_find (all_procs pm) pid"

definition ProcessesCount :: "State \<Rightarrow> ProcessManager \<Rightarrow> u32" where
  "ProcessesCount st pm = of_nat (length (state_procs pm st))"

section \<open>Scheduling\<close>

definition pr_Unschedule :: "procptr \<Rightarrow> ProcessManager \<Rightarrow> fault + PRExitCode \<times> ProcessManager" where
  "pr_Unschedule p pm =
     seq_fault (ChangeState p SYNC BLOCKED pm) (\<lambda>(ret, pm1).
       Inr (if ret \<noteq> PR_SUCCESS then PROCESS_SCHED_REQ_REJECTED else PR_SUCCESS, pm1))"

definition pr_NoSchedule :: "procptr \<Rightarrow> ProcessManager \<Rightarrow> fault + PRExitCode \<times> ProcessManager" where
  "pr_NoSchedule p pm = ChangeState p SYNC BLOCKED pm"

definition pr_Reschedule :: "int \<Rightarrow> procptr \<Rightarrow> awmptr \<Rightarrow> ProcessManager \<Rightarrow> fault + PRExitCode \<times> ProcessManager" where
  "pr_Reschedule mx p w pm =
     seq_fault (NextSyncState mx w (pr_objs pm p)) (\<lambda>next_sync.
       if next_sync = SYNC_NONE then Inr (PR_SUCCESS, pm)
       else seq_fault (ChangeState p SYNC next_sync pm) (\<lambda>(ret, pm1).
         if ret \<noteq> PR_SUCCESS then Inr (PROCESS_SCHED_REQ_REJECTED, pm1)
         else Inr (PR_SUCCESS, upd_proc p (SetNextAWM (Some w) (pr_objs pm1 p)) pm1)))"

definition upd_pawm :: "procptr \<Rightarrow> awmptr \<Rightarrow> WorkingMode \<Rightarrow> ProcessManager \<Rightarrow> ProcessManager" where
  "upd_pawm p w wm pm = upd_proc p ((pr_objs pm p)\<lparr>awm_objs := (awm_objs (pr_objs pm p))(w := wm)\<rparr>) pm"

definition pr_ScheduleRequest :: "(nat \<Rightarrow> AssignMap option) \<Rightarrow> int \<Rightarrow> procptr \<Rightarrow> awmptr option \<Rightarrow> RViewToken \<Rightarrow> nat \<Rightarrow>
    ProcessManager \<times> ResourceAccounter \<Rightarrow> fault + PRExitCode \<times> ProcessManager \<times> ResourceAccounter" where
  "pr_ScheduleRequest beyond mx p awm_ptr status_view b_refn s =
     (case s of (pm, ra) \<Rightarrow>
      case awm_ptr of
        None \<Rightarrow> Inr (PROCESS_MISSING_AWM, pm, ra)
      | Some w \<Rightarrow>
          let proc = pr_objs pm p; uid = Some (sch_pid proc) in
          seq_fault (BookResources uid (GetSchedResourceBinding b_refn (awm_objs proc w)) status_view ra) (\<lambda>(ra_result, ra1).
            if ra_result \<noteq> RA_SUCCESS
            then seq_fault (pr_Unschedule p pm) (\<lambda>(_, pm1). Inr (PROCESS_NOT_SCHEDULABLE, pm1, ra1))
            else seq_fault (SetResourceBinding beyond mx status_view b_refn ra1 (awm_objs proc w)) (\<lambda>(wm_result, ra2, wm).
              let pm1 = upd_pawm p w wm pm in
              if wm_result \<noteq> WM_SUCCESS then Inr (PROCESS_SCHED_REQ_REJECTED, pm1, ra2)
              else seq_fault (pr_Reschedule mx p w pm1) (\<lambda>(ret, pm2).
                if ret \<noteq> PR_SUCCESS
                then Inr (ret, upd_pawm p w (ClearResourceBinding mx (awm_objs (pr_objs pm2 p) w)) pm2,
                       ReleaseResources uid status_view ra2)
                else Inr (PR_SUCCESS, pm2, ra2)))))"

definition pr_ScheduleRequestAsPrev :: "(nat \<Rightarrow> AssignMap option) \<Rightarrow> int \<Rightarrow> procptr \<Rightarrow> RViewToken \<Rightarrow>
    ProcessManager \<times> ResourceAccounter \<Rightarrow> fault + PRExitCode \<times> ProcessManager \<times> ResourceAccounter" where
  "pr_ScheduleRequestAsPrev beyond mx p status_view s =
     pr_ScheduleRequest beyond mx p (awm (pr_objs (fst s) p)) status_view 0 s"

section \<open>Synchronisation\<close>

fun release_proc :: "u32 \<Rightarrow> State list \<Rightarrow> ProcessManager \<Rightarrow> fault + ProcessManager" where
  "release_proc pid [] pm = Inr pm"
| "release_proc pid (st # sts) pm =
     (if om_find (state_procs pm st) pid = None then release_proc pid sts pm
      else seq_fault (pr_UpdateIterators (state_retain pm FINISHED) pid pm) (\<lambda>pm1.
        release_proc pid sts (upd_state st (om_erase pid) pm1)))"

definition pr_SyncCommit :: "procptr \<Rightarrow> ProcessManager \<Rightarrow> fault + PRExitCode \<times> ProcessManager" where
  "pr_SyncCommit p pm =
     (let proc = pr_objs pm p in
      if Sched_Synching proc \<and> \<not> Blocking proc \<and> \<not> Disabled proc then ChangeState p RUNNING SYNC_NONE pm
      else if Blocking proc
      then seq_fault (ChangeState p READY SYNC_NONE pm) (\<lambda>(ret, pm1).
             Inr (if ret \<noteq> PR_SUCCESS then PROCESS_SCHED_REQ_REJECTED else PR_SUCCESS, pm1))
      else if Disabled proc
      then seq_fault (release_proc (sch_pid proc) all_states pm) (\<lambda>pm1.
             Inr (PR_SUCCESS, pm1\<lparr>all_procs := om_erase (sch_pid proc) (all_procs pm1)\<rparr>))
      else Inr (PR_SUCCESS, pm))"

definition pr_SyncAbort :: "(u32 \<Rightarrow> bool) \<Rightarrow> procptr \<Rightarrow> ProcessManager \<Rightarrow> fault + PRExitCode \<times> ProcessManager" where
  "pr_SyncAbort alive p pm =
     (if alive (sch_pid (pr_objs pm p)) then ChangeState p READY SYNC_NONE pm else ChangeState p SYNC DISABLED pm)"

definition pr_SyncContinue :: "procptr \<Rightarrow> ProcessManager \<Rightarrow> fault + PRExitCode \<times> ProcessManager" where
  "pr_SyncContinue p pm =
     (if sch_state (pr_objs pm p) \<noteq> RUNNING then Inr (PROCESS_NOT_SCHEDULABLE, pm) else ChangeState p RUNNING SYNC_NONE pm)"

text \<open>A manager of one program with one process, the process ready or in synchronisation.\<close>

definition demo_started :: ProcessManager where
  "demo_started =
     (case NotifyStart 0 ''a'' 7 (pr_Add ''a'' ProcessManager_new) of Inr (_, pm) \<Rightarrow> pm | Inl _ \<Rightarrow> ProcessManager_new)"

definition demo_syncing :: "SyncState \<Rightarrow> ProcessManager" where
  "demo_syncing y = (case ChangeState 0 SYNC y demo_started of Inr (_, pm) \<Rightarrow> pm | Inl _ \<Rightarrow> demo_started)"

definition demo_rescheduled :: ProcessManager where
  "demo_rescheduled = (case pr_Reschedule 31 0 0 demo_started of Inr (_, pm) \<Rightarrow> pm | Inl _ \<Rightarrow> demo_started)"

section \<open>Every process is in the map of its state\<close>

definition proc_placed :: "ProcessManager \<Rightarrow> u32 \<Rightarrow> bool" where
  "proc_placed pm pid \<longleftrightarrow>
     (case GetProcess pid pm of
        None \<Rightarrow> \<forall>st. om_find (state_procs pm st) pid = None
      | Some p \<Rightarrow>
          sch_pid (pr_objs pm p) = pid \<and> p < pr_alloc pm \<and>
          (sch_state (pr_objs pm p) = SYNC \<longleftrightarrow> syncState (pr_objs pm p) \<noteq> SYNC_NONE) \<and>
          (\<forall>st. om_find (state_procs pm st) pid = (if st = sch_state (pr_objs pm p) then Some p else None)))"

definition procs_ok :: "ProcessManager \<Rightarrow> bool" where
  "procs_ok pm \<longleftrightarrow> om_ok (all_procs pm) \<and> (\<forall>st. om_ok (state_procs pm st)) \<and> (\<forall>pid. proc_placed pm pid)"

lemma ProcessManager_new_ok: "procs_ok ProcessManager_new"
  by (simp add: ProcessManager_new_def procs_ok_def proc_placed_def GetProcess_def)

abbreviation known :: "ProcessManager \<Rightarrow> procptr \<Rightarrow> bool" where
  "known pm p \<equiv> GetProcess (sch_pid (pr_objs pm p)) pm = Some p"

lemma procs_okD:
  assumes "procs_ok pm" "GetProcess pid pm = Some p"
  shows "sch_pid (pr_objs pm p) = pid" "p < pr_alloc pm" "sch_state (pr_objs pm p) = SYNC \<longleftrightarrow> syncState (pr_objs pm p) \<noteq> SYNC_NONE"
    "om_find (state_procs pm st) pid = (if st = sch_state (pr_objs pm p) then Some p else None)"
proof -
  have "proc_placed pm pid" using assms(1) by (simp add: procs_ok_def)
  then show "sch_pid (pr_objs pm p) = pid" "p < pr_alloc pm" "sch_state (pr_objs pm p) = SYNC \<longleftrightarrow> syncState (pr_objs pm p) \<noteq> SYNC_NONE"
    "om_find (state_procs pm st) pid = (if st = sch_state (pr_objs pm p) then Some p else None)"
    using assms(2) by (auto simp: proc_placed_def)
qed

lemma procs_ok_known: "procs_ok pm \<Longrightarrow> GetProcess pid pm = Some p \<Longrightarrow> known pm p"
  using procs_okD(1) by simp

text \<open>A change that concerns one process.\<close>

lemma procs_ok_local:
  assumes "procs_ok pm" "known pm p" "om_ok (all_procs pm')" "\<And>st. om_ok (state_procs pm' st)"
    "\<And>q. q \<noteq> p \<Longrightarrow> pr_objs pm' q = pr_objs pm q" "pr_alloc pm \<le> pr_alloc pm'"
    "\<And>pid. pid \<noteq> sch_pid (pr_objs pm p) \<Longrightarrow> GetProcess pid pm' = GetProcess pid pm \<and> (\<forall>st. om_find (state_procs pm' st) pid = om_find (state_procs pm st) pid)"
    "proc_placed pm' (sch_pid (pr_objs pm p))"
  shows "procs_ok pm'"
proof -
  have "proc_placed pm' pid" if "pid \<noteq> sch_pid (pr_objs pm p)" for pid
  proof (cases "GetProcess pid pm")
    case None
    then show ?thesis using assms(1,7) that by (simp add: procs_ok_def proc_placed_def split: option.splits) metis
  next
    case (Some q)
    have "q \<noteq> p" using procs_okD(1) [OF assms(1) Some] that by auto
    then show ?thesis using procs_okD [OF assms(1) Some] assms(5) [of q] assms(6) assms(7) [OF that] Some
      by (simp add: proc_placed_def)
  qed
  then have "proc_placed pm' pid" for pid using assms(8) by (cases "pid = sch_pid (pr_objs pm p)") simp_all
  then show ?thesis using assms(3,4) by (simp add: procs_ok_def)
qed

lemma pr_UpdateIterators_only: "pr_UpdateIterators is pid pm = Inr pm' \<Longrightarrow> \<exists>its. pm' = pm\<lparr>pr_iters := its\<rparr>"
proof (induction "is" pid pm rule: pr_UpdateIterators.induct)
  case (1 pid pm)
  then show ?case by (intro exI [of _ "pr_iters pm"]) simp
next
  case (2 i "is" pid pm)
  then show ?case by (fastforce simp: Let_def split: option.splits if_splits elim!: seq_fault_InrE)
qed

lemma procs_ok_cong:
  assumes "pr_objs pm' = pr_objs pm" "pr_alloc pm' = pr_alloc pm" "all_procs pm' = all_procs pm" "state_procs pm' = state_procs pm"
  shows "procs_ok pm' = procs_ok pm"
  unfolding procs_ok_def proc_placed_def GetProcess_def assms ..

lemma procs_ok_irrelevant [simp]:
  "procs_ok (pm\<lparr>managed_procs := m\<rparr>) = procs_ok pm" "procs_ok (pm\<lparr>pr_iters := its\<rparr>) = procs_ok pm"
  "procs_ok (pm\<lparr>state_retain := rs\<rparr>) = procs_ok pm"
  by (rule procs_ok_cong; simp)+

lemma procs_ok_managed [simp]: "procs_ok (pr_Add name pm) = procs_ok pm" "procs_ok (pr_Remove name pm) = procs_ok pm"
  by (simp_all add: pr_Add_def pr_Remove_def)

lemma ChangeState_outcome:
  assumes "ChangeState p to y pm = Inr (e, pm')" "procs_ok pm" "known pm p" "to = SYNC \<longleftrightarrow> y \<noteq> SYNC_NONE"
  shows "procs_ok pm' \<and> all_procs pm' = all_procs pm \<and> sch_pid (pr_objs pm' p) = sch_pid (pr_objs pm p) \<and> e = PR_SUCCESS \<and>
    (if sch_state (pr_objs pm p) = to then pm' = pm else sch_state (pr_objs pm' p) = to \<and> syncState (pr_objs pm' p) = y)"
proof -
  let ?s = "pr_objs pm p" and ?pid = "sch_pid (pr_objs pm p)"
  note ok = procs_okD [OF assms(2,3)]
  show ?thesis
  proof (cases "sch_state ?s = to")
    case True
    then show ?thesis using assms(1,2) ok(4) [of "sch_state ?s"] by (simp add: ChangeState_def Let_def)
  next
    case False
    with assms(1) ok(4) [of "sch_state ?s"] obtain pm2 r s' where
      u: "pr_UpdateIterators (state_retain pm (sch_state ?s)) ?pid (upd_state to (om_insert ?pid p) pm) = Inr pm2"
      and s: "Sched_SetState to y ?s = Inr (r, s')" and e: "e = PR_SUCCESS"
      and pm': "pm' = upd_proc p s' (upd_state (sch_state ?s) (om_erase ?pid) pm2)"
      by (auto simp: ChangeState_def Let_def upd_state_def elim!: seq_fault_InrE)
    obtain its where pm2: "pm2 = (upd_state to (om_insert ?pid p) pm)\<lparr>pr_iters := its\<rparr>" using pr_UpdateIterators_only [OF u] by blast
    have "r = APP_SUCCESS" using s assms(4) by (auto elim: Sched_SetState_cases)
    note st = Sched_SetState_result [OF s [unfolded this]] Sched_SetState_keeps(2) [OF s]
    have om: "om_ok (state_procs pm st)" for st using assms(2) by (simp add: procs_ok_def)
    have maps: "state_procs pm' = (state_procs pm)(to := om_insert ?pid p (state_procs pm to), sch_state ?s := om_erase ?pid (state_procs pm (sch_state ?s)))"
      using False by (simp add: pm' pm2 upd_state_def)
    have rest: "all_procs pm' = all_procs pm" "pr_alloc pm' = pr_alloc pm" "pr_objs pm' = (pr_objs pm)(p := s')"
      by (simp_all add: pm' pm2 upd_state_def)
    have "procs_ok pm'"
    proof (rule procs_ok_local [OF assms(2,3)])
      show "proc_placed pm' ?pid"
        using assms(3,4) ok st om False by (auto simp: proc_placed_def GetProcess_def rest maps)
    qed (use assms(2) om False in \<open>auto simp: rest maps GetProcess_def procs_ok_def\<close>)
    then show ?thesis using False st e rest by simp
  qed
qed

lemma procs_ok_upd_proc:
  assumes "procs_ok pm" "known pm p" "sch_pid s = sch_pid (pr_objs pm p)" "sch_state s = sch_state (pr_objs pm p)"
    "syncState s = syncState (pr_objs pm p)"
  shows "procs_ok (upd_proc p s pm) \<and> known (upd_proc p s pm) p"
proof
  show "procs_ok (upd_proc p s pm)"
    by (rule procs_ok_local [OF assms(1,2)])
      (use assms procs_okD [OF assms(1,2)] in \<open>auto simp: procs_ok_def proc_placed_def GetProcess_def\<close>)
qed (use assms in \<open>simp add: GetProcess_def\<close>)

lemma pr_Unschedule_ok:
  assumes "pr_Unschedule p pm = Inr (e, pm')" "procs_ok pm" "known pm p"
  shows "procs_ok pm'"
  using assms ChangeState_outcome [of p SYNC BLOCKED pm] by (auto simp: pr_Unschedule_def elim!: seq_fault_InrE)

lemma pr_Reschedule_ok:
  assumes "pr_Reschedule mx p w pm = Inr (e, pm')" "procs_ok pm" "known pm p"
  shows "procs_ok pm' \<and> known pm' p"
proof -
  obtain y where y: "NextSyncState mx w (pr_objs pm p) = Inr y" using assms(1) by (auto simp: pr_Reschedule_def elim!: seq_fault_InrE)
  show ?thesis
  proof (cases "y = SYNC_NONE")
    case False
    with assms(1) y obtain r pm1 where c: "ChangeState p SYNC y pm = Inr (r, pm1)"
      and pm': "pm' = (if r \<noteq> PR_SUCCESS then pm1 else upd_proc p (SetNextAWM (Some w) (pr_objs pm1 p)) pm1)"
      by (auto simp: pr_Reschedule_def split: if_splits elim!: seq_fault_InrE)
    have o: "procs_ok pm1" "known pm1 p" using ChangeState_outcome [OF c assms(2,3)] False assms(3) by (auto simp: GetProcess_def)
    show ?thesis using procs_ok_upd_proc [OF o, of "SetNextAWM (Some w) (pr_objs pm1 p)"] o by (simp add: pm' SetNextAWM_def)
  qed (use assms y in \<open>simp add: pr_Reschedule_def\<close>)
qed

lemma pr_ScheduleRequest_ok:
  assumes "pr_ScheduleRequest beyond mx p wp v b (pm, ra) = Inr (e, pm', ra')" "procs_ok pm" "known pm p"
  shows "procs_ok pm'"
proof -
  have wm: "procs_ok (upd_pawm p w wm pm1) \<and> known (upd_pawm p w wm pm1) p" if "procs_ok pm1 \<and> known pm1 p" for w wm pm1
    using procs_ok_upd_proc [of pm1 p "(pr_objs pm1 p)\<lparr>awm_objs := (awm_objs (pr_objs pm1 p))(w := wm)\<rparr>"] that by (simp add: upd_pawm_def)
  consider "pm' = pm" | e1 where "pr_Unschedule p pm = Inr (e1, pm')" | w wm where "pm' = upd_pawm p w wm pm"
    | w wm e1 pm2 where "pr_Reschedule mx p w (upd_pawm p w wm pm) = Inr (e1, pm2)" "pm' = pm2 \<or> (\<exists>wm. pm' = upd_pawm p w wm pm2)"
    using assms(1) unfolding pr_ScheduleRequest_def Let_def
    by (auto split: option.splits if_splits elim!: seq_fault_InrE) blast+
  then show ?thesis
  proof cases
    case (4 w wm e1 pm2)
    then show ?thesis using pr_Reschedule_ok [OF 4(1)] wm assms(2,3) by blast
  qed (use assms wm pr_Unschedule_ok in auto)
qed

lemma release_proc_result:
  "release_proc pid sts pm = Inr pm' \<Longrightarrow> \<exists>its. pm' = pm\<lparr>pr_iters := its, state_procs := state_procs pm'\<rparr> \<and>
     (\<forall>st. state_procs pm' st = (if st \<in> set sts then om_erase pid (state_procs pm st) else state_procs pm st))"
proof (induction sts arbitrary: pm)
  case Nil
  then show ?case by (intro exI [of _ "pr_iters pm"]) simp
next
  case (Cons st sts)
  show ?case
  proof (cases "om_find (state_procs pm st) pid")
    case None
    then have e: "om_erase pid (state_procs pm st) = state_procs pm st"
      by (auto simp: om_erase_def map_of_eq_None_iff intro!: filter_True)
    have "release_proc pid sts pm = Inr pm'" using Cons.prems None by simp
    from Cons.IH [OF this] e show ?thesis by (metis (full_types) list.set_intros(2) set_ConsD)
  next
    case (Some p)
    with Cons.prems obtain pm1 where u: "pr_UpdateIterators (state_retain pm FINISHED) pid pm = Inr pm1"
      and r: "release_proc pid sts (upd_state st (om_erase pid) pm1) = Inr pm'" by (auto elim!: seq_fault_InrE)
    obtain its where pm1: "pm1 = pm\<lparr>pr_iters := its\<rparr>" using pr_UpdateIterators_only [OF u] by blast
    from Cons.IH [OF r] obtain its' where i: "pm' = (upd_state st (om_erase pid) pm1)\<lparr>pr_iters := its', state_procs := state_procs pm'\<rparr>"
      "\<And>s. state_procs pm' s = (if s \<in> set sts then om_erase pid (state_procs (upd_state st (om_erase pid) pm1) s) else state_procs (upd_state st (om_erase pid) pm1) s)"
      by blast
    have "pm' = pm\<lparr>pr_iters := its', state_procs := state_procs pm'\<rparr>" by (subst i(1)) (simp add: pm1 upd_state_def)
    moreover have "state_procs pm' s = (if s \<in> set (st # sts) then om_erase pid (state_procs pm s) else state_procs pm s)" for s
      by (subst i(2)) (auto simp: pm1 upd_state_def om_erase_def)
    ultimately show ?thesis by blast
  qed
qed

lemma in_all_states [simp]: "st \<in> set all_states"
  by (cases st) (simp_all add: all_states_def)

text \<open>The commit of a disabled process takes it out of every map, and leaves the others.\<close>

lemma pr_SyncCommit_disabled:
  assumes "pr_SyncCommit p pm = Inr (e, pm')" "syncState (pr_objs pm p) = DISABLED" "procs_ok pm" "known pm p"
  shows "procs_ok pm' \<and> GetProcess (sch_pid (pr_objs pm p)) pm' = None \<and>
    (\<forall>st. om_find (state_procs pm' st) (sch_pid (pr_objs pm p)) = None) \<and>
    (\<forall>pid. pid \<noteq> sch_pid (pr_objs pm p) \<longrightarrow> GetProcess pid pm' = GetProcess pid pm) \<and> pr_objs pm' = pr_objs pm"
proof -
  let ?pid = "sch_pid (pr_objs pm p)"
  obtain pm1 where r: "release_proc ?pid all_states pm = Inr pm1" and pm': "pm' = pm1\<lparr>all_procs := om_erase ?pid (all_procs pm1)\<rparr>"
    using assms(1,2) by (auto simp: pr_SyncCommit_def Let_def Blocking_def Disabled_def elim!: seq_fault_InrE)
  from release_proc_result [OF r] obtain its where 1: "pm1 = pm\<lparr>pr_iters := its, state_procs := state_procs pm1\<rparr>"
    "\<And>st. state_procs pm1 st = om_erase ?pid (state_procs pm st)" by auto
  have f: "pr_objs pm' = pr_objs pm" "pr_alloc pm' = pr_alloc pm" "all_procs pm' = om_erase ?pid (all_procs pm)"
    "\<And>st. state_procs pm' st = om_erase ?pid (state_procs pm st)"
    using arg_cong [OF 1(1), of pr_objs] arg_cong [OF 1(1), of pr_alloc] arg_cong [OF 1(1), of all_procs] 1(2) by (simp_all add: pm')
  have "procs_ok pm'"
    by (rule procs_ok_local [OF assms(3,4)]) (use assms(3) in \<open>auto simp: f procs_ok_def GetProcess_def proc_placed_def\<close>)
  then show ?thesis by (simp add: f GetProcess_def)
qed

lemma pr_SyncCommit_ok:
  assumes "pr_SyncCommit p pm = Inr (e, pm')" "procs_ok pm" "known pm p"
  shows "procs_ok pm'"
proof (cases "syncState (pr_objs pm p) = DISABLED")
  case True
  then show ?thesis using pr_SyncCommit_disabled assms by blast
next
  case False
  then show ?thesis
    using assms ChangeState_outcome [of p RUNNING SYNC_NONE pm] ChangeState_outcome [of p READY SYNC_NONE pm]
    by (auto simp: pr_SyncCommit_def Let_def Disabled_def split: if_splits elim!: seq_fault_InrE)
qed

lemma NotifyStart_ok:
  assumes "NotifyStart uv name pid pm = Inr (b, pm')" "procs_ok pm" "GetProcess pid pm = None"
  shows "procs_ok pm'"
proof (cases "managed_procs pm name")
  case (Some info)
  let ?p = "pr_alloc pm"
  obtain s where set: "Sched_SetState READY SYNC_NONE (Process_new NEW uv name pid 0 READY SYNC_NONE) = Inr (APP_SUCCESS, s)"
    and s: "sch_pid s = pid" "sch_state s = READY" "syncState s = SYNC_NONE"
    by (simp add: sched_defs Process_new_def)
  have m: "pr_objs pm' = (pr_objs pm)(?p := s)" "pr_alloc pm' = ?p + 1" "all_procs pm' = om_insert pid ?p (all_procs pm)"
      "state_procs pm' = (state_procs pm)(READY := om_insert pid ?p (state_procs pm READY))"
    using assms(1) Some by (auto simp: NotifyStart_def Let_def upd_state_def set)
  have none: "om_find (state_procs pm st) pid = None" for st
    using assms(2,3) by (auto simp: procs_ok_def proc_placed_def dest!: spec [of _ pid])
  have "proc_placed pm' q" for q
  proof (cases "q = pid")
    case True
    then show ?thesis using s none assms(2,3) by (auto simp: proc_placed_def m GetProcess_def procs_ok_def)
  next
    case False
    have g: "GetProcess q pm' = GetProcess q pm" "om_find (state_procs pm' st) q = om_find (state_procs pm st) q" for st
      using False assms(2) by (auto simp: m GetProcess_def procs_ok_def om_insert_def)
    show ?thesis
    proof (cases "GetProcess q pm")
      case None
      then show ?thesis using assms(2) by (auto simp: proc_placed_def g procs_ok_def dest!: spec [of _ q])
    next
      case (Some r)
      then show ?thesis using procs_okD [OF assms(2) Some] by (auto simp: proc_placed_def g m(1,2))
    qed
  qed
  then show ?thesis using assms(2) by (auto simp: procs_ok_def m)
qed (use assms in \<open>simp add: NotifyStart_def\<close>)

lemma find_proc_known:
  assumes "procs_ok pm" "find_proc pid all_states pm = Some p"
  shows "GetProcess pid pm = Some p"
proof -
  have "\<exists>st. om_find (state_procs pm st) pid = Some p"
    using assms(2) by (auto simp: all_states_def split: option.splits)
  then obtain st where st: "om_find (state_procs pm st) pid = Some p" ..
  show ?thesis
  proof (cases "GetProcess pid pm")
    case None
    then have "om_find (state_procs pm st) pid = None" using assms(1) by (auto simp: procs_ok_def proc_placed_def dest!: spec [of _ pid])
    with st show ?thesis by simp
  next
    case (Some q)
    then show ?thesis using procs_okD(4) [OF assms(1) Some, of st] st by (simp split: if_splits)
  qed
qed

lemma known_found:
  assumes "procs_ok pm" "GetProcess pid pm = Some p"
  shows "find_proc pid all_states pm = Some p"
  using procs_okD(4) [OF assms] by (cases "sch_state (pr_objs pm p)") (simp_all add: all_states_def)

text \<open>What the other managers, the operating system and the user do to the process manager. A process
  that starts has a number that no managed process has.\<close>

inductive pr_step :: "ProcessManager \<times> ResourceAccounter \<Rightarrow> ProcessManager \<times> ResourceAccounter \<Rightarrow> bool" where
  command: "pr_CommandsCb getopt argv pm = Inr (c, pm') \<Longrightarrow> pr_step (pm, ra) (pm', ra)"
| start: "NotifyStart uv name pid pm = Inr (b, pm') \<Longrightarrow> GetProcess pid pm = None \<Longrightarrow> pr_step (pm, ra) (pm', ra)"
| exit: "NotifyExit name pid pm = Inr (b, pm') \<Longrightarrow> pr_step (pm, ra) (pm', ra)"
| request: "pr_ScheduleRequest beyond mx p wp v n (pm, ra) = Inr (e, s') \<Longrightarrow> known pm p \<Longrightarrow> pr_step (pm, ra) s'"
| no_schedule: "pr_NoSchedule p pm = Inr (e, pm') \<Longrightarrow> known pm p \<Longrightarrow> pr_step (pm, ra) (pm', ra)"
| commit: "pr_SyncCommit p pm = Inr (e, pm') \<Longrightarrow> known pm p \<Longrightarrow> pr_step (pm, ra) (pm', ra)"
| abort: "pr_SyncAbort alive p pm = Inr (e, pm') \<Longrightarrow> known pm p \<Longrightarrow> pr_step (pm, ra) (pm', ra)"
| continue: "pr_SyncContinue p pm = Inr (e, pm') \<Longrightarrow> known pm p \<Longrightarrow> pr_step (pm, ra) (pm', ra)"
| first: "pr_GetFirst st i pm = Inr (po, pm') \<Longrightarrow> pr_step (pm, ra) (pm', ra)"
| nxt: "pr_GetNext i pm = Inr (po, pm') \<Longrightarrow> pr_step (pm, ra) (pm', ra)"
| accounter: "pr_step (pm, ra) (pm, ra')"

lemma sched_options_maps:
  "sched_options os (n, r, pm) = (n', r', pm') \<Longrightarrow> procs_ok pm \<Longrightarrow> procs_ok pm'"
proof (induction os arbitrary: n r pm)
  case (Cons opt os)
  then show ?case by (cases opt) (auto split: if_splits)
qed simp

lemma pr_CommandsCb_ok:
  assumes "pr_CommandsCb getopt argv pm = Inr (c, pm')" "procs_ok pm"
  shows "procs_ok pm'"
proof -
  have "procs_ok (CommandManageSetSchedule opts pm)" for opts
    using sched_options_maps [OF _ assms(2)] by (auto simp: CommandManageSetSchedule_def split: prod.splits option.splits)
  then show ?thesis using assms by (auto simp: pr_CommandsCb_def split: list.splits if_splits)
qed

lemma pr_GetFirst_ok: "pr_GetFirst st i pm = Inr (po, pm') \<Longrightarrow> procs_ok pm' = procs_ok pm"
  unfolding pr_GetFirst_def Let_def by (auto split: if_splits elim!: seq_fault_InrE)

lemma pr_GetNext_ok:
  assumes "pr_GetNext i pm = Inr (po, pm')"
  shows "procs_ok pm' = procs_ok pm"
proof -
  let ?freed = "\<lambda>ait1. case it_ret ait1 of
            Some (STATUS st) \<Rightarrow>
              upd_pit i (ait1\<lparr>it_ret := None\<rparr>) (pm\<lparr>state_retain := (state_retain pm)(st := removeAll i (state_retain pm st))\<rparr>)
          | _ \<Rightarrow> upd_pit i ait1 pm"
  from assms obtain ait1 where "(if it_pos ait1 = None then Inr (None, ?freed ait1)
      else seq_fault (pit_Get ait1 pm) (\<lambda>p. Inr (Some p, upd_pit i ait1 pm))) = Inr (po, pm')"
    unfolding pr_GetNext_def Let_def by (elim seq_fault_InrE)
  then have "pm' = ?freed ait1 \<or> pm' = upd_pit i ait1 pm" by (auto split: if_splits elim!: seq_fault_InrE)
  then show ?thesis by (auto split: option.splits mapref.splits)
qed

lemma NotifyExit_ok:
  assumes "NotifyExit name pid pm = Inr (b, pm')" "procs_ok pm"
  shows "procs_ok pm'"
proof (cases "find_proc pid all_states pm")
  case (Some p)
  then show ?thesis
    using assms ChangeState_outcome [OF _ assms(2) procs_ok_known [OF assms(2) find_proc_known [OF assms(2) Some]], of SYNC DISABLED]
    by (auto simp: NotifyExit_def NotifyExit_pid_def split: if_splits elim!: seq_fault_InrE)
qed (use assms in \<open>simp add: NotifyExit_def NotifyExit_pid_def split: if_splits\<close>)

lemma pr_step_ok: "pr_step s s' \<Longrightarrow> procs_ok (fst s) \<Longrightarrow> procs_ok (fst s')"
proof (induction rule: pr_step.induct)
  case (exit name pid pm b pm' ra)
  then show ?case using NotifyExit_ok [OF exit(1)] by simp
next
  case (request beyond mx p wp v n pm ra e s')
  obtain pm' ra' where "s' = (pm', ra')" by fastforce
  then show ?case using pr_ScheduleRequest_ok [of beyond mx p wp v n pm ra e pm' ra'] request by simp
next
  case (no_schedule p pm e pm' ra)
  then show ?case using ChangeState_outcome [of p SYNC BLOCKED pm e pm'] by (simp add: pr_NoSchedule_def)
next
  case (abort alive p pm e pm' ra)
  then show ?case using ChangeState_outcome [of p SYNC DISABLED pm e pm'] ChangeState_outcome [of p READY SYNC_NONE pm e pm']
    by (cases "alive (sch_pid (pr_objs pm p))") (simp_all add: pr_SyncAbort_def)
next
  case (continue p pm e pm' ra)
  then show ?case using ChangeState_outcome [of p RUNNING SYNC_NONE pm e pm']
    by (cases "sch_state (pr_objs pm p) = RUNNING") (simp_all add: pr_SyncContinue_def)
next
  case (first st i pm po pm' ra)
  then show ?case using pr_GetFirst_ok [OF first(1)] by simp
next
  case (nxt i pm po pm' ra)
  then show ?case using pr_GetNext_ok [OF nxt(1)] by simp
next
  case (command getopt argv pm c pm' ra)
  then show ?case using pr_CommandsCb_ok [OF command(1)] by simp
next
  case (start uv name pid pm b pm' ra)
  then show ?case using NotifyStart_ok [OF start(1)] by simp
next
  case (commit p pm e pm' ra)
  then show ?case using pr_SyncCommit_ok [OF commit(1)] by simp
qed simp

lemma returnsE:
  assumes "case r of Inr (a, b) \<Rightarrow> P a b | Inl _ \<Rightarrow> False"
  obtains a b where "r = Inr (a, b)" "P a b"
  using assms by (auto split: sum.splits)

lemma demo_started: "NotifyStart 0 ''a'' 7 (pr_Add ''a'' ProcessManager_new) = Inr (True, demo_started)"
  by (simp add: demo_started_def NotifyStart_def pr_Add_def ProcessManager_new_def Process_new_def sched_defs Let_def)

lemma demo_started_ok: "procs_ok demo_started" "GetProcess 7 demo_started = Some 0" "sch_state (pr_objs demo_started 0) = READY"
proof -
  have "GetProcess 7 (pr_Add ''a'' ProcessManager_new) = None" by code_simp
  then show "procs_ok demo_started" using NotifyStart_ok [OF demo_started] by (simp add: ProcessManager_new_ok)
  show "GetProcess 7 demo_started = Some 0" "sch_state (pr_objs demo_started 0) = READY" by code_simp+
qed

lemma demo_syncing_ok:
  assumes "y \<noteq> SYNC_NONE"
  shows "procs_ok (demo_syncing y)" "GetProcess 7 (demo_syncing y) = Some 0" "sch_state (pr_objs (demo_syncing y) 0) = SYNC"
    "syncState (pr_objs (demo_syncing y) 0) = y"
proof -
  have "list_all (\<lambda>y. case ChangeState 0 SYNC y demo_started of Inr _ \<Rightarrow> True | Inl _ \<Rightarrow> False)
      [STARTING, RECONF, MIGREC, MIGRATE, BLOCKED, DISABLED]" by code_simp
  with assms have "case ChangeState 0 SYNC y demo_started of Inr _ \<Rightarrow> True | Inl _ \<Rightarrow> False" by (cases y) simp_all
  then obtain e where c: "ChangeState 0 SYNC y demo_started = Inr (e, demo_syncing y)"
    by (cases "ChangeState 0 SYNC y demo_started") (auto simp: demo_syncing_def)
  note c = ChangeState_outcome [OF c demo_started_ok(1) procs_ok_known [OF demo_started_ok(1,2)]]
  then show "procs_ok (demo_syncing y)" "GetProcess 7 (demo_syncing y) = Some 0" "sch_state (pr_objs (demo_syncing y) 0) = SYNC"
    "syncState (pr_objs (demo_syncing y) 0) = y"
    using demo_started_ok(2,3) assms by (simp_all add: GetProcess_def)
qed

text \<open>C14: in every state that the process manager reaches, every managed process is in the map of its
  state and in no other, under its number, and its synchronisation state is set exactly when it is being
  synchronised; a number of no process is in no map.\<close>

theorem processes_stay_placed:
  assumes "pr_step\<^sup>*\<^sup>* (ProcessManager_new, initial_ra) (pm, ra)"
  shows "procs_ok pm"
proof -
  have "procs_ok (fst s)" if "pr_step\<^sup>*\<^sup>* (ProcessManager_new, initial_ra) s" for s
    using that
  proof (induction rule: rtranclp_induct)
    case base
    show ?case by (simp add: ProcessManager_new_ok)
  next
    case (step y z)
    then show ?case using pr_step_ok by blast
  qed
  from this [OF assms] show ?thesis by simp
qed

theorem processes_stay_placed_witness: "procs_ok demo_started \<and> GetProcess 7 demo_started = Some 0"
proof
  have "pr_step (ProcessManager_new, demo_ra) (pr_Add ''a'' ProcessManager_new, demo_ra)" for demo_ra
    by (rule command [of "\<lambda>_. []" "[''bq.prm.add'', ''a'']" _ 0]) (simp add: pr_CommandsCb_def)
  moreover have "pr_step (pr_Add ''a'' ProcessManager_new, demo_ra) (demo_started, demo_ra)" for demo_ra
    by (rule start [OF demo_started]) code_simp
  ultimately have "pr_step\<^sup>*\<^sup>* (ProcessManager_new, ra0) (demo_started, ra0)"
    by (meson converse_rtranclp_into_rtranclp r_into_rtranclp)
  then show "procs_ok demo_started" by (rule processes_stay_placed)
qed (rule demo_started_ok)

text \<open>C15: the exit of a process that is not being synchronised is handled. The process is disabled, an
  optimisation is asked for, and the commit of the session takes the process out of every map and
  leaves the other processes.\<close>

theorem exited_process_is_removed:
  assumes "procs_ok pm" "GetProcess pid pm = Some p" "sch_state (pr_objs pm p) \<noteq> SYNC"
    "NotifyExit_pid pid pm = Inr (b, pm1)" "pr_SyncCommit p pm1 = Inr (e, pm2)"
  shows "b \<and> procs_ok pm2 \<and> GetProcess pid pm2 = None \<and> (\<forall>st. om_find (state_procs pm2 st) pid = None) \<and>
    (\<forall>q. q \<noteq> pid \<longrightarrow> GetProcess q pm2 = GetProcess q pm)"
proof -
  note k = procs_ok_known [OF assms(1,2)] procs_okD(1) [OF assms(1,2)]
  obtain r where c: "ChangeState p SYNC DISABLED pm = Inr (r, pm1)" and b: "b = (r = PR_SUCCESS)"
    using assms(4) known_found [OF assms(1,2)] by (auto simp: NotifyExit_pid_def elim!: seq_fault_InrE)
  have o: "procs_ok pm1" "all_procs pm1 = all_procs pm" "sch_pid (pr_objs pm1 p) = pid" "r = PR_SUCCESS" "syncState (pr_objs pm1 p) = DISABLED"
    using ChangeState_outcome [OF c assms(1) k(1)] assms(3) k(2) by auto
  have "known pm1 p" using assms(2) o by (simp add: GetProcess_def)
  from pr_SyncCommit_disabled [OF assms(5) o(5,1) this] show ?thesis using o b by (auto simp: GetProcess_def)
qed

theorem exited_process_is_removed_witness:
  "\<exists>pm1 e pm2. NotifyExit_pid 7 demo_started = Inr (True, pm1) \<and> pr_SyncCommit 0 pm1 = Inr (e, pm2) \<and> GetProcess 7 pm2 = None"
proof -
  have "case NotifyExit_pid 7 demo_started of
      Inr (b, pm1) \<Rightarrow> (case pr_SyncCommit 0 pm1 of Inr (e, pm2) \<Rightarrow> True | Inl _ \<Rightarrow> False) | Inl _ \<Rightarrow> False" by code_simp
  then obtain b pm1 e pm2 where "NotifyExit_pid 7 demo_started = Inr (b, pm1)" "pr_SyncCommit 0 pm1 = Inr (e, pm2)"
    by (elim returnsE)
  with exited_process_is_removed [OF demo_started_ok(1,2) _ this] demo_started_ok(3) show ?thesis by auto
qed

text \<open>C40: the exit of a process that is being synchronised is lost. The notification changes nothing, though it
  asks for an optimisation: the process is not disabled, and unless it is to be blocked the
  commit of the session makes the process that is gone a running one.\<close>

theorem exit_during_synchronisation_is_lost:
  assumes "procs_ok pm" "GetProcess pid pm = Some p" "sch_state (pr_objs pm p) = SYNC"
  shows "NotifyExit_pid pid pm = Inr (True, pm) \<and>
    (syncState (pr_objs pm p) \<notin> {BLOCKED, DISABLED} \<longrightarrow> pr_SyncCommit p pm = Inr (e, pm') \<longrightarrow> sch_state (pr_objs pm' p) = RUNNING)"
proof -
  note k = procs_ok_known [OF assms(1,2)]
  have "ChangeState p SYNC DISABLED pm = Inr (PR_SUCCESS, pm)"
    using procs_okD(4) [OF assms(1) k, of SYNC] assms(3) by (simp add: ChangeState_def)
  then have "NotifyExit_pid pid pm = Inr (True, pm)" using known_found [OF assms(1,2)] by (simp add: NotifyExit_pid_def)
  moreover have "sch_state (pr_objs pm' p) = RUNNING"
    if "syncState (pr_objs pm p) \<notin> {BLOCKED, DISABLED}" "pr_SyncCommit p pm = Inr (e, pm')"
  proof -
    have "ChangeState p RUNNING SYNC_NONE pm = Inr (e, pm')"
      using that assms(3) by (simp add: pr_SyncCommit_def Let_def Sched_Synching_def Blocking_def Disabled_def)
    from ChangeState_outcome [OF this assms(1) k] assms(3) show ?thesis by simp
  qed
  ultimately show ?thesis by blast
qed

theorem exit_during_synchronisation_is_lost_witness:
  "\<exists>e pm. NotifyExit_pid 7 demo_rescheduled = Inr (True, demo_rescheduled) \<and>
    pr_SyncCommit 0 demo_rescheduled = Inr (e, pm) \<and> sch_state (pr_objs pm 0) = RUNNING"
proof -
  have "case pr_Reschedule 31 0 0 demo_started of Inr (e, pm) \<Rightarrow> True | Inl _ \<Rightarrow> False" by code_simp
  then obtain e1 where r: "pr_Reschedule 31 0 0 demo_started = Inr (e1, demo_rescheduled)"
    by (elim returnsE) (simp add: demo_rescheduled_def)
  note ok = pr_Reschedule_ok [OF r demo_started_ok(1) procs_ok_known [OF demo_started_ok(1,2)]]
  have st: "GetProcess 7 demo_rescheduled = Some 0" "sch_state (pr_objs demo_rescheduled 0) = SYNC"
    "syncState (pr_objs demo_rescheduled 0) = STARTING" by code_simp+
  have "case pr_SyncCommit 0 demo_rescheduled of Inr (e, pm) \<Rightarrow> True | Inl _ \<Rightarrow> False" by code_simp
  then obtain e pm where "pr_SyncCommit 0 demo_rescheduled = Inr (e, pm)" by (elim returnsE)
  with exit_during_synchronisation_is_lost [OF _ st(1,2), of e pm] ok st(3) show ?thesis by auto
qed

lemma pr_UpdateIterators_other: "pr_UpdateIterators is pid pm = Inr pm' \<Longrightarrow> i \<notin> set is \<Longrightarrow> pr_iters pm' i = pr_iters pm i"
proof (induction "is" pid pm rule: pr_UpdateIterators.induct)
  case (2 j "is" pid pm)
  then show ?case by (fastforce simp: Let_def split: option.splits if_splits elim!: seq_fault_InrE)
qed simp

lemma release_proc_other:
  "release_proc pid sts pm = Inr pm' \<Longrightarrow> i \<notin> set (state_retain pm FINISHED) \<Longrightarrow> pr_iters pm' i = pr_iters pm i"
proof (induction sts arbitrary: pm)
  case (Cons st sts)
  show ?case
  proof (cases "om_find (state_procs pm st) pid")
    case (Some p)
    with Cons.prems obtain pm1 where u: "pr_UpdateIterators (state_retain pm FINISHED) pid pm = Inr pm1"
      and r: "release_proc pid sts (upd_state st (om_erase pid) pm1) = Inr pm'" by (auto elim!: seq_fault_InrE)
    have "state_retain pm1 = state_retain pm" using pr_UpdateIterators_only [OF u] by auto
    then show ?thesis using Cons.IH [OF r] pr_UpdateIterators_other [OF u] Cons.prems(2) by (simp add: upd_state_def)
  qed (use Cons in simp)
qed simp

text \<open>A session that removes a disabled process walks on from an erased entry. The walk over the
  processes in synchronisation is at the process, whose commit erases it from the map of that
  state but moves on only iterators over finished processes; the next step of the walk starts from
  an entry that is gone.\<close>

theorem removal_strands_walk:
  assumes "procs_ok pm" "pr_GetFirst SYNC i pm = Inr (Some p, pm1)" "\<not> it_updated (pr_iters pm i)"
    "syncState (pr_objs pm p) = DISABLED" "i \<notin> set (state_retain pm FINISHED)" "pr_SyncCommit p pm1 = Inr (e, pm2)"
  shows "pr_GetNext i pm2 = Inl Dangling"
proof -
  obtain k where k: "begin_key (state_procs pm SYNC) = Some k" and p: "om_find (state_procs pm SYNC) k = Some p"
    and it: "pr_iters pm1 i = (pr_iters pm i)\<lparr>it_map := Some (STATUS SYNC), it_ret := Some (STATUS SYNC), it_pos := Some k\<rparr>"
    and pm1: "state_procs pm1 = state_procs pm" "pr_objs pm1 = pr_objs pm" "all_procs pm1 = all_procs pm"
      "state_retain pm1 FINISHED = state_retain pm FINISHED" "procs_ok pm1"
    using assms(1,2) by (auto simp: pr_GetFirst_def pit_Get_def procs_of_def Let_def split: if_splits option.splits elim!: seq_fault_InrE)
  obtain q where q: "GetProcess k pm = Some q"
    using assms(1) p by (cases "GetProcess k pm") (auto simp: procs_ok_def proc_placed_def dest!: spec [of _ k])
  have "q = p" "sch_pid (pr_objs pm p) = k"
    using procs_okD(1) [OF assms(1) q] procs_okD(4) [OF assms(1) q, of SYNC] p by (auto split: if_splits)
  then have kn: "known pm1 p" and pid: "sch_pid (pr_objs pm1 p) = k" using q by (simp_all add: pm1 GetProcess_def)
  have "om_find (state_procs pm2 SYNC) k = None"
    using pr_SyncCommit_disabled [OF assms(6) _ pm1(5) kn] assms(4) pid by (simp add: pm1)
  moreover have "pr_iters pm2 i = pr_iters pm1 i"
    using assms(4-6) release_proc_other [of k all_states pm1] pid pm1
    by (auto simp: pr_SyncCommit_def Let_def Blocking_def Disabled_def Sched_Synching_def elim!: seq_fault_InrE)
  ultimately show ?thesis using it assms(3) by (simp add: pr_GetNext_def procs_of_def next_key_def)
qed

theorem removal_strands_walk_witness:
  "\<exists>pm1 e pm2. pr_GetFirst SYNC 0 (demo_syncing DISABLED) = Inr (Some 0, pm1) \<and> pr_SyncCommit 0 pm1 = Inr (e, pm2) \<and>
    pr_GetNext 0 pm2 = Inl Dangling"
proof -
  have "case pr_GetFirst SYNC 0 (demo_syncing DISABLED) of
      Inr (po, pm1) \<Rightarrow> po = Some 0 \<and> (case pr_SyncCommit 0 pm1 of Inr (e, pm2) \<Rightarrow> True | Inl _ \<Rightarrow> False) | Inl _ \<Rightarrow> False" by code_simp
  then obtain pm1 e pm2 where "pr_GetFirst SYNC 0 (demo_syncing DISABLED) = Inr (Some 0, pm1)" "pr_SyncCommit 0 pm1 = Inr (e, pm2)"
    by (elim returnsE conjE) simp
  moreover have "\<not> it_updated (pr_iters (demo_syncing DISABLED) 0)" "0 \<notin> set (state_retain (demo_syncing DISABLED) FINISHED)" by code_simp+
  ultimately show ?thesis
    using removal_strands_walk [OF demo_syncing_ok(1), of DISABLED 0 0] demo_syncing_ok(4) [of DISABLED] by auto
qed

end
