(* ===== verification/Spec2Isabelle.thy ===== *)
theory Spec2Isabelle
  imports Accounter_Views Daemon_Progress Process_Manager
begin

text \<open>
  A model of the BarbequeRTRM daemon, the run-time resource manager of the sources under
  \<^verbatim>\<open>bbque/\<close>, \<^verbatim>\<open>include/bbque/\<close> and \<^verbatim>\<open>plugins/\<close>: how it accounts for the resources of a platform, how
  it manages the applications that use them, and how an optimisation goes from an event to
  applications that run in new working modes.

  \<^bold>\<open>The program.\<close> Applications, the execution contexts (EXC), ask for resources through working
  modes (AWM), each of which is a map from resource paths to amounts. The resource accounter keeps
  a tree of descriptors of what the platform has and, in views, who uses how much of it. An event
  makes the resource manager run an optimisation: the scheduler manager calls a scheduling
  policy, which binds working modes to descriptors and requests the scheduling of applications,
  and so books resources in a new view; the synchronisation manager then walks the queues of applications in
  synchronisation, in the order that the synchronisation policy names, exchanges messages with
  the applications, and commits the session, whose view becomes the view of the system.

  \<^bold>\<open>The theories\<close>, in the order in which they use each other, with the code they model:

  \<^item> \<open>Bbque_Prelude\<close>: machine integers, faults and their sequencing, decimal numbers as text, ordered maps.
  \<^item> \<open>Resource_Type\<close> (\<^verbatim>\<open>res/resource_type.cc\<close>, \<^verbatim>\<open>res/identifier.cc\<close>), \<open>Resource_Bitset\<close> (\<^verbatim>\<open>res/bitset.cc\<close>),
    \<open>Path_Utils\<close> (\<^verbatim>\<open>res/resource_utils.h\<close>), \<open>Resource_Path\<close> (\<^verbatim>\<open>res/resource_path.cc\<close>): types, identifiers, masks and paths.
    Paths print and parse back, every operation keeps a path well formed, look-up by the index is linear search,
    and the operations on masks are those on sets.
  \<^item> \<open>Resource_Desc\<close> (\<^verbatim>\<open>res/resources.cc\<close>), \<open>Resource_Tree\<close> (\<^verbatim>\<open>res/resource_tree.cc\<close>), \<open>Resource_Assign\<close>
    (\<^verbatim>\<open>res/resource_assignment.cc\<close>): descriptors with their usage per view, the tree and assignments. Acquire and
    release are inverse, the search equals a reference without state, and what is inserted is found.
  \<^item> \<open>Accounter_State\<close>, \<open>Accounter_Booking\<close>, \<open>Accounter_Views\<close> (\<^verbatim>\<open>resource_accounter.cc\<close>): registration and queries;
    booking and release; views and synchronisation sessions. A booking follows a plan and meets the request,
    a release undoes it, views do not disturb each other, and a commit installs the view of the session.
  \<^item> \<open>Binder\<close> (\<^verbatim>\<open>res/binder.cc\<close>), \<open>Working_Mode\<close> (\<^verbatim>\<open>app/working_mode.cc\<close>), \<open>Schedulable\<close> (\<^verbatim>\<open>app/schedulable.cc\<close>),
    \<open>Recipe\<close> (\<^verbatim>\<open>app/recipe.cc\<close>), \<open>Application\<close> (\<^verbatim>\<open>app/application.cc\<close>): working modes and their binding, the state
    of what is scheduled, and the constraints that enable working modes. \<open>Float_Round\<close> has the rounding of
    \<open>float\<close> and \<open>double\<close>.
  \<^item> \<open>App_Queues\<close>, \<open>App_Scheduling\<close>, \<open>App_Lifecycle\<close> (\<^verbatim>\<open>application_manager.cc\<close>): the maps of applications with iterators
    that survive erasure, the requests of policies and applications, and what they make of an application
    from its creation to its clean-up. Every application that is not finished is in the queues of its state, and in no
    other, as long as no application is created under a number that is taken: \<open>CreateEXC\<close> does not check this.
  \<^item> \<open>Sync_Policy\<close> (\<^verbatim>\<open>plugins/syncpol/sasb/sasb_syncpol.cc\<close>), \<open>Sync_Manager\<close>, \<open>Sync_Session\<close>, \<open>Sync_Settlement\<close>
    (\<^verbatim>\<open>synchronization_manager.cc\<close>, with the messages of \<^verbatim>\<open>application_proxy.cc\<close>): the policy that orders the queues,
    the session, its end and its invariants, and what it makes of the applications in a queue.
  \<^item> \<open>Scheduler_Manager\<close> (\<^verbatim>\<open>scheduler_manager.cc\<close>), \<open>Deferred_Task\<close> (\<^verbatim>\<open>utils/deferrable.cc\<close>), \<open>Resource_Manager\<close>
    (\<^verbatim>\<open>resource_manager.cc\<close>): a scheduling run, the thread that executes a task at the nearest requested time, and the
    events, the control loop and the optimisation. An optimisation keeps the system consistent.
  \<^item> \<open>Grid_Balance\<close> (\<^verbatim>\<open>plugins/schedpol/gridbalance/gridbalance_schedpol.cc\<close>): a scheduling policy. It keeps the contract that
    the managers rely on, so that an optimisation with it is consistent, and its shares fit into the total.
  \<^item> \<open>Daemon_Progress\<close>: the loops of an optimisation and of a round of the control loop end, and no call in them is
    suspended when the scheduler and the platform are ready.
  \<^item> \<open>Process_Manager\<close> (\<^verbatim>\<open>process_manager.cc\<close>): processes that are managed without the run-time library.

  \<^bold>\<open>How the code is translated.\<close> A class is a record, its methods are functions that take and
  return the record; objects that are shared through pointers are in a store and are named by numbers.
  An exception, an access through a null or a dangling pointer, a division by zero and a call that would be suspended are
  values of \<open>fault\<close>, and a method that can end so returns \<open>fault + _\<close>. Error codes are the enumerations of
  the code. Unsigned integers are words of their width and wrap. A \<open>float\<close> is the rational number it stands for; where
  the code converts an integer or divides, the result is rounded to the nearest number with 24 bits, or 53 for a
  \<open>double\<close>, ties to even (the exponents cannot leave their range there).
  A mutex is taken for the whole of the method, so that methods are the atomic steps; where the code gives
  the lock away, the pieces between are steps of their own (\<open>Task_wait\<close>, \<open>Task_wake\<close>, \<open>ev_step\<close>).

  \<^bold>\<open>Interfaces.\<close> \<open>ordered_map\<close> (maps of the standard library), \<open>segment_codec\<close> (texts of paths), \<open>ledger\<close> (what the accounter
  relies on in descriptors), \<open>views_invariant\<close>, \<open>sync_policy\<close> (what ends a session), \<open>session_invariant\<close>, \<open>queue_walk\<close> (a
  loop over a queue from which its applications leave) and \<open>scheduling_policy\<close> are locales, interpreted on
  the definitions of the model; their clients are proved in them.

  \<^bold>\<open>Loops with fuel.\<close> A loop that changes what it walks takes fuel and answers \<open>None\<close> when it is used up.
  \<open>Bind_in_place\<close> has \<open>bind_fuel\<close>, twice the size of the map and one, as an entry is added at most once for every
  entry. The walks over queues (\<open>visit\<close>, \<open>CheckActive_loop\<close>, \<open>HighestPrio_loop\<close>, the clean-up) have the size of the
  queue, as an iterator only moves on to later keys. The loop over the queues of a session has ten
  rounds, as SASB names at most nine queues. For each it is proved that the fuel is enough, so that \<open>None\<close> is not an
  outcome of the callers. The loop that collects the answers of applications (\<open>collect_pre\<close>) does not end in the code when
  it meets a disabled application, and is \<open>None\<close> there; it is proved that no such application is asked, so that this
  takes another thread that disables one meanwhile.

  \<^bold>\<open>Parameters\<close> stand for what is not in these sources or not in the modelled build: the hash of the standard library, the
  recipe loader, the answers of the platform, of the applications and of the operating system, the clock, and the
  scheduling policy, of which only is assumed that it acts by the calls that policies have (\<open>policy_step\<close>). The build is
  the default one: asynchronous protocol calls, no task graphs, no power management of the processors;
  assertions are off. The process manager is modelled by itself, and the managers in the build without it.

  \<^bold>\<open>Not modelled.\<close> The run-time library in the applications, the transport of messages, the platform proxies, power and
  energy management, remote agents, loaders of XML files, plug-in loading, the data manager, the front ends and
  the libraries for task graphs act on devices, files, sockets and threads, or are built on libraries that are not in
  the sources. The other scheduling policies are alternatives to the one that is modelled and score with floating
  point. The timers and the power and reliability profiles of descriptors are averages in floating point. Logs, metrics and printed
  reports have no effect on the state.
\<close>

end
